(* ===== verification/UkPrelude.thy ===== *)
theory UkPrelude
  imports "HOL-Library.Word" "HOL-Library.Monad_Syntax"
begin

unbundle bit_operations_syntax

text \<open>
  Shared vocabulary of the development: the integer types of \<^verbatim>\<open>include/types.h\<close>, the
  conversions C applies between them, the reading of loops as recursions, and byte-addressed
  memory with its little-endian 64-bit accesses.

  Every operation of the kernel that can stop for good is an \<open>option\<close>: \<^term>\<open>None\<close> means
  that the call never returns.  That is what \<^verbatim>\<open>panic\<close> and a failed \<^verbatim>\<open>assert\<close> do in this
  source (both end in \<^verbatim>\<open>while (1);\<close>), and what an access through an unmapped address
  inside the kernel does (\<^verbatim>\<open>page_fault_handler\<close> ends in the same loop).
\<close>

named_theorems page_simps \<open>arithmetic of page-aligned addresses and page offsets\<close>
named_theorems mem_simps \<open>loads after stores\<close>

section \<open>Integer types\<close>

type_synonym u8 = "8 word"
type_synonym u16 = "16 word"
type_synonym u32 = "32 word"
type_synonym u64 = "64 word"

text \<open>
  Signed C integers are words of the same width read with \<^term>\<open>sint\<close>; \<open>i32_of\<close> is the
  conversion of a \<^verbatim>\<open>u64\<close> (or \<^verbatim>\<open>i64\<close>) to \<^verbatim>\<open>int\<close>, and \<open>sext64\<close> the sign extension back.
\<close>

definition i32_of :: "u64 \<Rightarrow> u32" where
  "i32_of x = ucast x"

definition sext64 :: "u32 \<Rightarrow> u64" where
  "sext64 x = scast x"

lemma sext64_nonneg:
  assumes "unat i < 2 ^ 31"
  shows "sext64 i = ucast i"
proof -
  have "i < 2 ^ 31" using assms by (simp add: word_less_nat_alt)
  then have "i AND mask 31 = i" by (rule less_mask_eq)
  then have "bit i 31 = bit (i AND mask 31) 31" by simp
  then have msb: "\<not> bit i 31" by (simp add: bit_simps)
  have "bit (scast i :: u64) n = bit (ucast i :: u64) n" if "n < 64" for n
  proof (cases "n < 31")
    case True
    then show ?thesis using that by (simp add: bit_simps)
  next
    case False
    then have "\<not> bit i n" using msb bit_imp_le_length[of i n]
      by (cases "n = 31") auto
    then show ?thesis using that False msb by (simp add: bit_simps min_def)
  qed
  then show ?thesis unfolding sext64_def by (intro bit_word_eqI) auto
qed

section \<open>Loops\<close>

text \<open>
  \<^verbatim>\<open>for (i = a; i < b; ++i) body\<close> with a body that may stop the kernel is \<open>for_loop [a..<b]\<close>
  over the body as a state transformer.
\<close>

fun for_loop :: "nat list \<Rightarrow> (nat \<Rightarrow> 's \<Rightarrow> 's option) \<Rightarrow> 's \<Rightarrow> 's option" where
  "for_loop [] f s = Some s"
| "for_loop (i # js) f s = do { s \<leftarrow> f i s; for_loop js f s }"

lemma for_loop_append:
  "for_loop (xs @ ys) f s = do { s \<leftarrow> for_loop xs f s; for_loop ys f s }"
  by (induction xs arbitrary: s) (simp_all split: bind_split)

lemma for_loop_cong [fundef_cong]:
  assumes "xs = ys" and "s = t" and "\<And>i u. i \<in> set ys \<Longrightarrow> f i u = g i u"
  shows "for_loop xs f s = for_loop ys g t"
  using assms(3) unfolding assms(1,2)
proof (induction ys arbitrary: t)
  case (Cons i js)
  have "f i t = g i t" using Cons.prems by simp
  moreover have "for_loop js f = for_loop js g"
    using Cons.prems by (intro ext Cons.IH) simp
  ultimately show ?case by simp
qed simp

text \<open>Total correctness: an invariant indexed by the loop counter.\<close>

lemma for_loop_inv:
  assumes "a \<le> b" and "P a s"
    and step: "\<And>i s. a \<le> i \<Longrightarrow> i < b \<Longrightarrow> P i s \<Longrightarrow> \<exists>s'. f i s = Some s' \<and> P (Suc i) s'"
  shows "\<exists>s'. for_loop [a..<b] f s = Some s' \<and> P b s'"
  using assms(1,2) step
proof (induction "b - a" arbitrary: a s)
  case 0
  then show ?case by simp
next
  case (Suc n)
  then have ab: "a < b" by simp
  obtain s1 where s1: "f a s = Some s1" "P (Suc a) s1"
    using Suc.prems(3)[OF order_refl ab Suc.prems(2)] by blast
  have "\<exists>s'. for_loop [Suc a..<b] f s1 = Some s' \<and> P b s'"
    using Suc.hyps(2) ab s1(2) Suc.prems(3) by (intro Suc.hyps(1)) auto
  then show ?case
    using ab s1(1) by (simp add: upt_conv_Cons)
qed

lemma for_loop_invE:
  assumes "a \<le> b" and "P a s"
    and "\<And>i s. a \<le> i \<Longrightarrow> i < b \<Longrightarrow> P i s \<Longrightarrow> \<exists>s'. f i s = Some s' \<and> P (Suc i) s'"
  obtains s' where "for_loop [a..<b] f s = Some s'" and "P b s'"
  using for_loop_inv[of a b P s f] assms by blast

text \<open>Partial correctness: what every completed iteration keeps, the completed loop keeps.\<close>

lemma for_loop_preserves:
  assumes "for_loop xs f s = Some t" and "P s"
    and "\<And>i u v. i \<in> set xs \<Longrightarrow> P u \<Longrightarrow> f i u = Some v \<Longrightarrow> P v"
  shows "P t"
  using assms
proof (induction xs arbitrary: s)
  case (Cons x xs)
  from Cons.prems(1) obtain u where u: "f x s = Some u" "for_loop xs f u = Some t"
    by (auto simp: bind_eq_Some_conv)
  have "P u" using Cons.prems(2,3) u(1) by auto
  then show ?case using Cons.IH[OF u(2)] Cons.prems(3) by auto
qed simp

section \<open>Bits of words\<close>

lemma bit_ucast_byte: "bit (ucast (w :: u8) :: u64) n \<longleftrightarrow> n < 8 \<and> bit w n"
  by (auto simp: bit_simps dest: bit_imp_le_length)

lemma bit_push_byte:
  "bit (push_bit k (ucast (w :: u8)) :: u64) n \<longleftrightarrow> n < 64 \<and> k \<le> n \<and> n < k + 8 \<and> bit w (n - k)"
  by (auto simp: bit_simps dest: bit_imp_le_length)

lemma word_and_mask_eq_0_iff: "(w :: u64) AND mask n = 0 \<longleftrightarrow> (\<forall>i < n. \<not> bit w i)"
proof
  assume h: "w AND mask n = 0"
  show "\<forall>i < n. \<not> bit w i"
  proof (intro allI impI)
    fix i assume "i < n"
    have "\<not> bit (w AND mask n) i" using h by simp
    then show "\<not> bit w i" using \<open>i < n\<close>
      by (auto simp: bit_simps dest: bit_imp_le_length)
  qed
next
  assume "\<forall>i < n. \<not> bit w i"
  then show "w AND mask n = 0"
    by (intro bit_word_eqI) (auto simp: bit_simps)
qed

lemma word_less_exp_iff_bits: "(w :: u64) < 2 ^ n \<longleftrightarrow> (\<forall>i. n \<le> i \<longrightarrow> \<not> bit w i)" if "n < 64"
proof
  assume h: "w < 2 ^ n"
  then have "take_bit n w = w"
    by (simp add: take_bit_eq_mask less_mask_eq)
  then show "\<forall>i. n \<le> i \<longrightarrow> \<not> bit w i"
    by (metis bit_take_bit_iff not_le)
next
  assume "\<forall>i. n \<le> i \<longrightarrow> \<not> bit w i"
  then have "take_bit n w = w"
    by (intro bit_word_eqI) (metis bit_take_bit_iff not_le)
  then show "w < 2 ^ n"
    using that mask_eq_iff_w2p[of n w] by (simp add: take_bit_eq_mask word_size)
qed

lemma u64_eqI: "(\<And>n. n < 64 \<Longrightarrow> bit v n = bit w n) \<Longrightarrow> v = w" for v w :: u64
  by (rule bit_word_eqI) simp

lemma bit_NOT_mask: "bit (NOT (mask n) :: u64) i \<longleftrightarrow> n \<le> i \<and> i < 64"
  by (auto simp: bit_simps)

lemma bit_mask_u64: "bit (mask n :: u64) i \<longleftrightarrow> i < n \<and> i < 64"
  by (auto simp: bit_simps)

text \<open>An address whose low \<open>n\<close> bits are clear, plus an offset that fits in them.\<close>

lemma aligned_plus_eq_or:
  fixes a k :: u64
  assumes "a AND mask n = 0" and "k < 2 ^ n" and "n < 64"
  shows "a + k = a OR k"
proof -
  have "\<not> bit a i \<or> \<not> bit k i" for i
    using assms word_less_exp_iff_bits[of n k] by (cases "i < n") (auto simp: word_and_mask_eq_0_iff)
  then show ?thesis by (intro disjunctive_add) blast
qed

lemma aligned_plus_base:
  fixes a k :: u64
  assumes a: "a AND mask n = 0" and k: "k < 2 ^ n" and n: "n < 64"
  shows "(a + k) AND NOT (mask n) = a"
proof (rule u64_eqI)
  fix i :: nat assume "i < 64"
  then show "bit ((a + k) AND NOT (mask n)) i = bit a i"
    using word_less_exp_iff_bits[OF n, of k] k a
    by (cases "i < n")
      (simp_all add: aligned_plus_eq_or[OF assms] bit_and_iff bit_or_iff bit_NOT_mask word_and_mask_eq_0_iff)
qed

lemma aligned_plus_offset:
  fixes a k :: u64
  assumes a: "a AND mask n = 0" and k: "k < 2 ^ n" and n: "n < 64"
  shows "(a + k) AND mask n = k"
proof (rule u64_eqI)
  fix i :: nat assume "i < 64"
  then show "bit ((a + k) AND mask n) i = bit k i"
    using word_less_exp_iff_bits[OF n, of k] k a
    by (cases "i < n")
      (simp_all add: aligned_plus_eq_or[OF assms] bit_and_iff bit_or_iff bit_mask_u64 word_and_mask_eq_0_iff)
qed

section \<open>Counters and regions\<close>

lemma unat_inc:
  fixes i n :: "'a :: len word"
  assumes "i < n"
  shows "unat (i + 1) = Suc (unat i)"
proof -
  have "1 + i \<noteq> 0"
  proof
    assume "1 + i = 0"
    then have "i = - 1" by (simp add: eq_neg_iff_add_eq_0 add.commute)
    then show False using assms by simp
  qed
  then show ?thesis using unatSuc[of i] by (simp add: add.commute)
qed

lemma unat_diff_inc_less:
  fixes a b :: "'a :: len word"
  assumes "a < b"
  shows "unat (b - (a + 1)) < unat (b - a)"
proof -
  have i: "unat (a + 1) = Suc (unat a)" using assms by (rule unat_inc)
  have l: "unat a < unat b" using assms by (simp add: word_less_nat_alt)
  then have "a + 1 \<le> b" "a \<le> b" using i by (simp_all add: word_le_nat_alt)
  then have "unat (b - (a + 1)) = unat b - Suc (unat a)" "unat (b - a) = unat b - unat a"
    using i by (simp_all add: unat_sub)
  then show ?thesis using l by simp
qed

lemma unat_ucast_u32 [simp]: "unat (ucast (i :: u32) :: u64) = unat i"
proof -
  have "unat i < 2 ^ 32" using unsigned_less[of i, where ?'a = nat] by simp
  then show ?thesis by (simp add: unsigned_ucast_eq take_bit_nat_eq_self)
qed

lemma ucast_inc:
  fixes i n :: u32
  assumes "i < n"
  shows "ucast (i + 1) = (ucast i + 1 :: u64)"
proof -
  have "unat i < 2 ^ 32" using unsigned_less[of i, where ?'a = nat] by simp
  then have "unat (ucast i + 1 :: u64) = Suc (unat i)"
    by (simp add: unat_word_ariths)
  then show ?thesis
    by (simp add: word_unat_eq_iff unat_inc[OF assms])
qed

text \<open>The \<open>n\<close> addresses from \<open>a\<close> on (modulo \<open>2^64\<close>).\<close>

definition region :: "u64 \<Rightarrow> nat \<Rightarrow> u64 set" where
  "region a n = {x. unat (x - a) < n}"

lemma in_region_iff: "x \<in> region a n \<longleftrightarrow> unat (x - a) < n"
  by (simp add: region_def)

lemma region_of_nat: "k < n \<Longrightarrow> k < 2 ^ 64 \<Longrightarrow> a + of_nat k \<in> region a n"
  by (simp add: region_def unat_of_nat)

lemma region_base [simp]: "a \<in> region a n \<longleftrightarrow> 0 < n"
  by (simp add: region_def)

section \<open>Byte-addressed memory\<close>

type_synonym bytes = "u64 \<Rightarrow> u8"

text \<open>A 64-bit access touches the eight bytes from its address on, least significant first.\<close>

definition load64 :: "bytes \<Rightarrow> u64 \<Rightarrow> u64" where
  "load64 m a =
     ucast (m a) OR push_bit 8 (ucast (m (a + 1))) OR push_bit 16 (ucast (m (a + 2)))
     OR push_bit 24 (ucast (m (a + 3))) OR push_bit 32 (ucast (m (a + 4)))
     OR push_bit 40 (ucast (m (a + 5))) OR push_bit 48 (ucast (m (a + 6)))
     OR push_bit 56 (ucast (m (a + 7)))"

definition store64 :: "bytes \<Rightarrow> u64 \<Rightarrow> u64 \<Rightarrow> bytes" where
  "store64 m a v =
     m(a := ucast v, a + 1 := ucast (drop_bit 8 v), a + 2 := ucast (drop_bit 16 v),
       a + 3 := ucast (drop_bit 24 v), a + 4 := ucast (drop_bit 32 v),
       a + 5 := ucast (drop_bit 40 v), a + 6 := ucast (drop_bit 48 v),
       a + 7 := ucast (drop_bit 56 v))"

definition bytes8 :: "u64 \<Rightarrow> u64 set" where
  "bytes8 a = {a, a + 1, a + 2, a + 3, a + 4, a + 5, a + 6, a + 7}"

lemma bytes8_of_nat: "k < 8 \<Longrightarrow> a + of_nat k \<in> bytes8 a"
proof -
  assume "k < 8"
  then have "k = 0 \<or> k = 1 \<or> k = 2 \<or> k = 3 \<or> k = 4 \<or> k = 5 \<or> k = 6 \<or> k = 7" by linarith
  then show ?thesis by (elim disjE) (simp_all add: bytes8_def)
qed

lemma bytes8_cases:
  assumes "x \<in> bytes8 a"
  obtains k where "k < 8" and "x = a + of_nat k"
proof -
  have "\<exists>k < 8. x = a + of_nat k"
    using assms unfolding bytes8_def
    by (elim insertE emptyE)
      (rule exI[of _ 0], simp, rule exI[of _ 1], simp, rule exI[of _ 2], simp,
       rule exI[of _ 3], simp, rule exI[of _ 4], simp, rule exI[of _ 5], simp,
       rule exI[of _ 6], simp, rule exI[of _ 7], simp)
  then show ?thesis using that by blast
qed

lemma bit_load64:
  "bit (load64 m a) n \<longleftrightarrow> n < 64 \<and> bit (m (a + of_nat (n div 8))) (n mod 8)"
proof (cases "n < 64")
  case True
  define q r where "q = n div 8" and "r = n mod 8"
  then have n: "n = 8 * q + r" and r: "r < 8" and q: "q < 8" using True by auto
  have "q = 0 \<or> q = 1 \<or> q = 2 \<or> q = 3 \<or> q = 4 \<or> q = 5 \<or> q = 6 \<or> q = 7"
    using q by linarith
  then have "bit (load64 m a) (8 * q + r) \<longleftrightarrow> bit (m (a + of_nat q)) r"
    using r by (elim disjE) (simp_all add: load64_def bit_or_iff bit_push_byte bit_ucast_byte)
  then show ?thesis using True n r by simp
next
  case False
  then show ?thesis by (auto dest: bit_imp_le_length)
qed

lemma store64_byte: "k < 8 \<Longrightarrow> store64 m a v (a + of_nat k) = ucast (drop_bit (8 * k) v)"
proof -
  assume "k < 8"
  then have "k = 0 \<or> k = 1 \<or> k = 2 \<or> k = 3 \<or> k = 4 \<or> k = 5 \<or> k = 6 \<or> k = 7" by linarith
  then show ?thesis by (elim disjE) (simp_all add: store64_def)
qed

lemma store64_outside: "x \<notin> bytes8 a \<Longrightarrow> store64 m a v x = m x"
  by (simp add: store64_def bytes8_def)

lemma load64_cong: "(\<And>x. x \<in> bytes8 a \<Longrightarrow> m x = m' x) \<Longrightarrow> load64 m a = load64 m' a"
  by (simp add: load64_def bytes8_def)

lemma load64_zero: "(\<And>x. x \<in> bytes8 a \<Longrightarrow> m x = 0) \<Longrightarrow> load64 m a = 0"
  by (simp add: load64_def bytes8_def)

lemma load64_store64_same [mem_simps]: "load64 (store64 m a v) a = v"
proof (rule bit_word_eqI)
  fix n assume "n < LENGTH(64)"
  then have "n < 64" and "n div 8 < 8" by simp_all
  then show "bit (load64 (store64 m a v) a) n = bit v n"
    by (simp add: bit_load64 store64_byte bit_simps)
qed

lemma load64_store64_other:
  "bytes8 a \<inter> bytes8 b = {} \<Longrightarrow> load64 (store64 m a v) b = load64 m b"
  by (rule load64_cong) (auto intro: store64_outside)

text \<open>
  What a client of 64-bit memory relies on.  The locale is the interface of the page-table
  code to memory: cells are the addresses it uses, distinct cells do not interfere.
\<close>

locale cell_memory =
  fixes load :: "'m \<Rightarrow> 'a \<Rightarrow> 'v" and store :: "'m \<Rightarrow> 'a \<Rightarrow> 'v \<Rightarrow> 'm" and cell :: "'a \<Rightarrow> bool"
  assumes load_store_same: "cell a \<Longrightarrow> load (store m a v) a = v"
    and load_store_other: "cell a \<Longrightarrow> cell b \<Longrightarrow> a \<noteq> b \<Longrightarrow> load (store m a v) b = load m b"
begin

lemma load_store: "cell a \<Longrightarrow> cell b \<Longrightarrow> load (store m a v) b = (if a = b then v else load m b)"
  by (simp add: load_store_same load_store_other)

lemma load_store_twice:
  "cell a \<Longrightarrow> cell b \<Longrightarrow> load (store (store m a v) a w) b = load (store m a w) b"
  by (simp add: load_store)

lemma load_store_commute:
  "cell a \<Longrightarrow> cell b \<Longrightarrow> cell c \<Longrightarrow> a \<noteq> b \<Longrightarrow>
   load (store (store m a v) b w) c = load (store (store m b w) a v) c"
  by (auto simp: load_store)

end

definition aligned8 :: "u64 \<Rightarrow> bool" where
  "aligned8 a \<longleftrightarrow> a AND 7 = 0"

lemma aligned8_byte:
  assumes "aligned8 a" and "k < 8"
  shows "(a + of_nat k) AND NOT 7 = a"
proof -
  have m: "(7 :: u64) = mask 3" by (simp add: mask_eq_exp_minus_1)
  have "(of_nat k :: u64) < 2 ^ 3"
    using assms(2) by (simp add: word_less_nat_alt unat_of_nat)
  then show ?thesis
    using assms(1) aligned_plus_base[of a 3 "of_nat k"] unfolding aligned8_def m by simp
qed

lemma bytes8_disjoint:
  assumes "aligned8 a" and "aligned8 b" and "a \<noteq> b"
  shows "bytes8 a \<inter> bytes8 b = {}"
proof (rule ccontr)
  assume "bytes8 a \<inter> bytes8 b \<noteq> {}"
  then obtain x where "x \<in> bytes8 a" "x \<in> bytes8 b" by blast
  then have "x AND NOT 7 = a" "x AND NOT 7 = b"
    using assms(1,2) by (metis aligned8_byte bytes8_cases)+
  then show False using assms(3) by simp
qed

interpretation mem64: cell_memory load64 store64 aligned8
  by unfold_locales (simp_all add: load64_store64_same load64_store64_other bytes8_disjoint)

end
