(* ===== verification/Str.thy ===== *)
theory Str
  imports UkPrelude
begin

text \<open>
  The C string library of the kernel and the user programs, \<^verbatim>\<open>lib/string.c\<close>.  Pointers are
  addresses of a byte memory, so that overlapping arguments behave as they do in the code.
  The loop counters of \<^verbatim>\<open>memcpy\<close>, \<^verbatim>\<open>memset\<close> and \<^verbatim>\<open>strcmp\<close> are \<^verbatim>\<open>int\<close> compared with an
  unsigned \<^verbatim>\<open>size_t\<close>, i.e. compared as unsigned 32-bit numbers, and index the array
  sign-extended.  \<^verbatim>\<open>strcpy\<close> and \<^verbatim>\<open>strcat\<close> run until they meet a NUL and need not stop.
\<close>

section \<open>Definitions\<close>

definition STR_MAXLEN :: nat where
  "STR_MAXLEN = 4096"

function memcpy_loop :: "bytes \<Rightarrow> u64 \<Rightarrow> u64 \<Rightarrow> u32 \<Rightarrow> u32 \<Rightarrow> bytes" where
  "memcpy_loop m dst src n i =
     (if i < n then memcpy_loop (m(dst + sext64 i := m (src + sext64 i))) dst src n (i + 1) else m)"
  by pat_completeness auto
termination
  by (relation "measure (\<lambda>(m, dst, src, n, i). unat n - unat i)")
    (auto simp: unat_inc word_less_nat_alt)

definition memcpy :: "bytes \<Rightarrow> u64 \<Rightarrow> u64 \<Rightarrow> u32 \<Rightarrow> bytes" where
  "memcpy m s1 s2 n = memcpy_loop m s1 s2 n 0"

function memset_loop :: "bytes \<Rightarrow> u64 \<Rightarrow> u8 \<Rightarrow> u32 \<Rightarrow> u32 \<Rightarrow> bytes" where
  "memset_loop m dst c n i =
     (if i < n then memset_loop (m(dst + sext64 i := c)) dst c n (i + 1) else m)"
  by pat_completeness auto
termination
  by (relation "measure (\<lambda>(m, dst, c, n, i). unat n - unat i)")
    (auto simp: unat_inc word_less_nat_alt)

text \<open>\<^verbatim>\<open>memset(void *s, int c, size_t n)\<close> stores \<open>c\<close> truncated to a \<^verbatim>\<open>char\<close>.\<close>

definition memset :: "bytes \<Rightarrow> u64 \<Rightarrow> u32 \<Rightarrow> u32 \<Rightarrow> bytes" where
  "memset m s c n = memset_loop m s (ucast c) n 0"

function strlen_loop :: "bytes \<Rightarrow> u64 \<Rightarrow> nat \<Rightarrow> nat" where
  "strlen_loop m s i =
     (if i < STR_MAXLEN then if m (s + of_nat i) = 0 then i else strlen_loop m s (Suc i)
      else STR_MAXLEN)"
  by pat_completeness auto
termination
  by (relation "measure (\<lambda>(m, s, i). STR_MAXLEN - i)") auto

definition strlen :: "bytes \<Rightarrow> u64 \<Rightarrow> u32" where
  "strlen m s = of_nat (strlen_loop m s 0)"

function strcmp_loop :: "bytes \<Rightarrow> u64 \<Rightarrow> u64 \<Rightarrow> u32 \<Rightarrow> u32 \<Rightarrow> int" where
  "strcmp_loop m s1 s2 n i =
     (if i < n
      then if m (s1 + sext64 i) \<noteq> m (s2 + sext64 i) then 1
           else if m (s1 + sext64 i) = 0 then 0
           else strcmp_loop m s1 s2 n (i + 1)
      else 0)"
  by pat_completeness auto
termination
  by (relation "measure (\<lambda>(m, s1, s2, n, i). unat n - unat i)")
    (auto simp: unat_inc word_less_nat_alt)

definition strcmp :: "bytes \<Rightarrow> u64 \<Rightarrow> u64 \<Rightarrow> u32 \<Rightarrow> int" where
  "strcmp m s1 s2 n = strcmp_loop m s1 s2 n 0"

text \<open>\<^verbatim>\<open>strncpy\<close> takes a signed \<open>n\<close>; it stores a NUL after the bytes it has copied.\<close>

function strncpy_loop :: "bytes \<Rightarrow> u64 \<Rightarrow> u64 \<Rightarrow> int \<Rightarrow> int \<Rightarrow> bytes" where
  "strncpy_loop m dst src n i =
     (if i < n \<and> m src \<noteq> 0
      then strncpy_loop (m(dst := m src)) (dst + 1) (src + 1) n (i + 1)
      else m(dst := 0))"
  by pat_completeness auto
termination
  by (relation "measure (\<lambda>(m, dst, src, n, i). nat (n - i))") auto

definition strncpy :: "bytes \<Rightarrow> u64 \<Rightarrow> u64 \<Rightarrow> u32 \<Rightarrow> bytes" where
  "strncpy m dst src n = strncpy_loop m dst src (sint n) 0"

partial_function (option) strcpy :: "bytes \<Rightarrow> u64 \<Rightarrow> u64 \<Rightarrow> bytes option" where
  "strcpy m dst src =
     (if m src \<noteq> 0 then strcpy (m(dst := m src)) (dst + 1) (src + 1)
      else Some (m(dst := 0)))"

text \<open>In \<^verbatim>\<open>strcat\<close> both the length and the counter are \<^verbatim>\<open>size_t\<close>, so \<open>dest_len + i\<close> is a 32-bit sum.\<close>

partial_function (option) strcat_loop ::
  "bytes \<Rightarrow> u64 \<Rightarrow> u32 \<Rightarrow> u64 \<Rightarrow> u32 \<Rightarrow> bytes option" where
  "strcat_loop m dest dest_len src i =
     (if m (src + ucast i) \<noteq> 0
      then strcat_loop (m(dest + ucast (dest_len + i) := m (src + ucast i))) dest dest_len src (i + 1)
      else Some (m(dest + ucast (dest_len + i) := 0)))"

definition strcat :: "bytes \<Rightarrow> u64 \<Rightarrow> u64 \<Rightarrow> bytes option" where
  "strcat m dest src = strcat_loop m dest (strlen m dest) src 0"

text \<open>
  The abstract view of a C string: \<open>is_cstr m a xs\<close> when the bytes \<open>xs\<close>, none of them NUL,
  stand at \<open>a\<close> and a NUL follows.
\<close>

definition is_cstr :: "bytes \<Rightarrow> u64 \<Rightarrow> u8 list \<Rightarrow> bool" where
  "is_cstr m a xs \<longleftrightarrow>
     (\<forall>k < length xs. m (a + of_nat k) = xs ! k) \<and> 0 \<notin> set xs \<and> m (a + of_nat (length xs)) = 0"

declare memcpy_loop.simps [simp del] memset_loop.simps [simp del] strlen_loop.simps [simp del]
  strcmp_loop.simps [simp del] strncpy_loop.simps [simp del]

section \<open>Block operations\<close>

lemma diff_eq_ucast_iff: "(x :: u64) = a + ucast (i :: u32) \<longleftrightarrow> unat (x - a) = unat i"
proof
  assume "unat (x - a) = unat i"
  then have "x - a = ucast i" by (metis unat_ucast_u32 word_unat_eq_iff)
  then show "x = a + ucast i" by (simp add: diff_eq_eq add.commute)
qed simp

lemma memset_loop_eq:
  assumes "unat n \<le> 2 ^ 31"
  shows "memset_loop m a c n i =
    (\<lambda>x. if unat i \<le> unat (x - a) \<and> unat (x - a) < unat n then c else m x)"
  using assms
proof (induction m a c n i rule: memset_loop.induct)
  case (1 m a c n i)
  show ?case
  proof (cases "i < n")
    case True
    then have i: "unat i < unat n" "unat (i + 1) = Suc (unat i)"
      by (simp_all add: word_less_nat_alt unat_inc)
    then have sx: "sext64 i = ucast i" using "1.prems" by (intro sext64_nonneg) simp
    have "memset_loop m a c n i = memset_loop (m(a + sext64 i := c)) a c n (i + 1)"
      using True by (simp add: memset_loop.simps[of m a c n i])
    also have "\<dots> = (\<lambda>x. if unat (i + 1) \<le> unat (x - a) \<and> unat (x - a) < unat n then c
        else (m(a + sext64 i := c)) x)"
      by (rule "1.IH"[OF True "1.prems"])
    also have "\<dots> = (\<lambda>x. if unat i \<le> unat (x - a) \<and> unat (x - a) < unat n then c else m x)"
      using i unfolding sx by (auto simp: fun_eq_iff diff_eq_ucast_iff)
    finally show ?thesis .
  next
    case False
    then show ?thesis
      by (auto simp: memset_loop.simps[of m a c n i] fun_eq_iff word_less_nat_alt)
  qed
qed

lemma memset_eq:
  assumes "unat n \<le> 2 ^ 31"
  shows "memset m a c n = (\<lambda>x. if x \<in> region a (unat n) then ucast c else m x)"
  unfolding memset_def memset_loop_eq[OF assms] by (simp add: in_region_iff)

lemma memcpy_loop_eq:
  assumes "unat n \<le> 2 ^ 31" and "region dst (unat n) \<inter> region src (unat n) = {}"
  shows "memcpy_loop m dst src n i =
    (\<lambda>x. if unat i \<le> unat (x - dst) \<and> unat (x - dst) < unat n then m (src + (x - dst)) else m x)"
  using assms
proof (induction m dst src n i rule: memcpy_loop.induct)
  case (1 m dst src n i)
  show ?case
  proof (cases "i < n")
    case True
    then have i: "unat i < unat n" "unat (i + 1) = Suc (unat i)"
      by (simp_all add: word_less_nat_alt unat_inc)
    then have sx: "sext64 i = ucast i" using "1.prems" by (intro sext64_nonneg) simp
    have ne: "src + (x - dst) \<noteq> dst + ucast i" if "unat (x - dst) < unat n" for x
    proof
      assume eq: "src + (x - dst) = dst + ucast i"
      have "src + (x - dst) \<in> region src (unat n)" using that by (simp add: in_region_iff)
      moreover have "dst + ucast i \<in> region dst (unat n)" using i by (simp add: in_region_iff)
      ultimately show False using "1.prems"(2) eq by auto
    qed
    have "memcpy_loop m dst src n i =
        memcpy_loop (m(dst + sext64 i := m (src + sext64 i))) dst src n (i + 1)"
      using True by (simp add: memcpy_loop.simps[of m dst src n i])
    also have "\<dots> = (\<lambda>x. if unat (i + 1) \<le> unat (x - dst) \<and> unat (x - dst) < unat n
        then (m(dst + sext64 i := m (src + sext64 i))) (src + (x - dst))
        else (m(dst + sext64 i := m (src + sext64 i))) x)"
      by (rule "1.IH"[OF True "1.prems"])
    also have "\<dots> = (\<lambda>x. if unat i \<le> unat (x - dst) \<and> unat (x - dst) < unat n
        then m (src + (x - dst)) else m x)"
      using i ne unfolding sx by (auto simp: fun_eq_iff diff_eq_ucast_iff)
        (metis add_diff_cancel_left' diff_eq_ucast_iff)
    finally show ?thesis .
  next
    case False
    then show ?thesis
      by (auto simp: memcpy_loop.simps[of m dst src n i] fun_eq_iff word_less_nat_alt)
  qed
qed

lemma memcpy_eq:
  assumes "unat n \<le> 2 ^ 31" and "region dst (unat n) \<inter> region src (unat n) = {}"
  shows "memcpy m dst src n = (\<lambda>x. if x \<in> region dst (unat n) then m (src + (x - dst)) else m x)"
  unfolding memcpy_def memcpy_loop_eq[OF assms] by (simp add: in_region_iff)

section \<open>C strings\<close>

text \<open>Memory with the bytes \<open>xs\<close> placed at \<open>a\<close>.\<close>

definition put :: "bytes \<Rightarrow> u64 \<Rightarrow> u8 list \<Rightarrow> bytes" where
  "put m a xs = (\<lambda>x. if unat (x - a) < length xs then xs ! unat (x - a) else m x)"

lemma put_Nil [simp]: "put m a [] = m"
  by (simp add: put_def)

lemma unat_diff_Suc: "x \<noteq> a \<Longrightarrow> unat (x - a) = Suc (unat (x - (a + 1)))" for x a :: u64
proof -
  assume "x \<noteq> a"
  then have ne: "x - a \<noteq> 0" by simp
  then have "1 + (x - a - 1) \<noteq> 0" by simp
  then have "unat (1 + (x - a - 1)) = Suc (unat (x - a - 1))" by (rule unatSuc)
  then show ?thesis by (simp add: diff_diff_eq)
qed

lemma put_Cons: "length xs < 2 ^ 64 \<Longrightarrow> put m a (x # xs) = put (m(a := x)) (a + 1) xs"
proof (rule ext)
  fix y assume len: "length xs < 2 ^ 64"
  show "put m a (x # xs) y = put (m(a := x)) (a + 1) xs y"
  proof (cases "y = a")
    case True
    have "unat (a - (a + 1)) = 2 ^ 64 - 1" by (simp add: unsigned_minus_1_eq_mask mask_eq_exp_minus_1)
    then show ?thesis using True len by (simp add: put_def)
  next
    case False
    then show ?thesis by (simp add: put_def unat_diff_Suc[OF False])
  qed
qed

lemma put_outside: "x \<notin> region a (length xs) \<Longrightarrow> put m a xs x = m x"
  by (simp add: put_def in_region_iff)

lemma put_inside: "k < length xs \<Longrightarrow> k < 2 ^ 64 \<Longrightarrow> put m a xs (a + of_nat k) = xs ! k"
  by (simp add: put_def unat_of_nat)

lemma region_Suc: "Suc n \<le> 2 ^ 64 \<Longrightarrow> region a (Suc n) = insert a (region (a + 1) n)"
proof (rule set_eqI)
  fix x assume "Suc n \<le> 2 ^ 64"
  then show "x \<in> region a (Suc n) \<longleftrightarrow> x \<in> insert a (region (a + 1) n)"
    by (cases "x = a") (simp_all add: in_region_iff unat_diff_Suc)
qed

lemma region_0 [simp]: "region a 0 = {}"
  by (simp add: region_def)

lemma is_cstr_Nil [simp]: "is_cstr m a [] \<longleftrightarrow> m a = 0"
  by (simp add: is_cstr_def)

lemma is_cstr_Cons: "is_cstr m a (x # xs) \<longleftrightarrow> m a = x \<and> x \<noteq> 0 \<and> is_cstr m (a + 1) xs"
proof -
  have "(\<forall>k < Suc (length xs). m (a + of_nat k) = (x # xs) ! k) \<longleftrightarrow>
      m a = x \<and> (\<forall>k < length xs. m (a + 1 + of_nat k) = xs ! k)"
    by (simp add: All_less_Suc2 add.assoc add.commute[of 1])
  then show ?thesis by (auto simp: is_cstr_def add.assoc add.commute[of 1])
qed

lemma is_cstr_unique: "is_cstr m a xs \<Longrightarrow> is_cstr m a ys \<Longrightarrow> xs = ys"
proof (induction xs arbitrary: a ys)
  case Nil
  then show ?case by (cases ys) (auto simp: is_cstr_Cons)
next
  case (Cons x xs)
  then show ?case by (cases ys) (auto simp: is_cstr_Cons)
qed

lemma is_cstr_cong:
  "is_cstr m a xs \<Longrightarrow> length xs < 2 ^ 64 \<Longrightarrow>
   (\<And>x. x \<in> region a (Suc (length xs)) \<Longrightarrow> m' x = m x) \<Longrightarrow> is_cstr m' a xs"
  unfolding is_cstr_def by (simp add: region_of_nat)

lemma is_cstr_upd:
  "is_cstr m a xs \<Longrightarrow> length xs < 2 ^ 64 \<Longrightarrow> d \<notin> region a (Suc (length xs)) \<Longrightarrow>
   is_cstr (m(d := v)) a xs"
  by (erule is_cstr_cong) auto

lemma is_cstr_put:
  assumes "0 \<notin> set xs" and "length xs < 2 ^ 64"
  shows "is_cstr (put m a (xs @ [0])) a xs"
  using assms unfolding is_cstr_def by (auto simp: put_inside nth_append)

lemma strlen_loop_bound: "i \<le> STR_MAXLEN \<Longrightarrow> strlen_loop m s i \<le> STR_MAXLEN"
  by (induction m s i rule: strlen_loop.induct) (subst strlen_loop.simps, auto)

lemma strlen_loop_cstr:
  assumes "is_cstr m (s + of_nat i) xs" and "i + length xs < STR_MAXLEN"
  shows "strlen_loop m s i = i + length xs"
  using assms
proof (induction xs arbitrary: i)
  case Nil
  then show ?case by (simp add: strlen_loop.simps[of m s i])
next
  case (Cons x xs)
  then have "is_cstr m (s + of_nat (Suc i)) xs" and "m (s + of_nat i) \<noteq> 0"
    by (auto simp: is_cstr_Cons add.assoc add.commute[of 1])
  with Cons show ?case by (simp add: strlen_loop.simps[of m s i])
qed

lemma strlen_cstr: "is_cstr m s xs \<Longrightarrow> length xs < STR_MAXLEN \<Longrightarrow> strlen m s = of_nat (length xs)"
  using strlen_loop_cstr[of m s 0 xs] by (simp add: strlen_def)

lemma disjoint_tail:
  assumes "region d (Suc (Suc n)) \<inter> region s (Suc (Suc n)) = {}" and "Suc (Suc n) \<le> 2 ^ 64"
  shows "d \<notin> region (s + 1) (Suc n)" and "region (d + 1) (Suc n) \<inter> region (s + 1) (Suc n) = {}"
  using assms by (auto simp: region_Suc[of "Suc n"])

lemma strcpy_cstr:
  assumes "is_cstr m src xs" and "Suc (length xs) < 2 ^ 64"
    and "region dst (Suc (length xs)) \<inter> region src (Suc (length xs)) = {}"
  shows "strcpy m dst src = Some (put m dst (xs @ [0]))"
  using assms
proof (induction xs arbitrary: m dst src)
  case Nil
  then show ?case by (simp add: strcpy.simps[of m dst src] put_Cons fun_upd_def)
next
  case (Cons x xs)
  have le: "Suc (Suc (length xs)) \<le> 2 ^ 64" using Cons.prems(2) by simp
  note dj = disjoint_tail[OF Cons.prems(3)[unfolded length_Cons] le]
  have x: "m src = x" "x \<noteq> 0" "is_cstr m (src + 1) xs" and len: "Suc (length xs) < 2 ^ 64"
    using Cons.prems by (simp_all add: is_cstr_Cons)
  have "is_cstr (m(dst := x)) (src + 1) xs"
    using x(3) len dj(1) by (intro is_cstr_upd) simp_all
  from Cons.IH[OF this len dj(2)] x len show ?case
    by (simp add: strcpy.simps[of m dst src] put_Cons fun_upd_def)
qed

lemma strncpy_loop_cstr:
  assumes "is_cstr m src xs" and "Suc (length xs) < 2 ^ 64" and "i \<le> n"
    and "region dst (Suc (length xs)) \<inter> region src (Suc (length xs)) = {}"
  shows "strncpy_loop m dst src n i = put m dst (take (nat (n - i)) xs @ [0])"
  using assms
proof (induction xs arbitrary: m dst src i)
  case Nil
  then show ?case by (simp add: strncpy_loop.simps[of m dst src] put_Cons fun_upd_def)
next
  case (Cons x xs)
  show ?case
  proof (cases "i < n")
    case True
    have le: "Suc (Suc (length xs)) \<le> 2 ^ 64" using Cons.prems(2) by simp
    note dj = disjoint_tail[OF Cons.prems(4)[unfolded length_Cons] le]
    have x: "m src = x" "x \<noteq> 0" "is_cstr m (src + 1) xs" and len: "Suc (length xs) < 2 ^ 64"
      using Cons.prems by (simp_all add: is_cstr_Cons)
    have "is_cstr (m(dst := x)) (src + 1) xs"
      using x(3) len dj(1) by (intro is_cstr_upd) simp_all
    note IH = Cons.IH[OF this len _ dj(2), of "i + 1"]
    have "nat (n - i) = Suc (nat (n - (i + 1)))" using True by simp
    then show ?thesis using IH x len True
      by (simp add: strncpy_loop.simps[of m dst src] put_Cons fun_upd_def)
  next
    case False
    then show ?thesis by (simp add: strncpy_loop.simps[of m dst src] put_Cons fun_upd_def)
  qed
qed

lemma strcmp_loop_cstr:
  assumes "is_cstr m (s1 + ucast i) xs" and "is_cstr m (s2 + ucast i) ys" and "unat n \<le> 2 ^ 31"
  shows "strcmp_loop m s1 s2 n i =
    (if take (unat n - unat i) xs = take (unat n - unat i) ys then 0 else 1)"
  using assms
proof (induction xs arbitrary: i ys)
  case Nil
  show ?case
  proof (cases "i < n")
    case True
    then have "unat i < unat n" by (simp add: word_less_nat_alt)
    moreover from this have "sext64 i = ucast i" using Nil by (intro sext64_nonneg) simp
    ultimately show ?thesis using Nil True
      by (cases ys) (auto simp: strcmp_loop.simps[of m s1 s2 n i] is_cstr_Cons take_Cons split: nat.splits)
  qed (simp add: strcmp_loop.simps[of m s1 s2 n i] word_less_nat_alt)
next
  case (Cons x xs)
  show ?case
  proof (cases "i < n")
    case True
    then have i: "unat n - unat i = Suc (unat n - unat (i + 1))"
      using unat_inc[OF True] by (simp add: word_less_nat_alt)
    have "unat i < 2 ^ 31" using True Cons.prems(3) by (simp add: word_less_nat_alt)
    then have sx: "sext64 i = ucast i" by (rule sext64_nonneg)
    note ui = ucast_inc[OF True]
    show ?thesis
    proof (cases ys)
      case Nil
      then show ?thesis using Cons.prems True i sx
        by (auto simp: strcmp_loop.simps[of m s1 s2 n i] is_cstr_Cons)
    next
      case ys: (Cons y ys')
      have "is_cstr m (s1 + ucast (i + 1)) xs" "is_cstr m (s2 + ucast (i + 1)) ys'"
        using Cons.prems ys by (auto simp: is_cstr_Cons ui add.assoc)
      from Cons.IH[OF this Cons.prems(3)] show ?thesis
        using Cons.prems True i sx ys
        by (auto simp: strcmp_loop.simps[of m s1 s2 n i] is_cstr_Cons)
    qed
  qed (simp add: strcmp_loop.simps[of m s1 s2 n i] word_less_nat_alt)
qed

lemma strcat_loop_cstr:
  assumes "is_cstr m (src + ucast i) ys" and "unat dl + unat i + length ys < 2 ^ 32"
    and "region (dest + ucast (dl + i)) (Suc (length ys)) \<inter>
      region (src + ucast i) (Suc (length ys)) = {}"
  shows "strcat_loop m dest dl src i = Some (put m (dest + ucast (dl + i)) (ys @ [0]))"
  using assms
proof (induction ys arbitrary: m i)
  case Nil
  then show ?case by (simp add: strcat_loop.simps[of m dest dl src i] put_Cons fun_upd_def)
next
  case (Cons y ys)
  have len: "Suc (length ys) < 2 ^ 64" using Cons.prems(2) by simp
  then have le: "Suc (Suc (length ys)) \<le> 2 ^ 64" by simp
  note dj = disjoint_tail[OF Cons.prems(3)[unfolded length_Cons] le]
  have max: "unat (- 1 :: u32) = 2 ^ 32 - 1"
    by (simp add: unsigned_minus_1_eq_mask mask_eq_exp_minus_1)
  have "unat (dl + i) = unat dl + unat i"
    using Cons.prems(2) by (simp add: unat_word_ariths)
  then have "i < - 1" "dl + i < - 1"
    using Cons.prems(2) max by (simp_all add: word_less_nat_alt)
  note ui = ucast_inc[OF this(1)] ucast_inc[OF this(2)] unat_inc[OF this(1)]
  have y: "m (src + ucast i) = y" "y \<noteq> 0" "is_cstr m (src + ucast i + 1) ys"
    using Cons.prems by (simp_all add: is_cstr_Cons)
  have "is_cstr (m(dest + ucast (dl + i) := y)) (src + ucast (i + 1)) ys"
    using y(3) len dj(1) by (subst ui(1), subst add.assoc[symmetric], intro is_cstr_upd) simp_all
  from Cons.IH[OF this] have
    "strcat_loop (m(dest + ucast (dl + i) := y)) dest dl src (i + 1) =
     Some (put (m(dest + ucast (dl + i) := y)) (dest + ucast (dl + i) + 1) (ys @ [0]))"
    using Cons.prems(2) dj(2) ui by (simp add: add.assoc fun_upd_def)
  then show ?case using y len
    by (simp add: strcat_loop.simps[of m dest dl src i] put_Cons fun_upd_def)
qed

section \<open>Properties\<close>

lemma put_behind:
  assumes "k < n" and "n + length ys < 2 ^ 64"
  shows "put m (dest + of_nat n) ys (dest + of_nat k) = m (dest + of_nat k)"
proof (rule put_outside, rule)
  define j where "j = unat (dest + of_nat k - (dest + of_nat n))"
  assume "dest + of_nat k \<in> region (dest + of_nat n) (length ys)"
  then have j: "j < length ys" by (simp add: in_region_iff j_def)
  have "of_nat j = dest + of_nat k - (dest + of_nat n)" by (simp add: j_def)
  then have "of_nat k = (of_nat (n + j) :: u64)" by (simp add: algebra_simps)
  then have "unat (of_nat k :: u64) = unat (of_nat (n + j) :: u64)" by simp
  moreover have "n + j < 2 ^ 64" using j assms by simp
  ultimately show False using assms by (simp add: unat_of_nat del: of_nat_add)
qed

lemma is_cstr_append:
  assumes "is_cstr m dest xs" and "0 \<notin> set ys" and len: "length xs + Suc (length ys) < 2 ^ 64"
  shows "is_cstr (put m (dest + of_nat (length xs)) (ys @ [0])) dest (xs @ ys)"
proof -
  let ?d = "dest + of_nat (length xs)"
  let ?m = "put m ?d (ys @ [0])"
  have high: "?m (?d + of_nat j) = (ys @ [0]) ! j" if "j \<le> length ys" for j
    using that len by (intro put_inside) simp_all
  have "?m (dest + of_nat k) = (xs @ ys) ! k" if "k < length (xs @ ys)" for k
  proof (cases "k < length xs")
    case True
    then show ?thesis using assms(1) len put_behind[of k "length xs" "ys @ [0]" m dest]
      by (simp add: is_cstr_def nth_append)
  next
    case False
    then have "k = length xs + (k - length xs)" by simp
    then have "dest + of_nat k = ?d + of_nat (k - length xs)" by (metis add.assoc of_nat_add)
    moreover have "k - length xs < length ys" using False that by auto
    ultimately show ?thesis using high[of "k - length xs"] False by (simp add: nth_append)
  qed
  moreover have "?m (dest + of_nat (length (xs @ ys))) = 0"
    using high[of "length ys"] by (simp add: add.assoc)
  ultimately show ?thesis using assms(1,2) by (auto simp: is_cstr_def)
qed

text \<open>
  C32: \<^verbatim>\<open>strcat(dest, src)\<close> returns, and leaves at \<open>dest\<close> the concatenation of the two strings,
  provided the destination is shorter than \<^verbatim>\<open>STR_MAXLEN\<close> and the bytes it writes do not
  overlap the source; no byte outside the appended part changes.
\<close>
theorem strcat_concat:
  assumes "is_cstr m dest xs" and "is_cstr m src ys"
    and "length xs < STR_MAXLEN" and "length ys < 2 ^ 31"
    and "region (dest + of_nat (length xs)) (Suc (length ys)) \<inter> region src (Suc (length ys)) = {}"
  shows "\<exists>m'. strcat m dest src = Some m' \<and> is_cstr m' dest (xs @ ys) \<and>
    (\<forall>x. x \<notin> region (dest + of_nat (length xs)) (Suc (length ys)) \<longrightarrow> m' x = m x)"
proof -
  let ?d = "dest + of_nat (length xs)"
  let ?m = "put m ?d (ys @ [0])"
  have lx: "length xs < 4096" using assms(3) by (simp add: STR_MAXLEN_def)
  have dl: "strlen m dest = of_nat (length xs)" using assms(1,3) by (rule strlen_cstr)
  have u: "unat (of_nat (length xs) :: u32) = length xs" using lx by (simp add: unat_of_nat)
  have c: "ucast (of_nat (length xs) :: u32) = (of_nat (length xs) :: u64)"
    using lx by (simp add: word_unat_eq_iff u unat_of_nat)
  have "strcat m dest src = Some ?m"
    using strcat_loop_cstr[of m src 0 ys "of_nat (length xs)" dest] assms lx
    by (simp add: strcat_def dl u c)
  moreover have out: "?m x = m x" if "x \<notin> region ?d (Suc (length ys))" for x
    using that put_outside[of x ?d "ys @ [0]" m] by simp
  moreover have "is_cstr ?m dest (xs @ ys)"
    using assms lx by (intro is_cstr_append) (simp_all add: is_cstr_def)
  ultimately show ?thesis by blast
qed

theorem strcat_concat_witness:
  "\<exists>m'. strcat ((\<lambda>_. 0)(100 := 97, 200 := 98)) 100 200 = Some m' \<and> is_cstr m' 100 [97, 98]"
  using strcat_concat[of "(\<lambda>_. 0)(100 := 97, 200 := 98)" 100 "[97]" 200 "[98]"]
  by (auto simp: is_cstr_Cons region_Suc STR_MAXLEN_def)

text \<open>
  \<^verbatim>\<open>strcmp(s1, s2, n)\<close> returns 0 exactly when the two strings have the same first \<open>n\<close>
  bytes (or are equal), and 1 otherwise: it decides equality and gives no order.
\<close>
lemma strcmp_decides_prefix:
  assumes "is_cstr m s1 xs" and "is_cstr m s2 ys" and "unat n \<le> 2 ^ 31"
  shows "strcmp m s1 s2 n = (if take (unat n) xs = take (unat n) ys then 0 else 1)"
  using strcmp_loop_cstr[of m s1 0 xs s2 ys n] assms by (simp add: strcmp_def)

text \<open>
  C33: \<^verbatim>\<open>strncpy(dst, src, n)\<close> stores the first \<open>n\<close> bytes of the source string and then a NUL;
  when the source has \<open>n\<close> bytes or more the NUL is stored at \<open>dst + n\<close>, one byte past a buffer
  of \<open>n\<close> bytes.
\<close>
theorem strncpy_writes_past_n:
  assumes "is_cstr m src xs" and "Suc (length xs) < 2 ^ 64" and "0 \<le> sint n"
    and "region dst (Suc (length xs)) \<inter> region src (Suc (length xs)) = {}"
  shows "strncpy m dst src n = put m dst (take (nat (sint n)) xs @ [0]) \<and>
    (nat (sint n) \<le> length xs \<longrightarrow> strncpy m dst src n (dst + of_nat (nat (sint n))) = 0)"
proof -
  have eq: "strncpy m dst src n = put m dst (take (nat (sint n)) xs @ [0])"
    using strncpy_loop_cstr[of m src xs 0 "sint n" dst] assms by (simp add: strncpy_def)
  have "put m dst (take k xs @ [0]) (dst + of_nat k) = 0" if "k \<le> length xs" for k
    using that assms(2) put_inside[of k "take k xs @ [0]" m dst] by (simp add: nth_append)
  then show ?thesis by (simp add: eq)
qed

theorem strncpy_writes_past_n_witness:
  "strncpy ((\<lambda>_. 7)(200 := 97, 201 := 98, 202 := 0)) 100 200 2 102 = 0"
  using strncpy_writes_past_n[of "(\<lambda>_. 7)(200 := 97, 201 := 98, 202 := 0)" 200 "[97, 98]" 2 100]
  by (simp add: is_cstr_Cons region_Suc put_def)

end
