(* ===== verification/Errno.thy ===== *)
theory Errno
  imports UkPrelude
begin

text \<open>
  The error numbers of \<^verbatim>\<open>lib/errno.h\<close> that the sources use, and the message table of
  \<^verbatim>\<open>lib/errno.c\<close>, indexed by error number.
\<close>

definition EAGAIN :: int where "EAGAIN = 6"
definition EBADF :: int where "EBADF = 8"
definition EBUSY :: int where "EBUSY = 10"
definition ECHILD :: int where "ECHILD = 12"
definition EFAULT :: int where "EFAULT = 21"
definition EINVAL :: int where "EINVAL = 28"
definition EIO :: int where "EIO = 29"
definition EISDIR :: int where "EISDIR = 31"
definition EMFILE :: int where "EMFILE = 33"
definition ENAMETOOLONG :: int where "ENAMETOOLONG = 37"
definition ENOENT :: int where "ENOENT = 45"
definition ENOEXEC :: int where "ENOEXEC = 46"
definition ENOMEM :: int where "ENOMEM = 49"
definition ENOTDIR :: int where "ENOTDIR = 57"
definition EPERM :: int where "EPERM = 67"
definition EMAX :: int where "EMAX = 81"

definition error_msg :: "string list" where
  "error_msg = [''Wrong errno.'',
    ''Argument list too long.'',
    ''Permission denied.'',
    ''Address in use.'',
    ''Address not available.'',
    ''Address family not supported.'',
    ''Resource unavailable, try again (may be the same value as [EWOULDBLOCK]).'',
    ''Connection already in progress.'',
    ''Bad file descriptor.'',
    ''Bad message.'',
    ''Device or resource busy.'',
    ''Operation canceled.'',
    ''No child processes.'',
    ''Connection aborted.'',
    ''Connection refused.'',
    ''Connection reset.'',
    ''Resource deadlock would occur.'',
    ''Destination address required.'',
    ''Mathematics argument out of domain of function.'',
    ''Reserved.'',
    ''File exists.'',
    ''Bad address.'',
    ''File too large.'',
    ''Host is unreachable.'',
    ''Identifier removed.'',
    ''Illegal byte sequence.'',
    ''Operation in progress.'',
    ''Interrupted function.'',
    ''Invalid argument.'',
    ''I/O error.'',
    ''Socket is connected.'',
    ''Is a directory.'',
    ''Too many levels of symbolic links.'',
    ''File descriptor value too large.'',
    ''Too many links.'',
    ''Message too large.'',
    ''Reserved.'',
    ''Filename too long.'',
    ''Network is down.'',
    ''Connection aborted by network.'',
    ''Network unreachable.'',
    ''Too many files open in system.'',
    ''No buffer space available.'',
    ''[OB XSR] [Option Start] No message is available on the STREAM head read queue. [Option End]'',
    ''No such device.'',
    ''No such file or directory.'',
    ''Executable file format error.'',
    ''No locks available.'',
    ''Reserved.'',
    ''Not enough space.'',
    ''No message of the desired type.'',
    ''Protocol not available.'',
    ''No space left on device.'',
    ''[OB XSR] [Option Start] No STREAM resources. [Option End]'',
    ''[OB XSR] [Option Start] Not a STREAM. [Option End]'',
    ''Functionality not supported.'',
    ''The socket is not connected.'',
    ''Not a directory or a symbolic link to a directory.'',
    ''Directory not empty.'',
    ''State not recoverable.'',
    ''Not a socket.'',
    ''Not supported (may be the same value as [EOPNOTSUPP]).'',
    ''Inappropriate I/O control operation.'',
    ''No such device or address.'',
    ''Operation not supported on socket (may be the same value as [ENOTSUP]).'',
    ''Value too large to be stored in data type.'',
    ''Previous owner died.'',
    ''Operation not permitted.'',
    ''Broken pipe.'',
    ''Protocol error.'',
    ''Protocol not supported.'',
    ''Protocol wrong type for socket.'',
    ''Result too large.'',
    ''Read-only file system.'',
    ''Invalid seek.'',
    ''No such process.'',
    ''Reserved.'',
    ''[OB XSR] [Option Start] Stream ioctl() timeout. [Option End]'',
    ''Connection timed out.'',
    ''Text file busy.'',
    ''Cross-device link. '']"

lemmas errno_defs = EAGAIN_def EBADF_def EBUSY_def ECHILD_def EFAULT_def EINVAL_def EIO_def EISDIR_def EMFILE_def ENAMETOOLONG_def ENOENT_def ENOEXEC_def ENOMEM_def ENOTDIR_def EPERM_def EMAX_def

lemma error_msg_covers: "length error_msg = nat EMAX"
  by (simp add: error_msg_def EMAX_def)

end
