(* ===== verification/Mem.thy ===== *)
theory Mem
  imports Str "HOL-Library.Multiset"
begin

text \<open>
  The physical page allocator of \<^verbatim>\<open>kernel/mem.c\<close> and the address macros of \<^verbatim>\<open>kernel/mem.h\<close>.

  State.  Physical memory is a byte memory; the kernel reaches it through the direct map
  \<^verbatim>\<open>P2K(paddr)\<close>, so an access through a kernel pointer \<open>ka\<close> of the direct map is an access at
  \<open>K2P ka\<close>.  The array \<^verbatim>\<open>k_pageinfo\<close> of \<^verbatim>\<open>struct page_info\<close> is a typed heap indexed by the
  pointers the code computes (\<^verbatim>\<open>PA2PGINFO\<close>, \<^verbatim>\<open>KA2PGINFO\<close>).  The union of \<^verbatim>\<open>ref\<close> and \<^verbatim>\<open>next\<close>
  is one 64-bit word, read as a signed count or as a pointer.

  Lemmas.  The free list is a path through the \<^verbatim>\<open>next\<close> words (\<open>free_list\<close>); \<^verbatim>\<open>alloc_page\<close> pops
  it, \<^verbatim>\<open>free_page\<close> pushes; the two are an instance of the locale \<open>page_allocator\<close>.
\<close>

section \<open>Address macros\<close>

definition PGSIZE :: u64 where "PGSIZE = 4096"
definition PGSHIFT :: nat where "PGSHIFT = 12"

definition MASK :: "nat \<Rightarrow> u64" where
  "MASK x = push_bit x 1 - 1"

definition PGMASK :: u64 where "PGMASK = MASK PGSHIFT"

definition PTE_P :: u64 where "PTE_P = 0x1"
definition PTE_W :: u64 where "PTE_W = 0x2"
definition PTE_U :: u64 where "PTE_U = 0x4"
definition PTE_FLAGS :: u64 where "PTE_FLAGS = 0x7"
definition PTE_PWT :: u64 where "PTE_PWT = 0x8"
definition PTE_PCD :: u64 where "PTE_PCD = 0x10"
definition PDPTE_PS :: u64 where "PDPTE_PS = 0x80"

definition PML4_OFFSET :: nat where "PML4_OFFSET = 39"
definition PDPT_OFFSET :: nat where "PDPT_OFFSET = 30"
definition PD_OFFSET :: nat where "PD_OFFSET = 21"
definition PT_OFFSET :: nat where "PT_OFFSET = 12"

definition KERNBASE :: u64 where "KERNBASE = 0xFFFF800000000000"
definition USTACK :: u64 where "USTACK = 0x00007FFFFFFFF000"
definition UMAX :: u64 where "UMAX = 0x00007FFF00000000"
definition KSTACK :: u64 where "KSTACK = 0xFFFFFFFFFFFFF000"
definition UARGS :: u64 where "UARGS = 0x3FF000"
definition EXEC_IMG :: u64 where "EXEC_IMG = 0xFFFF900000000000"
definition KMMIO :: u64 where "KMMIO = 0xFFFFA00000000000"
definition KDISK :: u64 where "KDISK = 0xFFFFC00000000000"

definition PAGEADDR :: "u64 \<Rightarrow> u64" where
  "PAGEADDR x = x AND NOT PGMASK"

definition PAGEKADDR :: "u64 \<Rightarrow> u64" where
  "PAGEKADDR x = PAGEADDR x OR KERNBASE"

definition PML4_INDEX :: "u64 \<Rightarrow> u64" where
  "PML4_INDEX x = drop_bit PML4_OFFSET x AND 511"

definition PDPT_INDEX :: "u64 \<Rightarrow> u64" where
  "PDPT_INDEX x = drop_bit PDPT_OFFSET x AND 511"

definition PD_INDEX :: "u64 \<Rightarrow> u64" where
  "PD_INDEX x = drop_bit PD_OFFSET x AND 511"

definition PT_INDEX :: "u64 \<Rightarrow> u64" where
  "PT_INDEX x = drop_bit PT_OFFSET x AND 511"

definition ROUNDDOWN :: "u64 \<Rightarrow> u64 \<Rightarrow> u64" where
  "ROUNDDOWN x blk_size = x div blk_size * blk_size"

definition ROUNDUP :: "u64 \<Rightarrow> u64 \<Rightarrow> u64" where
  "ROUNDUP x blk_size = (x + blk_size - 1) div blk_size * blk_size"

definition K2P :: "u64 \<Rightarrow> u64" where
  "K2P x = x AND MASK 47"

definition P2K :: "u64 \<Rightarrow> u64" where
  "P2K x = x OR KERNBASE"

definition FLAG_ZERO :: u64 where "FLAG_ZERO = 0x1"

section \<open>Allocator state\<close>

text \<open>\<^verbatim>\<open>ref_next\<close> is the union: \<open>ref\<close> reads it as \<^verbatim>\<open>i64\<close>, \<open>next\<close> as a pointer.\<close>

record page_info =
  paddr :: u64
  ref_next :: u64

definition ref :: "page_info \<Rightarrow> int" where
  "ref p = sint (ref_next p)"

record kmem =
  pmem :: bytes
  cr3 :: u64
  end_kmem :: u64
  k_pageinfo :: u64
  page_infos :: "u64 \<Rightarrow> page_info"
  freepages :: u64
  nfreepages :: u64
  max_addr :: u64
  k_pgtbl :: u64
  k_pdpt :: u64

definition PA2PGINFO :: "'a kmem_scheme \<Rightarrow> u64 \<Rightarrow> u64" where
  "PA2PGINFO s x = k_pageinfo s + 16 * drop_bit 12 x"

definition KA2PGINFO :: "'a kmem_scheme \<Rightarrow> u64 \<Rightarrow> u64" where
  "KA2PGINFO s x = k_pageinfo s + 16 * drop_bit 12 (K2P x)"

text \<open>
  The hardware's four-level walk for a supervisor access (the kernel clears CR0.WP and
  CR4.SMAP, so a present entry is enough): the physical address a canonical address maps to.
\<close>

definition PHYS_MASK :: u64 where "PHYS_MASK = 0x000FFFFFFFFFF000"

definition canonical :: "u64 \<Rightarrow> bool" where
  "canonical va \<longleftrightarrow> va AND KERNBASE = 0 \<or> va AND KERNBASE = KERNBASE"

definition mmu_entry :: "bytes \<Rightarrow> u64 \<Rightarrow> u64 \<Rightarrow> u64 option" where
  "mmu_entry m base i =
     (let e = load64 m ((base AND PHYS_MASK) + 8 * i) in if e AND PTE_P = 0 then None else Some e)"

definition translate :: "bytes \<Rightarrow> u64 \<Rightarrow> u64 \<Rightarrow> u64 option" where
  "translate m c va =
     (if \<not> canonical va then None
      else do {
        e4 \<leftarrow> mmu_entry m c (PML4_INDEX va);
        e3 \<leftarrow> mmu_entry m e4 (PDPT_INDEX va);
        if e3 AND PDPTE_PS \<noteq> 0 then Some ((e3 AND PHYS_MASK AND NOT (mask 30)) OR (va AND mask 30))
        else do {
          e2 \<leftarrow> mmu_entry m e3 (PD_INDEX va);
          if e2 AND PDPTE_PS \<noteq> 0 then Some ((e2 AND PHYS_MASK AND NOT (mask 21)) OR (va AND mask 21))
          else do {
            e1 \<leftarrow> mmu_entry m e2 (PT_INDEX va);
            Some ((e1 AND PHYS_MASK) OR (va AND mask 12))
          }
        }
      })"

text \<open>A 64-bit load by the kernel through the current page table; \<^term>\<open>None\<close> is a fault inside the kernel.\<close>

definition vload64 :: "'a kmem_scheme \<Rightarrow> u64 \<Rightarrow> u64 option" where
  "vload64 s va = map_option (load64 (pmem s)) (translate (pmem s) (cr3 s) va)"

section \<open>Operations\<close>

definition set_ref_next :: "u64 \<Rightarrow> u64 \<Rightarrow> 'a kmem_scheme \<Rightarrow> 'a kmem_scheme" where
  "set_ref_next p w s =
     s\<lparr>page_infos := (page_infos s)(p := (page_infos s p)\<lparr>ref_next := w\<rparr>)\<rparr>"

text \<open>The field \<^verbatim>\<open>paddr\<close> (offset 0) read through a descriptor pointer that may be NULL.\<close>

definition pi_paddr :: "'a kmem_scheme \<Rightarrow> u64 \<Rightarrow> u64 option" where
  "pi_paddr s p = (if p = 0 then vload64 s 0 else Some (paddr (page_infos s p)))"

text \<open>
  \<^verbatim>\<open>alloc_page\<close>: after unlinking the first free page the code reads \<^verbatim>\<open>freepages->paddr\<close> of the
  \<^emph>\<open>new\<close> head; when there is none, that is a load from address 0 through the current page table.
\<close>

definition alloc_page :: "u64 \<Rightarrow> 'a kmem_scheme \<Rightarrow> (u64 \<times> 'a kmem_scheme) option" where
  "alloc_page flags s =
     (if freepages s = 0 then Some (0, s)
      else let ret = freepages s;
               s = s\<lparr>freepages := ref_next (page_infos s ret)\<rparr>
           in do {
             head_paddr \<leftarrow> pi_paddr s (freepages s);
             if head_paddr > max_addr s then None
             else let s = (if flags AND FLAG_ZERO \<noteq> 0
                           then s\<lparr>pmem := memset (pmem s) (K2P (P2K (paddr (page_infos s ret)))) 0 4096\<rparr>
                           else s);
                      s = set_ref_next ret 1 s
                  in Some (ret, s\<lparr>nfreepages := nfreepages s - 1\<rparr>)
           })"

definition free_page :: "u64 \<Rightarrow> 'a kmem_scheme \<Rightarrow> 'a kmem_scheme option" where
  "free_page page s =
     (if paddr (page_infos s page) < K2P (end_kmem s) then None
      else if paddr (page_infos s page) \<ge> K2P (max_addr s) then None
      else if ref (page_infos s page) \<le> 0 then None
      else let s = set_ref_next page (ref_next (page_infos s page) - 1) s
           in if ref_next (page_infos s page) = 0
              then let s = set_ref_next page (freepages s) s
                   in Some (s\<lparr>freepages := page, nfreepages := nfreepages s + 1\<rparr>)
              else Some s)"

section \<open>The free list\<close>

text \<open>The pointers on the list that starts at \<open>p\<close> and follows the \<^verbatim>\<open>next\<close> words.\<close>

fun fl_path :: "(u64 \<Rightarrow> page_info) \<Rightarrow> u64 \<Rightarrow> u64 list \<Rightarrow> bool" where
  "fl_path h p [] \<longleftrightarrow> p = 0"
| "fl_path h p (q # qs) \<longleftrightarrow> p = q \<and> q \<noteq> 0 \<and> fl_path h (ref_next (h q)) qs"

text \<open>
  A page the allocator may hand out: its descriptor is the array element of its own page-aligned
  address, which lies between the end of the kernel image and \<^verbatim>\<open>max_addr\<close>; the descriptor
  pointer is a kernel address (negative as \<^verbatim>\<open>i64\<close>).
\<close>

definition page_ok :: "'a kmem_scheme \<Rightarrow> u64 \<Rightarrow> bool" where
  "page_ok s p \<longleftrightarrow>
     paddr (page_infos s p) AND mask 12 = 0 \<and> p = PA2PGINFO s (paddr (page_infos s p)) \<and>
     K2P (end_kmem s) \<le> paddr (page_infos s p) \<and> paddr (page_infos s p) < max_addr s \<and> sint p < 0"

definition free_list :: "'a kmem_scheme \<Rightarrow> u64 list \<Rightarrow> bool" where
  "free_list s ps \<longleftrightarrow>
     max_addr s < 2 ^ 47 \<and> fl_path (page_infos s) (freepages s) ps \<and> (\<forall>p \<in> set ps. page_ok s p) \<and>
     nfreepages s = of_nat (length ps)"

text \<open>A page in use: a valid page whose reference count is positive.\<close>

definition page_used :: "'a kmem_scheme \<Rightarrow> u64 \<Rightarrow> bool" where
  "page_used s p \<longleftrightarrow> page_ok s p \<and> 0 < ref (page_infos s p)"

lemma MASK_eq: "n < 64 \<Longrightarrow> MASK n = mask n"
  by (simp add: MASK_def mask_eq_exp_minus_1 push_bit_eq_mult)

lemma PGMASK_eq: "PGMASK = mask 12"
  by (simp add: PGMASK_def PGSHIFT_def MASK_eq)

lemma KERNBASE_eq: "KERNBASE = NOT (mask 47)"
  by (simp add: KERNBASE_def mask_eq_exp_minus_1 word_uint_eq_iff)

lemma K2P_P2K [simp]: "K2P (P2K a) = K2P a"
  by (rule u64_eqI) (auto simp: K2P_def P2K_def MASK_eq KERNBASE_eq bit_simps)

lemma K2P_id: "a < 2 ^ 47 \<Longrightarrow> K2P a = a"
  by (simp add: K2P_def MASK_eq less_mask_eq)

lemma fl_path_unique: "fl_path h p qs \<Longrightarrow> fl_path h p rs \<Longrightarrow> qs = rs"
  by (induction qs arbitrary: p rs) (case_tac rs; auto)+

lemma fl_path_suffix: "fl_path h p (qs @ q # rs) \<Longrightarrow> fl_path h q (q # rs)"
  by (induction qs arbitrary: p) auto

lemma fl_path_distinct: "fl_path h p qs \<Longrightarrow> distinct qs"
proof (induction qs arbitrary: p)
  case (Cons q qs)
  have "q \<notin> set qs"
  proof
    assume "q \<in> set qs"
    then obtain as bs where "qs = as @ q # bs" by (auto simp: in_set_conv_decomp)
    with Cons.prems have "fl_path h q (q # bs)" "fl_path h q (q # qs)"
      using fl_path_suffix[of h p "q # as" q bs] by auto
    from fl_path_unique[OF this] \<open>qs = as @ q # bs\<close> show False by auto
  qed
  with Cons show ?case by auto
qed simp

lemma fl_path_frame: "q \<notin> set qs \<Longrightarrow> fl_path (h(q := x)) p qs = fl_path h p qs"
  by (induction qs arbitrary: p) auto

lemma fl_path_next:
  assumes "fl_path h p qs" and "q \<in> set qs"
  shows "ref_next (h q) = 0 \<or> ref_next (h q) \<in> set qs"
  using assms
proof (induction qs arbitrary: p)
  case (Cons a qs)
  then show ?case by (cases qs) auto
qed simp

lemma free_list_distinct: "free_list s ps \<Longrightarrow> distinct ps"
  by (auto simp: free_list_def dest: fl_path_distinct)

lemma page_ok_nonzero: "page_ok s p \<Longrightarrow> p \<noteq> 0"
  by (auto simp: page_ok_def)

lemma unat_nfreepages:
  assumes "free_list s ps"
  shows "unat (nfreepages s) = length ps"
proof -
  have "length ps = card (set ps)" using assms by (simp add: free_list_distinct distinct_card)
  also have "\<dots> \<le> card (UNIV - {0 :: u64})"
    using assms by (intro card_mono) (auto simp: free_list_def dest: page_ok_nonzero)
  also have "\<dots> = 2 ^ 64 - 1" by (simp add: card_Diff_singleton card_word)
  finally show ?thesis using assms by (simp add: free_list_def unat_of_nat)
qed

text \<open>A page on the free list never looks referenced: its count word is a pointer or NULL.\<close>

lemma free_list_ref:
  assumes "free_list s ps" and "p \<in> set ps"
  shows "ref (page_infos s p) \<le> 0"
  using fl_path_next[of "page_infos s" "freepages s" ps p] assms
  by (force simp: free_list_def ref_def page_ok_def)

lemma page_used_not_free: "free_list s ps \<Longrightarrow> page_used s p \<Longrightarrow> p \<notin> set ps"
  using free_list_ref[of s ps p] by (auto simp: page_used_def)

section \<open>What allocation and release do\<close>

text \<open>The state after the first free page \<open>p\<close> was taken.\<close>

definition taken :: "u64 \<Rightarrow> u64 \<Rightarrow> 'a kmem_scheme \<Rightarrow> 'a kmem_scheme" where
  "taken flags p s =
     s\<lparr>pmem := if flags AND FLAG_ZERO \<noteq> 0
                then (\<lambda>x. if x \<in> region (paddr (page_infos s p)) 4096 then 0 else pmem s x) else pmem s,
       page_infos := (page_infos s)(p := (page_infos s p)\<lparr>ref_next := 1\<rparr>),
       freepages := ref_next (page_infos s p), nfreepages := nfreepages s - 1\<rparr>"

lemma page_ok_paddr: "max_addr s < 2 ^ 47 \<Longrightarrow> page_ok s p \<Longrightarrow> paddr (page_infos s p) < 2 ^ 47"
  by (auto simp: page_ok_def)

lemma memset_page: "memset m a 0 4096 = (\<lambda>x. if x \<in> region a 4096 then 0 else m x)"
  by (subst memset_eq) (simp_all add: fun_eq_iff)

lemma alloc_page_empty: "free_list s [] \<Longrightarrow> alloc_page flags s = Some (0, s)"
  by (simp add: free_list_def alloc_page_def)

lemma alloc_page_head:
  assumes "free_list s (p # ps)"
  shows "alloc_page flags s =
    (case (if ps = [] then vload64 (s\<lparr>freepages := 0\<rparr>) 0 else Some (paddr (page_infos s (hd ps)))) of
       None \<Rightarrow> None
     | Some a \<Rightarrow> if a > max_addr s then None else Some (p, taken flags p s))"
proof -
  have *: "freepages s = p" "p \<noteq> 0" "ref_next (page_infos s p) = (if ps = [] then 0 else hd ps)"
    "ps \<noteq> [] \<Longrightarrow> hd ps \<noteq> 0" and pa: "paddr (page_infos s p) < 2 ^ 47"
    using assms by (cases ps; auto simp: free_list_def page_ok_def)+
  show ?thesis
    using * K2P_id[OF pa]
    by (auto simp: alloc_page_def pi_paddr_def taken_def set_ref_next_def memset_page Let_def split: option.splits)
qed

lemma alloc_page_taken:
  assumes "free_list s (p # q # ps)"
  shows "alloc_page flags s = Some (p, taken flags p s)"
proof -
  have "\<not> max_addr s < paddr (page_infos s q)"
    using assms by (auto simp: free_list_def page_ok_def)
  then show ?thesis by (simp add: alloc_page_head[OF assms])
qed

lemma alloc_page_SomeE:
  assumes "free_list s ps" and "alloc_page flags s = Some (r, s')"
  obtains "ps = []" "r = 0" "s' = s"
  | ps' where "ps = r # ps'" "s' = taken flags r s"
proof (cases ps)
  case Nil
  then show thesis using assms that(1) by (simp add: alloc_page_empty)
next
  case (Cons p ps')
  then have "r = p" "s' = taken flags p s"
    using assms alloc_page_head[of s p ps' flags] by (auto split: if_splits option.splits)
  then show thesis using Cons that(2) by simp
qed

lemma page_ok_taken [simp]: "page_ok (taken flags p s) r = page_ok s r"
  by (simp add: page_ok_def taken_def PA2PGINFO_def)

lemma free_list_taken:
  assumes "free_list s (p # ps)"
  shows "free_list (taken flags p s) ps"
proof -
  have "distinct (p # ps)" using assms by (rule free_list_distinct)
  then have "fl_path ((page_infos s)(p := x)) (ref_next (page_infos s p)) ps" for x
    using assms fl_path_frame[of p ps "page_infos s" x] by (simp add: free_list_def)
  then show ?thesis
    using assms by (simp add: free_list_def) (simp add: taken_def)
qed

definition released :: "u64 \<Rightarrow> 'a kmem_scheme \<Rightarrow> 'a kmem_scheme" where
  "released p s =
     s\<lparr>page_infos := (page_infos s)(p := (page_infos s p)\<lparr>ref_next := freepages s\<rparr>),
       freepages := p, nfreepages := nfreepages s + 1\<rparr>"

lemma sint_word_eq_1: "sint (w :: u64) = 1 \<longleftrightarrow> w = 1"
  using signed_word_eqI[of w 1] by auto

lemma free_page_released:
  assumes "max_addr s < 2 ^ 47" and "page_ok s p" and "ref (page_infos s p) = 1"
  shows "free_page p s = Some (released p s)"
proof -
  have m: "K2P (max_addr s) = max_addr s" using assms(1) by (rule K2P_id)
  have w: "ref_next (page_infos s p) = 1" using assms(3) by (simp add: ref_def sint_word_eq_1)
  have r: "\<not> paddr (page_infos s p) < K2P (end_kmem s)" "\<not> max_addr s \<le> paddr (page_infos s p)"
    using assms(2) by (auto simp: page_ok_def)
  show ?thesis
    using w r m by (simp add: free_page_def released_def set_ref_next_def ref_def)
qed

lemma free_page_shared:
  assumes "max_addr s < 2 ^ 47" and "page_ok s p" and "1 < ref (page_infos s p)"
  shows "free_page p s = Some (set_ref_next p (ref_next (page_infos s p) - 1) s)"
proof -
  have m: "K2P (max_addr s) = max_addr s" using assms(1) by (rule K2P_id)
  have w: "ref_next (page_infos s p) \<noteq> 1" "0 < ref (page_infos s p)"
    using assms(3) by (auto simp: ref_def)
  have r: "\<not> paddr (page_infos s p) < K2P (end_kmem s)" "\<not> max_addr s \<le> paddr (page_infos s p)"
    using assms(2) by (auto simp: page_ok_def)
  show ?thesis
    using w r m by (simp add: free_page_def set_ref_next_def)
qed

lemma free_list_set_ref:
  assumes "free_list s ps" and "p \<notin> set ps"
  shows "free_list (set_ref_next p w s) ps"
  using assms
  by (auto simp: free_list_def set_ref_next_def fl_path_frame page_ok_def PA2PGINFO_def)

lemma sint_dec:
  assumes "0 < sint (w :: u64)"
  shows "sint (w - 1) = sint w - 1"
proof -
  have "w - 1 = word_of_int (sint w - 1)" by simp
  moreover have "sint w < 2 ^ 63" using sint_lt[of w] by simp
  ultimately show ?thesis
    using assms by (simp only: sint_sbintrunc') (simp add: signed_take_bit_int_eq_self)
qed

lemma page_ok_released [simp]: "page_ok (released p s) r = page_ok s r"
  by (simp add: page_ok_def released_def PA2PGINFO_def)

lemma free_list_released:
  assumes "free_list s ps" and "page_ok s p" and "p \<notin> set ps"
  shows "free_list (released p s) (p # ps)"
proof -
  have "fl_path ((page_infos s)(p := x)) (freepages s) ps" for x
    using assms fl_path_frame[of p ps "page_infos s" x "freepages s"] by (simp add: free_list_def)
  then show ?thesis
    using assms page_ok_nonzero[OF assms(2)] by (simp add: free_list_def) (simp add: released_def add.commute)
qed

section \<open>The allocator's contract\<close>

text \<open>
  What clients of the allocator rely on: a pool of free pages that \<open>alloc\<close> pops and \<open>free\<close>
  pushes, where \<open>held s p\<close> says that \<open>p\<close> has exactly one reference.
\<close>

locale page_allocator =
  fixes alloc :: "'s \<Rightarrow> ('p \<times> 's) option" and free :: "'p \<Rightarrow> 's \<Rightarrow> 's option"
    and pool :: "'s \<Rightarrow> 'p list \<Rightarrow> bool" and held :: "'s \<Rightarrow> 'p \<Rightarrow> bool"
  assumes alloc_pops: "pool s (p # q # ps) \<Longrightarrow>
      \<exists>s'. alloc s = Some (p, s') \<and> pool s' (q # ps) \<and> held s' p \<and> (\<forall>r. r \<noteq> p \<longrightarrow> held s' r = held s r)"
    and free_pushes: "pool s ps \<Longrightarrow> held s p \<Longrightarrow>
      \<exists>s'. free p s = Some s' \<and> pool s' (p # ps) \<and> (\<forall>r. r \<noteq> p \<longrightarrow> held s' r = held s r)"
    and pool_distinct: "pool s ps \<Longrightarrow> distinct ps"
begin

lemma free_all:
  "pool s ps \<Longrightarrow> \<forall>p \<in> set qs. held s p \<Longrightarrow> distinct qs \<Longrightarrow>
   \<exists>s'. fold (\<lambda>p r. Option.bind r (free p)) qs (Some s) = Some s' \<and> pool s' (rev qs @ ps)"
proof (induction qs arbitrary: s ps)
  case (Cons q qs)
  from Cons.prems free_pushes[of s ps q] obtain s' where s': "free q s = Some s'" "pool s' (q # ps)"
    "\<forall>r. r \<noteq> q \<longrightarrow> held s' r = held s r" by auto
  then have "\<forall>p \<in> set qs. held s' p" using Cons.prems by auto
  from Cons.IH[OF s'(2) this] Cons.prems s'(1) show ?case by simp
qed simp

lemma alloc_free_restores:
  assumes "pool s (p # q # ps)"
  shows "\<exists>s' s''. alloc s = Some (p, s') \<and> free p s' = Some s'' \<and> pool s'' (p # q # ps)"
  using alloc_pops[OF assms] free_pushes by blast

end

definition page_held :: "'a kmem_scheme \<Rightarrow> u64 \<Rightarrow> bool" where
  "page_held s p \<longleftrightarrow> page_ok s p \<and> ref (page_infos s p) = 1"

lemma page_held_taken [simp]: "page_held (taken flags p s) r \<longleftrightarrow> (if r = p then page_ok s p else page_held s r)"
  by (auto simp: page_held_def) (auto simp: taken_def ref_def)

lemma page_held_released: "r \<noteq> p \<Longrightarrow> page_held (released p s) r = page_held s r"
  by (auto simp: page_held_def) (auto simp: released_def)

lemma page_held_used: "page_held s p \<Longrightarrow> page_used s p"
  by (simp add: page_held_def page_used_def)

lemma free_page_held:
  assumes "free_list s ps" and "page_held s p"
  shows "free_page p s = Some (released p s) \<and> free_list (released p s) (p # ps)"
  using assms free_page_released[of s p] free_list_released[of s ps p]
    page_used_not_free[OF assms(1) page_held_used[OF assms(2)]]
  by (simp add: page_held_def free_list_def)

interpretation pages: page_allocator "alloc_page flags" free_page free_list page_held
  for flags
proof
  fix s :: "'a kmem_scheme" and p q ps
  assume l: "free_list s (p # q # ps)"
  then have "page_ok s p" by (simp add: free_list_def)
  then show "\<exists>s'. alloc_page flags s = Some (p, s') \<and> free_list s' (q # ps) \<and> page_held s' p \<and>
      (\<forall>r. r \<noteq> p \<longrightarrow> page_held s' r = page_held s r)"
    using alloc_page_taken[OF l, of flags] free_list_taken[OF l, of flags] by auto
next
  fix s :: "'a kmem_scheme" and p ps
  assume "free_list s ps" and "page_held s p"
  then show "\<exists>s'. free_page p s = Some s' \<and> free_list s' (p # ps) \<and>
      (\<forall>r. r \<noteq> p \<longrightarrow> page_held s' r = page_held s r)"
    using free_page_held[of s ps p] page_held_released[of _ p s] by blast
qed (rule free_list_distinct)

section \<open>Runs of the allocator\<close>

text \<open>A client that holds the pages of a list: it may allocate, or release a page it holds.\<close>

inductive page_step :: "'a kmem_scheme \<times> u64 list \<Rightarrow> 'a kmem_scheme \<times> u64 list \<Rightarrow> bool" where
  page_take: "alloc_page flags s = Some (p, s') \<Longrightarrow> p \<noteq> 0 \<Longrightarrow> page_step (s, hs) (s', p # hs)"
| page_fail: "alloc_page flags s = Some (0, s') \<Longrightarrow> page_step (s, hs) (s', hs)"
| page_give: "p \<in> set hs \<Longrightarrow> free_page p s = Some s' \<Longrightarrow> page_step (s, hs) (s', remove1 p hs)"

inductive_cases page_stepE: "page_step (s, hs) (s', hs')"

definition run_inv :: "u64 multiset \<Rightarrow> 'a kmem_scheme \<times> u64 list \<Rightarrow> bool" where
  "run_inv M x \<longleftrightarrow> (\<exists>ps. free_list (fst x) ps \<and> distinct (snd x) \<and> (\<forall>p \<in> set (snd x). page_held (fst x) p) \<and>
     mset ps + mset (snd x) = M)"

lemma run_inv_take:
  assumes "run_inv M (s, hs)" and "alloc_page flags s = Some (p, s')" and "p \<noteq> 0"
  shows "run_inv M (s', p # hs)"
proof -
  from assms(1) obtain ps where l: "free_list s ps" "distinct hs" "\<forall>p \<in> set hs. page_held s p"
    "mset ps + mset hs = M" by (auto simp: run_inv_def)
  from l(1) assms(2,3) obtain ps' where ps: "ps = p # ps'" "s' = taken flags p s"
    by (auto elim!: alloc_page_SomeE)
  have "p \<notin> set hs" using l(1,3) page_used_not_free[OF l(1) page_held_used] ps(1) by auto
  then show ?thesis
    using l ps free_list_taken[of s p ps' flags] by (auto simp: run_inv_def free_list_def)
qed

lemma run_inv_give:
  assumes "run_inv M (s, hs)" and "p \<in> set hs" and "free_page p s = Some s'"
  shows "run_inv M (s', remove1 p hs)"
proof -
  from assms(1) obtain ps where l: "free_list s ps" "distinct hs" "\<forall>p \<in> set hs. page_held s p"
    "mset ps + mset hs = M" by (auto simp: run_inv_def)
  then have "s' = released p s" "free_list s' (p # ps)"
    using assms(2,3) free_page_held[of s ps p] by auto
  moreover have "add_mset p (mset (remove1 p hs)) = mset hs" using assms(2) by simp
  then have "mset (p # ps) + mset (remove1 p hs) = M" using l(4) by (metis mset.simps(2) union_mset_add_mset_left union_mset_add_mset_right)
  ultimately show ?thesis
    using l unfolding run_inv_def
    by (intro exI[of _ "p # ps"]) (auto simp: page_held_released distinct_remove1)
qed

lemma run_inv_step: "page_step x y \<Longrightarrow> run_inv M x \<Longrightarrow> run_inv M y"
proof (induction rule: page_step.induct)
  case (page_fail flags s s' hs)
  then obtain ps where "free_list s ps" by (auto simp: run_inv_def)
  moreover have "0 \<notin> set ps" using \<open>free_list s ps\<close> by (auto simp: free_list_def page_ok_def)
  ultimately have "s' = s" using page_fail.hyps by (auto elim!: alloc_page_SomeE)
  with page_fail.prems show ?case by simp
qed (rule run_inv_take run_inv_give; assumption)+

section \<open>Properties\<close>

text \<open>A machine with six free pages and five pages in use, for the witnesses.\<close>

definition ex_pi :: "u64 \<Rightarrow> u64" where
  "ex_pi n = 0xFFFF800000100000 + 16 * n"

definition ex_free :: "u64 list" where
  "ex_free = [ex_pi 0x200, ex_pi 0x201, ex_pi 0x202, ex_pi 0x203, ex_pi 0x204, ex_pi 0x205]"

definition ex_kmem :: kmem where
  "ex_kmem = \<lparr>pmem = (\<lambda>_. 0), cr3 = 0x100000, end_kmem = 0xFFFF800000200000,
     k_pageinfo = 0xFFFF800000100000,
     page_infos = (\<lambda>_. \<lparr>paddr = 0, ref_next = 0\<rparr>)
       (ex_pi 0x200 := \<lparr>paddr = 0x200000, ref_next = ex_pi 0x201\<rparr>,
        ex_pi 0x201 := \<lparr>paddr = 0x201000, ref_next = ex_pi 0x202\<rparr>,
        ex_pi 0x202 := \<lparr>paddr = 0x202000, ref_next = ex_pi 0x203\<rparr>,
        ex_pi 0x203 := \<lparr>paddr = 0x203000, ref_next = ex_pi 0x204\<rparr>,
        ex_pi 0x204 := \<lparr>paddr = 0x204000, ref_next = ex_pi 0x205\<rparr>,
        ex_pi 0x205 := \<lparr>paddr = 0x205000, ref_next = 0\<rparr>,
        ex_pi 0x206 := \<lparr>paddr = 0x206000, ref_next = 1\<rparr>,
        ex_pi 0x207 := \<lparr>paddr = 0x207000, ref_next = 1\<rparr>,
        ex_pi 0x208 := \<lparr>paddr = 0x208000, ref_next = 1\<rparr>,
        ex_pi 0x209 := \<lparr>paddr = 0x209000, ref_next = 1\<rparr>,
        ex_pi 0x20A := \<lparr>paddr = 0x20A000, ref_next = 1\<rparr>),
     freepages = ex_pi 0x200, nfreepages = 6, max_addr = 0x400000,
     k_pgtbl = 0, k_pdpt = 0\<rparr>"

lemma ex_free_list: "free_list ex_kmem ex_free"
  by (simp add: free_list_def page_ok_def ex_kmem_def ex_free_def ex_pi_def PA2PGINFO_def K2P_def MASK_def
      mask_eq_exp_minus_1)

text \<open>
  On a well-formed free list with at least two pages \<^verbatim>\<open>alloc_page\<close> returns its first page with
  reference count 1, leaves a well-formed list of the others, zeroes exactly that page when
  \<^verbatim>\<open>FLAG_ZERO\<close> is given and changes no other memory and no other descriptor.
\<close>
lemma alloc_page_pops:
  assumes "free_list s (p # q # ps)"
  shows "\<exists>s'. alloc_page flags s = Some (p, s') \<and> free_list s' (q # ps) \<and> ref (page_infos s' p) = 1 \<and>
    (\<forall>x. pmem s' x =
       (if flags AND FLAG_ZERO \<noteq> 0 \<and> x \<in> region (paddr (page_infos s p)) 4096 then 0 else pmem s x)) \<and>
    (\<forall>r. r \<noteq> p \<longrightarrow> page_infos s' r = page_infos s r)"
  using alloc_page_taken[OF assms, of flags] free_list_taken[OF assms, of flags]
  by (auto simp: taken_def ref_def)

text \<open>
  C26: \<^verbatim>\<open>free_page\<close> on a page in use decrements its reference count; the last reference puts the
  page at the head of the free list; memory and the other descriptors do not change.
\<close>
theorem free_page_pushes:
  assumes "free_list s ps" and "page_ok s p" and "0 < ref (page_infos s p)"
  shows "\<exists>s'. free_page p s = Some s' \<and> pmem s' = pmem s \<and>
    (\<forall>r. r \<noteq> p \<longrightarrow> page_infos s' r = page_infos s r) \<and>
    (if ref (page_infos s p) = 1 then free_list s' (p # ps)
     else free_list s' ps \<and> ref (page_infos s' p) = ref (page_infos s p) - 1)"
proof (cases "ref (page_infos s p) = 1")
  case True
  then show ?thesis
    using free_page_held[of s ps p] assms by (auto simp: page_held_def released_def)
next
  case False
  have "p \<notin> set ps" using assms page_used_not_free[of s ps p] by (simp add: page_used_def)
  from free_list_set_ref[OF assms(1) this] False assms show ?thesis
    using free_page_shared[of s p]
    by (auto simp: free_list_def set_ref_next_def ref_def sint_dec)
qed

theorem free_page_pushes_witness:
  "\<exists>s'. free_page (ex_pi 0x206) ex_kmem = Some s' \<and>
     free_list s' (ex_pi 0x206 # ex_free)"
proof -
  have "page_ok ex_kmem (ex_pi 0x206)" "ref (page_infos ex_kmem (ex_pi 0x206)) = 1"
    by (simp_all add: page_ok_def ex_kmem_def ex_pi_def PA2PGINFO_def K2P_def MASK_def
      mask_eq_exp_minus_1 ref_def)
  then show ?thesis using free_page_pushes[OF ex_free_list, of "ex_pi 0x206"] by auto
qed

text \<open>
  C27: Releasing a page that is already on the free list never succeeds: the \<^verbatim>\<open>next\<close> pointer shares
  its word with the count and reads as a count of at most 0, so \<^verbatim>\<open>free_page\<close> panics.
\<close>
theorem double_free_panics:
  assumes "free_list s ps" and "p \<in> set ps"
  shows "free_page p s = None"
  using free_list_ref[OF assms] by (simp add: free_page_def)

theorem double_free_panics_witness: "free_page (ex_pi 0x201) ex_kmem = None"
  using double_free_panics[OF ex_free_list, of "ex_pi 0x201"] by (simp add: ex_free_def)

text \<open>
  C28: Taking the last free page does not return it while address 0 is unmapped: the check of
  \<^verbatim>\<open>freepages->paddr\<close> dereferences the NULL head and faults inside the kernel.
\<close>
theorem alloc_last_page_faults:
  assumes "free_list s [p]" and "translate (pmem s) (cr3 s) 0 = None"
  shows "alloc_page flags s = None"
  using assms by (simp add: alloc_page_head vload64_def)

theorem alloc_last_page_faults_witness:
  "alloc_page 0 (ex_kmem\<lparr>freepages := ex_pi 0x205, nfreepages := 1\<rparr>) = None"
  by (rule alloc_last_page_faults[of _ "ex_pi 0x205"])
    (simp_all add: free_list_def page_ok_def ex_kmem_def ex_pi_def PA2PGINFO_def K2P_def MASK_def
      mask_eq_exp_minus_1 translate_def mmu_entry_def load64_zero)

text \<open>
  C1: Along every run of allocations and releases the free pages and the held pages together are
  exactly the initial pool, no page is handed out twice, every held page has count 1, and
  \<^verbatim>\<open>nfreepages\<close> is the number of free pages.
\<close>
theorem page_runs_conserve:
  assumes "page_step\<^sup>*\<^sup>* (s, []) (s', hs)" and "free_list s ps"
  shows "\<exists>ps'. free_list s' ps' \<and> mset ps' + mset hs = mset ps \<and> distinct (ps' @ hs) \<and>
    (\<forall>p \<in> set hs. ref (page_infos s' p) = 1) \<and> unat (nfreepages s') = length ps'"
proof -
  have "run_inv (mset ps) (s, [])" using assms(2) by (auto simp: run_inv_def)
  with assms(1) have "run_inv (mset ps) (s', hs)"
    by (induction rule: rtranclp_induct) (blast intro: run_inv_step)+
  then obtain ps' where "free_list s' ps'" "distinct hs" "\<forall>p \<in> set hs. page_held s' p"
    "mset ps' + mset hs = mset ps" by (auto simp: run_inv_def)
  moreover from this have "set ps' \<inter> set hs = {}" by (meson disjoint_iff page_held_used page_used_not_free)
  ultimately show ?thesis
    by (auto simp: page_held_def unat_nfreepages free_list_distinct intro!: exI[of _ ps'])
qed

theorem page_runs_conserve_witness:
  "\<exists>s' ps'. page_step\<^sup>*\<^sup>* (ex_kmem, []) (s', [ex_pi 0x200]) \<and> free_list s' ps' \<and>
     mset ps' + {#ex_pi 0x200#} = mset ex_free"
proof -
  have "page_step\<^sup>*\<^sup>* (ex_kmem, []) (taken 0 (ex_pi 0x200) ex_kmem, [ex_pi 0x200])"
    using page_take[OF alloc_page_taken[OF ex_free_list[unfolded ex_free_def], of 0], of "[]"] by (simp add: ex_pi_def r_into_rtranclp)
  from this page_runs_conserve[OF this ex_free_list] show ?thesis by auto
qed

end
