(* ===== verification/PgTree.thy ===== *)
theory PgTree
  imports Mem
begin

text \<open>
  Trees of page tables in physical memory, independent of the code that edits them.

  \<open>lookup\<close> is the abstraction of a table: from an index path to the last-level entry, 0 where an
  upper level is missing.  \<open>tree_ok\<close> says that the tables form a tree (no table page occurs twice)
  and \<open>pages\<close> is its set of table pages.  The lemmas say that memory outside these pages does not
  matter, and what linking a zeroed table or writing a last-level entry does to \<open>lookup\<close>.
\<close>

text \<open>An access \<^verbatim>\<open>tbl[i]\<close> through a table pointer of the direct map.\<close>

definition slot :: "u64 \<Rightarrow> nat \<Rightarrow> u64" where
  "slot tbl i = tbl + 8 * of_nat i"

section \<open>Page arithmetic\<close>

abbreviation page_of :: "u64 \<Rightarrow> u64" where
  "page_of x \<equiv> x AND NOT (mask 12)"

definition is_page :: "u64 \<Rightarrow> bool" where
  "is_page t \<longleftrightarrow> t AND mask 12 = 0 \<and> t < 2 ^ 47"

text \<open>The page a table entry points to, as a physical address.\<close>

definition sub :: "u64 \<Rightarrow> u64" where
  "sub e = e AND mask 47 AND NOT (mask 12)"

lemma is_page_sub [simp]: "is_page (sub e)"
proof -
  have "\<forall>i \<ge> 47. \<not> bit (sub e) i" by (simp add: sub_def bit_simps)
  moreover have "sub e AND mask 12 = 0" by (rule u64_eqI) (auto simp: sub_def bit_simps)
  ultimately show ?thesis by (simp add: is_page_def word_less_exp_iff_bits[of 47, simplified])
qed

lemma offset_less: "i < 512 \<Longrightarrow> k < 8 \<Longrightarrow> 8 * of_nat i + of_nat k < (2 ^ 12 :: u64)"
  by (simp add: word_less_nat_alt unat_word_ariths unat_of_nat)

lemma page_of_slot_byte:
  assumes "is_page t" and "i < 512" and "k < 8"
  shows "page_of (slot t i + of_nat k) = t"
  using assms aligned_plus_base[of t 12 "8 * of_nat i + of_nat k"] offset_less[of i k]
  by (simp add: is_page_def slot_def add.assoc)

lemma page_of_slot [simp]: "is_page t \<Longrightarrow> i < 512 \<Longrightarrow> page_of (slot t i) = t"
  using page_of_slot_byte[of t i 0] by simp

lemma page_of_bytes8:
  assumes "is_page t" and "i < 512" and "x \<in> bytes8 (slot t i)"
  shows "page_of x = t"
  using assms page_of_slot_byte by (metis bytes8_cases)

lemma aligned8_slot [simp]:
  assumes "is_page t" and "i < 512"
  shows "aligned8 (slot t i)"
proof -
  have t: "t AND mask 12 = 0" using assms by (simp add: is_page_def)
  have "(8 * of_nat i :: u64) = push_bit 3 (of_nat i)" by (simp add: push_bit_eq_mult mult.commute)
  then have "\<not> bit (8 * of_nat i :: u64) k" if "k < 3" for k
    using that by (simp only:) (simp add: bit_simps)
  then have "(t OR 8 * of_nat i) AND mask 3 = 0"
    using t by (auto simp: word_and_mask_eq_0_iff bit_or_iff)
  moreover have "slot t i = t OR 8 * of_nat i"
    using aligned_plus_eq_or[OF t, of "8 * of_nat i"] offset_less[of i 0] assms(2) by (simp add: slot_def)
  moreover have "(7 :: u64) = mask 3" by (simp add: mask_eq_exp_minus_1)
  ultimately show ?thesis by (simp add: aligned8_def)
qed

lemma slot_inj:
  assumes "is_page t" and "is_page t'" and "i < 512" and "j < 512"
  shows "slot t i = slot t' j \<longleftrightarrow> t = t' \<and> i = j"
proof
  assume eq: "slot t i = slot t' j"
  then have "t = t'" using assms page_of_slot by metis
  with eq have "(8 * of_nat i :: u64) = 8 * of_nat j" by (simp add: slot_def)
  then have "unat (8 * of_nat i :: u64) = unat (8 * of_nat j :: u64)" by simp
  then have "i = j" using assms(3,4) by (simp add: unat_word_ariths unat_of_nat)
  with \<open>t = t'\<close> show "t = t' \<and> i = j" by simp
qed simp

lemma in_page_iff: "t AND mask 12 = 0 \<Longrightarrow> x \<in> region t 4096 \<longleftrightarrow> page_of x = t"
proof -
  assume t: "t AND mask 12 = 0"
  show ?thesis
  proof
    assume "x \<in> region t 4096"
    then have "x - t < 2 ^ 12" by (simp add: in_region_iff word_less_nat_alt)
    from aligned_plus_base[OF t this] show "page_of x = t" by simp
  next
    assume "page_of x = t"
    moreover have "x = page_of x OR (x AND mask 12)" by (rule u64_eqI) (auto simp: bit_simps)
    moreover have l: "x AND mask 12 < 2 ^ 12" by (rule and_mask_less') simp
    ultimately have "x = t + (x AND mask 12)" using aligned_plus_eq_or[OF t l] by simp
    with l have "x - t < 2 ^ 12" by (metis add_diff_cancel_left')
    then show "x \<in> region t 4096" by (simp add: in_region_iff word_less_nat_alt)
  qed
qed

lemma K2P_slot [page_simps]:
  assumes "is_page t" and "i < 512"
  shows "K2P (slot (P2K t) i) = slot t i"
proof -
  have l: "8 * of_nat i < (2 ^ 12 :: u64)" using offset_less[of i 0] assms(2) by simp
  have t: "t AND mask 12 = 0" "t < 2 ^ 47" using assms by (auto simp: is_page_def)
  have pt: "P2K t AND mask 12 = 0"
    using t by (auto simp: word_and_mask_eq_0_iff P2K_def KERNBASE_eq bit_simps)
  have "t AND mask 47 = t" using t(2) by (rule less_mask_eq)
  moreover have "(8 * of_nat i :: u64) AND mask 47 = 8 * of_nat i"
    using less_trans[OF l, of "2 ^ 47"] by (intro less_mask_eq) simp
  ultimately have "(t OR KERNBASE OR 8 * of_nat i) AND mask 47 = t OR 8 * of_nat i"
    by (simp add: KERNBASE_eq bit.conj_disj_distrib2)
  then show ?thesis
    using aligned_plus_eq_or[OF t(1) l] aligned_plus_eq_or[OF pt l]
    by (simp add: slot_def K2P_def MASK_eq P2K_def or.assoc)
qed

lemma PAGEKADDR_eq [page_simps]: "PAGEKADDR e = P2K (sub e)"
  by (rule u64_eqI) (auto simp: PAGEKADDR_def PAGEADDR_def PGMASK_eq P2K_def sub_def KERNBASE_eq bit_simps)

section \<open>The tree of tables\<close>

text \<open>
  \<open>ent m t i\<close> is entry \<open>i\<close> of the table at physical page \<open>t\<close>; an entry leads to another table when
  it is present and not a huge page.
\<close>

abbreviation ent :: "bytes \<Rightarrow> u64 \<Rightarrow> nat \<Rightarrow> u64" where
  "ent m t i \<equiv> load64 m (slot t i)"

definition child :: "u64 \<Rightarrow> u64 option" where
  "child e = (if e AND PTE_P \<noteq> 0 \<and> e AND PDPTE_PS = 0 then Some (sub e) else None)"

fun lookup :: "bytes \<Rightarrow> u64 \<Rightarrow> nat list \<Rightarrow> u64" where
  "lookup m t [] = 0"
| "lookup m t [i] = ent m t i"
| "lookup m t (i # p) = (case child (ent m t i) of None \<Rightarrow> 0 | Some t' \<Rightarrow> lookup m t' p)"

text \<open>The pages of the tables of a tree of depth \<open>d\<close> whose root uses its first \<open>n\<close> entries.\<close>

fun pages :: "bytes \<Rightarrow> nat \<Rightarrow> nat \<Rightarrow> u64 \<Rightarrow> u64 set" where
  "pages m 0 n t = {t}"
| "pages m (Suc d) n t =
     insert t (\<Union>i \<in> {..<n}. case child (ent m t i) of None \<Rightarrow> {} | Some t' \<Rightarrow> pages m d 512 t')"

fun tree_ok :: "bytes \<Rightarrow> nat \<Rightarrow> nat \<Rightarrow> u64 \<Rightarrow> bool" where
  "tree_ok m 0 n t \<longleftrightarrow> is_page t"
| "tree_ok m (Suc d) n t \<longleftrightarrow> is_page t \<and>
     (\<forall>i < n. \<forall>t'. child (ent m t i) = Some t' \<longrightarrow> tree_ok m d 512 t' \<and> t \<notin> pages m d 512 t' \<and>
       (\<forall>j < n. \<forall>t''. j \<noteq> i \<longrightarrow> child (ent m t j) = Some t'' \<longrightarrow> pages m d 512 t' \<inter> pages m d 512 t'' = {}))"

lemma child_is_page: "child e = Some t \<Longrightarrow> is_page t"
  by (auto simp: child_def split: if_splits)

lemma tree_ok_is_page: "tree_ok m d n t \<Longrightarrow> is_page t"
  by (cases d) auto

lemma root_in_pages [simp]: "t \<in> pages m d n t"
  by (cases d) auto

lemma pages_child: "i < n \<Longrightarrow> child (ent m t i) = Some t' \<Longrightarrow> pages m d 512 t' \<subseteq> pages m (Suc d) n t"
  by (force split: option.splits)

lemma in_pages_Suc:
  "x \<in> pages m (Suc d) n t \<longleftrightarrow> x = t \<or> (\<exists>i < n. \<exists>c. child (ent m t i) = Some c \<and> x \<in> pages m d 512 c)"
  by (auto split: option.splits)

lemma finite_pages: "finite (pages m d n t)"
  by (induction m d n t rule: pages.induct) (auto split: option.splits)

lemma pages_is_page: "is_page t \<Longrightarrow> x \<in> pages m d n t \<Longrightarrow> is_page x"
proof (induction m d n t rule: pages.induct)
  case (2 m d n t)
  then show ?case by (auto split: option.splits dest: child_is_page)
qed simp

text \<open>Two memories that agree on a set of pages.\<close>

definition agree :: "u64 set \<Rightarrow> bytes \<Rightarrow> bytes \<Rightarrow> bool" where
  "agree P m m' \<longleftrightarrow> (\<forall>x. page_of x \<in> P \<longrightarrow> m' x = m x)"

lemma agree_mono: "agree P m m' \<Longrightarrow> Q \<subseteq> P \<Longrightarrow> agree Q m m'"
  by (auto simp: agree_def)

lemma agree_trans: "agree P m m' \<Longrightarrow> agree P m' m'' \<Longrightarrow> agree P m m''"
  by (auto simp: agree_def)

lemma agree_ent: "agree P m m' \<Longrightarrow> t \<in> P \<Longrightarrow> is_page t \<Longrightarrow> i < 512 \<Longrightarrow> ent m' t i = ent m t i"
  by (rule load64_cong) (simp add: agree_def page_of_bytes8)

lemma agree_store: "is_page t \<Longrightarrow> i < 512 \<Longrightarrow> agree (- {t}) m (store64 m (slot t i) v)"
  unfolding agree_def using page_of_bytes8 store64_outside by (metis Compl_iff insertI1)

lemma agree_pages:
  "agree (pages m d n t) m m' \<Longrightarrow> is_page t \<Longrightarrow> n \<le> 512 \<Longrightarrow> pages m' d n t = pages m d n t"
proof (induction m d n t rule: pages.induct)
  case (2 m d n t)
  have e: "ent m' t i = ent m t i" if "i < n" for i
    using 2(2,3,4) that by (intro agree_ent[of "pages m (Suc d) n t"]) auto
  have "pages m' d 512 t' = pages m d 512 t'" if "i < n" "child (ent m t i) = Some t'" for i t'
    using that pages_child[OF that, of d] 2(2)
    by (intro 2(1)[OF _ that(2)] agree_mono[OF 2(2)]) (auto dest: child_is_page)
  then show ?case using e by (auto split: option.splits)
qed simp

lemma agree_tree_ok:
  "agree (pages m d n t) m m' \<Longrightarrow> is_page t \<Longrightarrow> n \<le> 512 \<Longrightarrow> tree_ok m' d n t = tree_ok m d n t"
proof (induction m d n t rule: tree_ok.induct)
  case (2 m d n t)
  have e: "ent m' t i = ent m t i" if "i < n" for i
    using 2(2,3,4) that by (intro agree_ent[of "pages m (Suc d) n t"]) auto
  have a: "agree (pages m d 512 t') m m'" "is_page t'" if "i < n" "child (ent m t i) = Some t'" for i t'
    using agree_mono[OF 2(2) pages_child[OF that]] child_is_page[OF that(2)] by auto
  have "tree_ok m' d 512 t' = tree_ok m d 512 t'" "pages m' d 512 t' = pages m d 512 t'"
    if "i < n" "child (ent m t i) = Some t'" for i t'
    using 2(1)[OF that a[OF that]] agree_pages[OF a[OF that]] by auto
  then show ?case using e by (simp cong: conj_cong)
qed simp

text \<open>The index paths of a tree of depth \<open>d\<close>.\<close>

definition path_ok :: "nat \<Rightarrow> nat \<Rightarrow> nat list \<Rightarrow> bool" where
  "path_ok d n p \<longleftrightarrow> length p = Suc d \<and> hd p < n \<and> (\<forall>i \<in> set (tl p). i < 512)"

lemma path_ok_0: "path_ok 0 n p \<longleftrightarrow> (\<exists>i < n. p = [i])"
  by (cases p) (auto simp: path_ok_def)

lemma path_ok_Suc: "path_ok (Suc d) n p \<longleftrightarrow> (\<exists>i q. p = i # q \<and> i < n \<and> path_ok d 512 q)"
  by (cases p; cases "tl p") (auto simp: path_ok_def)

lemma path_ok_not_Nil [simp]: "path_ok d n p \<Longrightarrow> p \<noteq> []"
  by (auto simp: path_ok_def)

lemma lookup_Cons:
  "p \<noteq> [] \<Longrightarrow> lookup m t (i # p) = (case child (ent m t i) of None \<Rightarrow> 0 | Some t' \<Rightarrow> lookup m t' p)"
  by (cases p) auto

lemma agree_lookup:
  "agree (pages m d n t) m m' \<Longrightarrow> is_page t \<Longrightarrow> n \<le> 512 \<Longrightarrow> path_ok d n p \<Longrightarrow>
   lookup m' t p = lookup m t p"
proof (induction d arbitrary: n t p)
  case 0
  then show ?case by (auto simp: path_ok_0 intro!: agree_ent[of "{t}"])
next
  case (Suc d)
  from Suc.prems(4) obtain i q where p: "p = i # q" "i < n" "path_ok d 512 q" by (auto simp: path_ok_Suc)
  have e: "ent m' t i = ent m t i"
    using Suc.prems p by (intro agree_ent[of "pages m (Suc d) n t"]) auto
  have "lookup m' t' q = lookup m t' q" if "child (ent m t i) = Some t'" for t'
    using Suc.IH[of 512 t' q] agree_mono[OF Suc.prems(1) pages_child[OF p(2) that]] p(3) that
    by (auto dest: child_is_page)
  then show ?case using e p by (simp add: lookup_Cons split: option.splits)
qed

text \<open>The tree in \<open>m'\<close> is the tree in \<open>m\<close> with the pages \<open>F\<close> added, all else unchanged.\<close>

definition extends :: "bytes \<Rightarrow> bytes \<Rightarrow> nat \<Rightarrow> nat \<Rightarrow> u64 \<Rightarrow> u64 set \<Rightarrow> bool" where
  "extends m m' d n t F \<longleftrightarrow>
     tree_ok m' d n t \<and> pages m' d n t = pages m d n t \<union> F \<and> agree (- (pages m d n t \<union> F)) m m'"

lemma extends_refl: "tree_ok m d n t \<Longrightarrow> extends m m d n t {}"
  by (simp add: extends_def agree_def)

lemma extends_trans: "extends m m' d n t F \<Longrightarrow> extends m' m'' d n t G \<Longrightarrow> extends m m'' d n t (F \<union> G)"
  by (auto simp: extends_def agree_def)

text \<open>A change inside one subtree, seen from its parent.\<close>

lemma lift_frame:
  assumes ok: "tree_ok m (Suc d) n t" and n: "n \<le> 512" and i: "i < n" "child (ent m t i) = Some c"
    and ag: "agree (- (pages m d 512 c \<union> F)) m m'" and F: "F \<inter> pages m (Suc d) n t = {}"
  shows "j < n \<Longrightarrow> ent m' t j = ent m t j"
    and "j < n \<Longrightarrow> j \<noteq> i \<Longrightarrow> child (ent m t j) = Some c' \<Longrightarrow> agree (pages m d 512 c') m m'"
proof -
  have "t \<notin> pages m d 512 c" "t \<notin> F" "is_page t" using ok i F by auto
  then show "j < n \<Longrightarrow> ent m' t j = ent m t j" using n by (intro agree_ent[OF ag]) auto
  assume j: "j < n" "j \<noteq> i" "child (ent m t j) = Some c'"
  then have "pages m d 512 c \<inter> pages m d 512 c' = {}" using ok i by auto
  then show "agree (pages m d 512 c') m m'"
    using F pages_child[OF j(1,3), of d] by (intro agree_mono[OF ag]) auto
qed

lemma lift_extends:
  assumes ok: "tree_ok m (Suc d) n t" and n: "n \<le> 512" and i: "i < n" "child (ent m t i) = Some c"
    and ex: "extends m m' d 512 c F" and F: "F \<inter> pages m (Suc d) n t = {}"
  shows "extends m m' (Suc d) n t F"
proof -
  have ag: "agree (- (pages m d 512 c \<union> F)) m m'" and c: "tree_ok m' d 512 c"
    "pages m' d 512 c = pages m d 512 c \<union> F" using ex by (auto simp: extends_def)
  note fr = lift_frame[OF ok n i ag F]
  have oth: "pages m' d 512 c' = pages m d 512 c'" "tree_ok m' d 512 c'" "pages m d 512 c \<inter> pages m d 512 c' = {}"
    if "j < n" "j \<noteq> i" "child (ent m t j) = Some c'" for j c'
    using agree_pages[OF fr(2)[OF that]] agree_tree_ok[OF fr(2)[OF that]] that ok i child_is_page[OF that(3)]
    by auto
  have Fc: "F \<inter> pages m d 512 c' = {}" if "j < n" "child (ent m t j) = Some c'" for j c'
    using F pages_child[OF that, of d] by auto
  have ps: "pages m' d 512 c' = pages m d 512 c' \<union> (if j = i then F else {})"
    if "j < n" "child (ent m t j) = Some c'" for j c'
    using that oth(1)[of j c'] c(2) i(2) by (cases "j = i") auto
  have "(\<exists>j < n. \<exists>c'. child (ent m t j) = Some c' \<and> x \<in> pages m' d 512 c') \<longleftrightarrow>
      x \<in> F \<or> (\<exists>j < n. \<exists>c'. child (ent m t j) = Some c' \<and> x \<in> pages m d 512 c')" for x
  proof
    assume "\<exists>j < n. \<exists>c'. child (ent m t j) = Some c' \<and> x \<in> pages m' d 512 c'"
    then show "x \<in> F \<or> (\<exists>j < n. \<exists>c'. child (ent m t j) = Some c' \<and> x \<in> pages m d 512 c')"
      using ps by (auto split: if_splits)
  next
    assume "x \<in> F \<or> (\<exists>j < n. \<exists>c'. child (ent m t j) = Some c' \<and> x \<in> pages m d 512 c')"
    then show "\<exists>j < n. \<exists>c'. child (ent m t j) = Some c' \<and> x \<in> pages m' d 512 c'"
      using ps[OF i] i ps[THEN equalityD2] by (elim disjE) (fastforce, fast)
  qed
  then have pg: "pages m' (Suc d) n t = pages m (Suc d) n t \<union> F"
    using fr(1) by (auto simp del: pages.simps simp: in_pages_Suc cong: conj_cong)
  have ch: "tree_ok m' d 512 c' \<and> t \<notin> pages m' d 512 c'" if "j < n" "child (ent m t j) = Some c'" for j c'
    using that oth(2)[of j c'] c(1) i(2) ps[of j c'] ok F by (cases "j = i") auto
  have dj: "pages m' d 512 c' \<inter> pages m' d 512 c'' = {}"
    if "j < n" "child (ent m t j) = Some c'" "k < n" "k \<noteq> j" "child (ent m t k) = Some c''" for j k c' c''
  proof -
    have "pages m d 512 c' \<inter> pages m d 512 c'' = {}" using that ok by auto
    then show ?thesis using that(4) ps[OF that(1,2)] ps[OF that(3,5)] Fc[OF that(1,2)] Fc[OF that(3,5)] by auto
  qed
  have "tree_ok m' (Suc d) n t"
    using ok ch dj fr(1) by (simp only: tree_ok.simps) (intro conjI allI impI; simp)
  moreover have "agree (- (pages m (Suc d) n t \<union> F)) m m'"
    using pages_child[OF i, of d] by (intro agree_mono[OF ag]) auto
  ultimately show ?thesis using pg by (simp add: extends_def)
qed

lemma lift_lookup:
  assumes ok: "tree_ok m (Suc d) n t" and n: "n \<le> 512" and i: "i < n" "child (ent m t i) = Some c"
    and ag: "agree (- (pages m d 512 c \<union> F)) m m'" and F: "F \<inter> pages m (Suc d) n t = {}"
    and j: "j < n" and q: "path_ok d 512 q"
  shows "lookup m' t (j # q) = (if j = i then lookup m' c q else lookup m t (j # q))"
proof (cases "j = i")
  case False
  have "lookup m' c' q = lookup m c' q" if "child (ent m t j) = Some c'" for c'
    using lift_frame(2)[OF ok n i ag F j False that] q child_is_page[OF that] by (intro agree_lookup) auto
  then show ?thesis
    using lift_frame(1)[OF ok n i ag F j] q False by (simp add: lookup_Cons split: option.splits)
qed (use lift_frame(1)[OF ok n i ag F] i q in \<open>simp add: lookup_Cons\<close>)

text \<open>A zeroed page is an empty table at any depth.\<close>

lemma zero_page_ent: "(\<And>x. page_of x = f \<Longrightarrow> m x = 0) \<Longrightarrow> is_page f \<Longrightarrow> i < 512 \<Longrightarrow> ent m f i = 0"
  by (rule load64_zero) (simp add: page_of_bytes8)

lemma zero_page_tree:
  assumes "\<And>x. page_of x = f \<Longrightarrow> m x = 0" and "is_page f" and "n \<le> 512"
  shows "pages m d n f = {f}" and "tree_ok m d n f" and "path_ok d n p \<Longrightarrow> lookup m f p = 0"
proof -
  have e: "ent m f i = 0" if "i < n" for i
    using zero_page_ent[OF assms(1,2)] that assms(3) by simp
  then show "pages m d n f = {f}" "tree_ok m d n f"
    using assms(2) by (cases d; auto simp: child_def)+
  show "path_ok d n p \<Longrightarrow> lookup m f p = 0"
    using e by (cases d) (auto simp: path_ok_0 path_ok_Suc lookup_Cons child_def)
qed

lemma PTE_P_iff: "e AND PTE_P = 0 \<longleftrightarrow> \<not> bit e 0"
  using and_exp_eq_0_iff_not_bit[of e 0] by (simp add: PTE_P_def)

lemma PDPTE_PS_iff: "e AND PDPTE_PS = 0 \<longleftrightarrow> \<not> bit e 7"
  using and_exp_eq_0_iff_not_bit[of e 7] by (simp add: PDPTE_PS_def)

definition zero_page :: "u64 \<Rightarrow> bytes \<Rightarrow> bytes" where
  "zero_page f m = (\<lambda>x. if page_of x = f then 0 else m x)"

lemma child_link: "is_page f \<Longrightarrow> child (f OR PTE_P OR PTE_W OR PTE_U) = Some f"
proof -
  assume f: "is_page f"
  then have lo: "\<not> bit f i" if "i < 12 \<or> 47 \<le> i" for i
    using that word_less_exp_iff_bits[of 47 f] by (auto simp: is_page_def word_and_mask_eq_0_iff)
  have seven: "PTE_P OR PTE_W OR PTE_U = mask 3"
    by (simp add: PTE_P_def PTE_W_def PTE_U_def mask_eq_exp_minus_1)
  have 1: "(f OR mask 3) AND PTE_P \<noteq> 0" and 2: "(f OR mask 3) AND PDPTE_PS = 0"
    using lo[of 7] by (simp_all add: PTE_P_iff PDPTE_PS_iff bit_simps)
  have "n < 47 \<and> \<not> n < 12" if "bit f n" for n using that lo by (meson not_less)
  then have 3: "sub (f OR mask 3) = f"
    by (intro u64_eqI) (auto simp: sub_def bit_simps)
  show ?thesis using 1 2 3 by (simp add: child_def seven or.assoc)
qed

text \<open>Linking the zeroed page \<open>f\<close> at an entry that leads nowhere.\<close>

definition linked :: "u64 \<Rightarrow> u64 \<Rightarrow> nat \<Rightarrow> bytes \<Rightarrow> bytes" where
  "linked f t i m = store64 (zero_page f m) (slot t i) (f OR PTE_P OR PTE_W OR PTE_U)"

lemma linked_memory:
  assumes "is_page t" and "is_page f" and "f \<noteq> t" and "i < 512"
  shows "agree (- {t, f}) m (linked f t i m)" and "page_of x = f \<Longrightarrow> linked f t i m x = 0"
    and "j < 512 \<Longrightarrow> child (ent (linked f t i m) t j) = (if j = i then Some f else child (ent m t j))"
proof -
  show "agree (- {t, f}) m (linked f t i m)" "page_of x = f \<Longrightarrow> linked f t i m x = 0"
    using agree_store[OF assms(1,4), of "zero_page f m"] assms(3)
    by (auto simp: linked_def agree_def zero_page_def)
  have "ent (zero_page f m) t j = ent m t j" if "j < 512" for j
    using that assms by (intro agree_ent[of "{t}"]) (auto simp: agree_def zero_page_def)
  then show "j < 512 \<Longrightarrow> child (ent (linked f t i m) t j) = (if j = i then Some f else child (ent m t j))"
    using assms by (simp add: linked_def mem64.load_store slot_inj child_link)
qed

lemma link_subtrees:
  assumes ok: "tree_ok m (Suc d) n t" and n: "n \<le> 512" and i: "i < n"
    and f: "is_page f" "f \<notin> pages m (Suc d) n t"
    and j: "j < n" "child (ent m t j) = Some c"
  shows "agree (pages m d 512 c) m (linked f t i m)" and "f \<notin> pages m d 512 c"
    and "pages (linked f t i m) d 512 c = pages m d 512 c" and "tree_ok (linked f t i m) d 512 c"
proof -
  have t: "is_page t" "f \<noteq> t" "i < 512" using ok f n i by auto
  have c: "t \<notin> pages m d 512 c" "tree_ok m d 512 c" "is_page c" using ok j by (auto dest: child_is_page)
  show fc: "f \<notin> pages m d 512 c" using f(2) pages_child[OF j] by auto
  show a: "agree (pages m d 512 c) m (linked f t i m)"
    using c fc by (intro agree_mono[OF linked_memory(1)[OF t(1) f(1) t(2,3)]]) auto
  show "pages (linked f t i m) d 512 c = pages m d 512 c" "tree_ok (linked f t i m) d 512 c"
    using agree_pages[OF a] agree_tree_ok[OF a] c by auto
qed

lemma link_extends:
  assumes ok: "tree_ok m (Suc d) n t" and n: "n \<le> 512" and i: "i < n" "child (ent m t i) = None"
    and f: "is_page f" "f \<notin> pages m (Suc d) n t"
  shows "extends m (linked f t i m) (Suc d) n t {f}"
proof -
  let ?m = "linked f t i m"
  have t: "is_page t" "f \<noteq> t" "i < 512" using ok f n i by auto
  note lm = linked_memory[OF t(1) f(1) t(2,3)]
  have ce: "child (ent ?m t j) = (if j = i then Some f else child (ent m t j))" if "j < n" for j
    using lm(3) that n by simp
  have zt: "pages ?m d 512 f = {f}" "tree_ok ?m d 512 f"
    using zero_page_tree(1,2)[of f ?m 512 d] lm(2) f(1) by auto
  note ch = link_subtrees[OF ok n i(1) f]
  have "(\<exists>j < n. \<exists>c. child (ent ?m t j) = Some c \<and> x \<in> pages ?m d 512 c) \<longleftrightarrow>
      x = f \<or> (\<exists>j < n. \<exists>c. child (ent m t j) = Some c \<and> x \<in> pages m d 512 c)" for x
  proof
    assume "\<exists>j < n. \<exists>c. child (ent ?m t j) = Some c \<and> x \<in> pages ?m d 512 c"
    then obtain j c where j: "j < n" "child (ent ?m t j) = Some c" "x \<in> pages ?m d 512 c" by blast
    show "x = f \<or> (\<exists>j < n. \<exists>c. child (ent m t j) = Some c \<and> x \<in> pages m d 512 c)"
      using j ce[OF j(1)] ch(3)[OF j(1), of c] zt(1) by (cases "j = i") auto
  next
    assume "x = f \<or> (\<exists>j < n. \<exists>c. child (ent m t j) = Some c \<and> x \<in> pages m d 512 c)"
    then show "\<exists>j < n. \<exists>c. child (ent ?m t j) = Some c \<and> x \<in> pages ?m d 512 c"
      using ce zt(1) i ch(3) by (elim disjE) (metis insertI1, metis option.distinct(1))
  qed
  then have "pages ?m (Suc d) n t = pages m (Suc d) n t \<union> {f}"
    by (auto simp del: pages.simps simp: in_pages_Suc)
  moreover have "tree_ok ?m (Suc d) n t"
    unfolding tree_ok.simps
  proof (intro conjI allI impI)
    fix j c assume j: "j < n" "child (ent ?m t j) = Some c"
    show "tree_ok ?m d 512 c" "t \<notin> pages ?m d 512 c"
      using j ce[OF j(1)] ch(3,4)[OF j(1), of c] zt t(2) ok by (auto split: if_splits)
    fix k c' assume k: "k < n" "k \<noteq> j" "child (ent ?m t k) = Some c'"
    have "pages m d 512 c \<inter> pages m d 512 c' = {}" if "j \<noteq> i" "k \<noteq> i"
      using that j k ce[OF j(1)] ce[OF k(1)] ok by auto
    then show "pages ?m d 512 c \<inter> pages ?m d 512 c' = {}"
      using j k ce[OF j(1)] ce[OF k(1)] ch(2,3)[OF j(1), of c] ch(2,3)[OF k(1), of c'] zt
      by (cases "j = i"; cases "k = i") simp_all
  qed (rule t)
  moreover have "agree (- (pages m (Suc d) n t \<union> {f})) m ?m"
    by (rule agree_mono[OF lm(1)]) auto
  ultimately show ?thesis by (simp add: extends_def)
qed

lemma link_lookup:
  assumes ok: "tree_ok m (Suc d) n t" and n: "n \<le> 512" and i: "i < n" "child (ent m t i) = None"
    and f: "is_page f" "f \<notin> pages m (Suc d) n t" and p: "path_ok (Suc d) n p"
  shows "lookup (linked f t i m) t p = lookup m t p"
proof -
  from p obtain j q where p: "p = j # q" "j < n" "path_ok d 512 q" by (auto simp: path_ok_Suc)
  have t: "is_page t" "f \<noteq> t" "i < 512" using ok f n i by auto
  note lm = linked_memory[OF t(1) f(1) t(2,3)]
  have "lookup (linked f t i m) f q = 0"
    using lm(2) f(1) p(3) by (intro zero_page_tree(3)[of f _ 512 d]) auto
  moreover have "lookup (linked f t i m) c q = lookup m c q" if "child (ent m t j) = Some c" for c
    using agree_lookup[OF link_subtrees(1)[OF ok n i(1) f p(2) that] _ order_refl p(3)] child_is_page[OF that] by simp
  moreover have "child (ent (linked f t i m) t j) = (if j = i then Some f else child (ent m t j))"
    using p(2) n by (intro lm(3)) simp
  ultimately show ?thesis
    using p(1,3) i(2) by (cases "j = i"; cases "child (ent m t j)") (simp_all add: lookup_Cons)
qed

text \<open>Writing a last-level entry.\<close>

lemma store_leaf:
  assumes "tree_ok m 0 n t" and "n \<le> 512" and "i < n"
  shows "extends m (store64 m (slot t i) v) 0 n t {}"
    and "path_ok 0 n p \<Longrightarrow> lookup (store64 m (slot t i) v) t p = (if p = [i] then v else lookup m t p)"
proof -
  have t: "is_page t" "i < 512" using assms by auto
  then show "extends m (store64 m (slot t i) v) 0 n t {}"
    using agree_store[of t i m v] by (simp add: extends_def)
  assume "path_ok 0 n p"
  then obtain j where "p = [j]" "j < n" by (auto simp: path_ok_0)
  then show "lookup (store64 m (slot t i) v) t p = (if p = [i] then v else lookup m t p)"
    using t assms(2) by (simp add: mem64.load_store slot_inj)
qed

text \<open>
  The table page that holds the last-level entry of an index path, if the upper levels are there.
\<close>

fun reach :: "bytes \<Rightarrow> u64 \<Rightarrow> nat list \<Rightarrow> u64 option" where
  "reach m t [] = Some t"
| "reach m t (i # p) = (case child (ent m t i) of None \<Rightarrow> None | Some t' \<Rightarrow> reach m t' p)"

lemma path_ok_snoc:
  assumes "path_ok (Suc d) n (q @ [i])"
  obtains j r where "q = j # r" and "j < n" and "path_ok d 512 (r @ [i])"
proof -
  from assms obtain j r where "q @ [i] = j # r" "j < n" "path_ok d 512 r" by (auto simp: path_ok_Suc)
  then show thesis using that by (cases q) (auto simp: path_ok_def[of d 512 "[]"])
qed

lemma store_reach:
  assumes "tree_ok m d n t" and "n \<le> 512" and "path_ok d n (q @ [i])" and "reach m t q = Some u"
  shows "extends m (store64 m (slot u i) v) d n t {} \<and>
    (\<forall>p. path_ok d n p \<longrightarrow> lookup (store64 m (slot u i) v) t p = (if p = q @ [i] then v else lookup m t p))"
  using assms
proof (induction d arbitrary: n t q)
  case 0
  then have "q = []" "u = t" "i < n" by (auto simp: path_ok_def)
  then show ?case using store_leaf[OF 0(1,2)] by simp
next
  case (Suc d)
  let ?m = "store64 m (slot u i) v"
  from Suc.prems(3) obtain j r where q: "q = j # r" "j < n" "path_ok d 512 (r @ [i])" by (rule path_ok_snoc)
  with Suc.prems obtain c where c: "child (ent m t j) = Some c" "reach m c r = Some u" by (auto split: option.splits)
  have tc: "tree_ok m d 512 c" using Suc.prems(1) q(2) c(1) by simp
  note IH = Suc.IH[OF tc order_refl q(3) c(2)]
  then have ag: "agree (- (pages m d 512 c \<union> {})) m ?m" by (simp add: extends_def)
  have "lookup ?m t p = (if p = q @ [i] then v else lookup m t p)" if "path_ok (Suc d) n p" for p
  proof -
    from that obtain k s where p: "p = k # s" "k < n" "path_ok d 512 s" by (auto simp: path_ok_Suc)
    have "lookup ?m t p = (if k = j then lookup ?m c s else lookup m t p)"
      using lift_lookup[OF Suc.prems(1,2) q(2) c(1) ag _ p(2,3)] p(1) by simp
    moreover have "lookup ?m c s = (if s = r @ [i] then v else lookup m c s)" using IH p(3) by blast
    ultimately show ?thesis using p q(1) c(1) by (cases "k = j") (simp_all add: lookup_Cons)
  qed
  moreover have "extends m ?m (Suc d) n t {}"
    using lift_extends[OF Suc.prems(1,2) q(2) c(1)] IH by simp
  ultimately show ?case by blast
qed

end
