(* ===== verification/Pgtbl.thy ===== *)
theory Pgtbl
  imports PgTree Errno
begin

text \<open>
  Page tables: \<^verbatim>\<open>walk_pgtbl\<close>, \<^verbatim>\<open>map_mmio\<close>, \<^verbatim>\<open>free_pgtbl\<close>, \<^verbatim>\<open>copy_pgtbl\<close> and \<^verbatim>\<open>pgtbl_clearflags\<close>
  of \<^verbatim>\<open>kernel/mem.c\<close>, as functions on the allocator state; table entries are 64-bit cells of
  physical memory reached through the direct map.

  The lemmas show what each operation does to the \<open>lookup\<close> of a table and that it keeps \<open>tree_ok\<close>
  (theory \<^verbatim>\<open>PgTree\<close>).
\<close>

section \<open>Operations\<close>

definition kload64 :: "'a kmem_scheme \<Rightarrow> u64 \<Rightarrow> u64" where
  "kload64 s ka = load64 (pmem s) (K2P ka)"

definition kstore64 :: "u64 \<Rightarrow> u64 \<Rightarrow> 'a kmem_scheme \<Rightarrow> 'a kmem_scheme" where
  "kstore64 ka v s = s\<lparr>pmem := store64 (pmem s) (K2P ka) v\<rparr>"

definition FREE_PGTBL_DECREF :: u64 where "FREE_PGTBL_DECREF = 0x1"
definition CPY_PGTBL_CNTREF :: u64 where "CPY_PGTBL_CNTREF = 0x1"
definition CPY_PGTBL_NOKSPACE :: u64 where "CPY_PGTBL_NOKSPACE = 0x2"

text \<open>How one level of the walk ends: the two \<^verbatim>\<open>goto\<close> targets, or the next table.\<close>

datatype walk_res = Unmapped | NoMem | Table u64

text \<open>
  The block that \<^verbatim>\<open>walk_pgtbl\<close> repeats for each of its upper three levels; the level number \<open>k\<close>
  is the index into \<^verbatim>\<open>alloced\<close>, and the levels below the first assert that the entry is not a
  huge page.
\<close>

definition walk_level ::
    "bool \<Rightarrow> u64 \<Rightarrow> nat \<Rightarrow> nat \<Rightarrow> u64 list \<Rightarrow> 'a kmem_scheme \<Rightarrow> ((walk_res \<times> u64 list) \<times> 'a kmem_scheme) option" where
  "walk_level create tbl i k alloced s =
     (if k > 0 \<and> kload64 s (slot tbl i) AND PDPTE_PS \<noteq> 0 then None
      else if kload64 s (slot tbl i) AND PTE_P \<noteq> 0
      then Some ((Table (PAGEKADDR (kload64 s (slot tbl i))), alloced), s)
      else if \<not> create then Some ((Unmapped, alloced), s)
      else do {
        (p, s) \<leftarrow> alloc_page FLAG_ZERO s;
        let alloced = alloced[k := p];
        if p = 0 then Some ((NoMem, alloced), s)
        else let s = kstore64 (slot tbl i) (paddr (page_infos s p) OR PTE_P OR PTE_W OR PTE_U) s
             in Some ((Table (PAGEKADDR (kload64 s (slot tbl i))), alloced), s)
      })"

primrec free_alloced :: "u64 list \<Rightarrow> 'a kmem_scheme \<Rightarrow> 'a kmem_scheme option" where
  "free_alloced [] s = Some s"
| "free_alloced (p # ps) s = (if p = 0 then Some s else do { s \<leftarrow> free_page p s; free_alloced ps s })"

definition walk_unmapped :: "'a kmem_scheme \<Rightarrow> ((int \<times> u64 option) \<times> 'a kmem_scheme) option" where
  "walk_unmapped s = Some ((- EFAULT, Some 0), s)"

definition walk_no_mem :: "u64 list \<Rightarrow> 'a kmem_scheme \<Rightarrow> ((int \<times> u64 option) \<times> 'a kmem_scheme) option" where
  "walk_no_mem alloced s = do { s \<leftarrow> free_alloced alloced s; Some ((- ENOMEM, None), s) }"

text \<open>
  The result is the return code and what was stored through \<^verbatim>\<open>pte\<close>, if anything was.
\<close>

definition walk_pgtbl ::
    "u64 \<Rightarrow> u64 \<Rightarrow> bool \<Rightarrow> 'a kmem_scheme \<Rightarrow> ((int \<times> u64 option) \<times> 'a kmem_scheme) option" where
  "walk_pgtbl pgtbl vaddr create s =
     (let pgtbl = PAGEKADDR pgtbl; vaddr = PAGEADDR vaddr in do {
        ((r, alloced), s) \<leftarrow> walk_level create pgtbl (unat (PML4_INDEX vaddr)) 0 [0, 0, 0] s;
        case r of
          Unmapped \<Rightarrow> walk_unmapped s
        | NoMem \<Rightarrow> walk_no_mem alloced s
        | Table pdpt \<Rightarrow> do {
            ((r, alloced), s) \<leftarrow> walk_level create pdpt (unat (PDPT_INDEX vaddr)) 1 alloced s;
            case r of
              Unmapped \<Rightarrow> walk_unmapped s
            | NoMem \<Rightarrow> walk_no_mem alloced s
            | Table pd \<Rightarrow> do {
                ((r, alloced), s) \<leftarrow> walk_level create pd (unat (PD_INDEX vaddr)) 2 alloced s;
                case r of
                  Unmapped \<Rightarrow> walk_unmapped s
                | NoMem \<Rightarrow> walk_no_mem alloced s
                | Table pt \<Rightarrow> Some ((0, Some (P2K (slot pt (unat (PT_INDEX vaddr))))), s)
              }
          }
      })"

definition map_mmio ::
    "u64 \<Rightarrow> u64 \<Rightarrow> u64 \<Rightarrow> 'a kmem_scheme \<Rightarrow> ((int \<times> u64 option) \<times> 'a kmem_scheme) option" where
  "map_mmio pgtbl vaddr mmioaddr s = do {
     ((r, pte), s) \<leftarrow> walk_pgtbl pgtbl vaddr True s;
     if r < 0 then Some ((r, None), s)
     else let s = kstore64 (the pte) (mmioaddr OR PTE_P OR PTE_W OR PTE_PWT OR PTE_PCD) s
          in Some ((0, pte), s)
   }"

text \<open>
  \<^verbatim>\<open>for (i = 0; i < n; ++i) { if (!(tbl[i] & P)) continue; body }\<close>, the loop of every traversal.
\<close>

definition for_present ::
    "nat \<Rightarrow> u64 \<Rightarrow> (nat \<Rightarrow> u64 \<Rightarrow> 'a kmem_scheme \<Rightarrow> 'a kmem_scheme option) \<Rightarrow> 'a kmem_scheme \<Rightarrow> 'a kmem_scheme option" where
  "for_present n tbl body =
     for_loop [0..<n] (\<lambda>i s. if kload64 s (slot tbl i) AND PTE_P = 0 then Some s
                             else body i (kload64 s (slot tbl i)) s)"

definition free_pt :: "u64 \<Rightarrow> u64 \<Rightarrow> 'a kmem_scheme \<Rightarrow> 'a kmem_scheme option" where
  "free_pt flags pt =
     for_present 512 pt (\<lambda>_ e s. if flags AND FREE_PGTBL_DECREF \<noteq> 0 then free_page (PA2PGINFO s e) s else Some s)"

definition free_pd :: "u64 \<Rightarrow> u64 \<Rightarrow> 'a kmem_scheme \<Rightarrow> 'a kmem_scheme option" where
  "free_pd flags pd =
     for_present 512 pd (\<lambda>_ e s. do { s \<leftarrow> free_pt flags (PAGEKADDR e) s; free_page (KA2PGINFO s (PAGEKADDR e)) s })"

definition free_pdpt :: "u64 \<Rightarrow> u64 \<Rightarrow> 'a kmem_scheme \<Rightarrow> 'a kmem_scheme option" where
  "free_pdpt flags pdpt =
     for_present 512 pdpt (\<lambda>_ e s. do { s \<leftarrow> free_pd flags (PAGEKADDR e) s; free_page (KA2PGINFO s (PAGEKADDR e)) s })"

definition free_pgtbl :: "u64 \<Rightarrow> u64 \<Rightarrow> 'a kmem_scheme \<Rightarrow> 'a kmem_scheme option" where
  "free_pgtbl pgtbl flags s =
     (if pgtbl AND MASK PGSHIFT \<noteq> 0 then None
      else let pgtbl = P2K pgtbl in do {
        s \<leftarrow> for_present 256 pgtbl
          (\<lambda>_ e s. do { s \<leftarrow> free_pdpt flags (PAGEKADDR e) s; free_page (KA2PGINFO s (PAGEKADDR e)) s }) s;
        free_page (KA2PGINFO s pgtbl) s
      })"

definition copy_pt :: "u64 \<Rightarrow> u64 \<Rightarrow> u64 \<Rightarrow> 'a kmem_scheme \<Rightarrow> 'a kmem_scheme option" where
  "copy_pt flags pt_d pt_s =
     for_present 512 pt_s (\<lambda>pti e s.
       let s = kstore64 (slot pt_d pti) e s in
       Some (if flags AND CPY_PGTBL_CNTREF \<noteq> 0
             then set_ref_next (PA2PGINFO s e) (ref_next (page_infos s (PA2PGINFO s e)) + 1) s else s))"

text \<open>A new zeroed table linked at \<^verbatim>\<open>tbl_d[i]\<close>; the allocation is not checked for NULL.\<close>

definition copy_link :: "u64 \<Rightarrow> nat \<Rightarrow> 'a kmem_scheme \<Rightarrow> (u64 \<times> 'a kmem_scheme) option" where
  "copy_link tbl_d i s = do {
     (pg, s) \<leftarrow> alloc_page FLAG_ZERO s;
     pa \<leftarrow> pi_paddr s pg;
     let s = kstore64 (slot tbl_d i) (pa OR PTE_P OR PTE_W OR PTE_U) s;
     Some (PAGEKADDR (kload64 s (slot tbl_d i)), s)
   }"

definition copy_pd :: "u64 \<Rightarrow> u64 \<Rightarrow> u64 \<Rightarrow> 'a kmem_scheme \<Rightarrow> 'a kmem_scheme option" where
  "copy_pd flags pd_d pd_s =
     for_present 512 pd_s (\<lambda>pdi e s. do { (pt_d, s) \<leftarrow> copy_link pd_d pdi s; copy_pt flags pt_d (PAGEKADDR e) s })"

definition copy_pdpt :: "u64 \<Rightarrow> u64 \<Rightarrow> u64 \<Rightarrow> 'a kmem_scheme \<Rightarrow> 'a kmem_scheme option" where
  "copy_pdpt flags pdpt_d pdpt_s =
     for_present 512 pdpt_s (\<lambda>pdpti e s. do { (pd_d, s) \<leftarrow> copy_link pdpt_d pdpti s; copy_pd flags pd_d (PAGEKADDR e) s })"

definition copy_pgtbl :: "u64 \<Rightarrow> u64 \<Rightarrow> u64 \<Rightarrow> 'a kmem_scheme \<Rightarrow> (int \<times> 'a kmem_scheme) option" where
  "copy_pgtbl dst src flags s = (let src = P2K src; dst = P2K dst in do {
     s \<leftarrow> for_present 256 src
       (\<lambda>pml4i e s. do { (pdpt_d, s) \<leftarrow> copy_link dst pml4i s; copy_pdpt flags pdpt_d (PAGEKADDR e) s }) s;
     s \<leftarrow> (if flags AND CPY_PGTBL_NOKSPACE = 0
           then for_loop [256..<512] (\<lambda>i s. Some (kstore64 (slot dst i) (kload64 s (slot src i)) s)) s
           else Some s);
     Some (0, s)
   })"

definition clear_pt :: "u64 \<Rightarrow> u64 \<Rightarrow> 'a kmem_scheme \<Rightarrow> 'a kmem_scheme option" where
  "clear_pt msk pt = for_present 512 pt (\<lambda>pti e s. Some (kstore64 (slot pt pti) (e AND msk) s))"

definition clear_pd :: "u64 \<Rightarrow> u64 \<Rightarrow> 'a kmem_scheme \<Rightarrow> 'a kmem_scheme option" where
  "clear_pd msk pd = for_present 512 pd (\<lambda>_ e s. clear_pt msk (PAGEKADDR e) s)"

definition clear_pdpt :: "u64 \<Rightarrow> u64 \<Rightarrow> 'a kmem_scheme \<Rightarrow> 'a kmem_scheme option" where
  "clear_pdpt msk pdpt = for_present 512 pdpt (\<lambda>_ e s. clear_pd msk (PAGEKADDR e) s)"

definition pgtbl_clearflags :: "u64 \<Rightarrow> u64 \<Rightarrow> 'a kmem_scheme \<Rightarrow> 'a kmem_scheme option" where
  "pgtbl_clearflags pgtbl flags s =
     (let pgtbl = PAGEKADDR pgtbl; flags = flags AND PTE_FLAGS; msk = NOT flags
      in for_present 256 pgtbl (\<lambda>_ e s. clear_pdpt msk (PAGEKADDR e) s) s)"

section \<open>The walk\<close>

text \<open>The physical pages of a list of descriptors.\<close>

definition paddrs :: "'a kmem_scheme \<Rightarrow> u64 list \<Rightarrow> u64 set" where
  "paddrs s ps = (\<lambda>p. paddr (page_infos s p)) ` set ps"

text \<open>\<open>s'\<close> is \<open>s\<close> after the pages \<open>gs\<close> were allocated and some memory was written.\<close>

definition grab :: "u64 list \<Rightarrow> (u64 \<Rightarrow> page_info) \<Rightarrow> u64 \<Rightarrow> page_info" where
  "grab gs h = (\<lambda>r. if r \<in> set gs then (h r)\<lparr>ref_next := 1\<rparr> else h r)"

definition grabbed :: "'a kmem_scheme \<Rightarrow> 'a kmem_scheme \<Rightarrow> u64 list \<Rightarrow> bool" where
  "grabbed s s' gs \<longleftrightarrow>
     (\<exists>m f k. s' = s\<lparr>pmem := m, page_infos := grab gs (page_infos s), freepages := f, nfreepages := k\<rparr>)"

lemma grab_Nil [simp]: "grab [] h = h"
  by (simp add: grab_def)

lemma grab_grab [simp]: "grab gs' (grab gs h) = grab (gs @ gs') h"
  by (auto simp: grab_def)

lemma grab_single: "h(p := (h p)\<lparr>ref_next := 1\<rparr>) = grab [p] h"
  by (auto simp: grab_def)

lemma grabbed_refl [simp]: "grabbed s s []"
  unfolding grabbed_def by (intro exI[of _ "pmem s"] exI[of _ "freepages s"] exI[of _ "nfreepages s"]) simp

lemma grabbed_pmem: "grabbed s s' gs \<Longrightarrow> grabbed s (s'\<lparr>pmem := m\<rparr>) gs"
  unfolding grabbed_def by (elim exE, rule exI[of _ m], intro exI) (cases s, simp)

lemma grabbed_trans: "grabbed s s' gs \<Longrightarrow> grabbed s' s'' gs' \<Longrightarrow> grabbed s s'' (gs @ gs')"
  unfolding grabbed_def by (elim exE, intro exI) (cases s, simp)

lemma grabbed_taken: "grabbed s (taken flags p s) [p]"
  unfolding grabbed_def taken_def grab_single by (intro exI) (rule refl)

lemma paddr_grabbed: "grabbed s s' gs \<Longrightarrow> paddr (page_infos s' r) = paddr (page_infos s r)"
  by (auto simp: grabbed_def grab_def)

lemma paddrs_grabbed: "grabbed s s' gs \<Longrightarrow> paddrs s' ps = paddrs s ps"
  by (simp add: paddrs_def paddr_grabbed)

lemma paddrs_append [simp]: "paddrs s (xs @ ys) = paddrs s xs \<union> paddrs s ys"
  by (simp add: paddrs_def image_Un)

lemma paddrs_Cons [simp]: "paddrs s (x # xs) = insert (paddr (page_infos s x)) (paddrs s xs)"
  by (simp add: paddrs_def)

lemma paddrs_Nil [simp]: "paddrs s [] = {}"
  by (simp add: paddrs_def)

lemma page_ok_is_page: "max_addr s < 2 ^ 47 \<Longrightarrow> page_ok s p \<Longrightarrow> is_page (paddr (page_infos s p))"
  by (auto simp: page_ok_def is_page_def)

lemma page_ok_inj: "page_ok s p \<Longrightarrow> page_ok s q \<Longrightarrow> paddr (page_infos s p) = paddr (page_infos s q) \<longleftrightarrow> p = q"
  by (metis page_ok_def)

lemma free_list_fresh: "free_list s (p # ps) \<Longrightarrow> paddr (page_infos s p) \<notin> paddrs s ps"
  using free_list_distinct[of s "p # ps"] page_ok_inj[of s p]
  by (auto simp: free_list_def paddrs_def)

lemma free_list_disjoint:
  assumes "free_list s (xs @ ys)"
  shows "paddrs s xs \<inter> paddrs s ys = {}"
proof -
  have "p \<noteq> q" if "p \<in> set xs" "q \<in> set ys" for p q
    using free_list_distinct[OF assms] that by auto
  then show ?thesis using page_ok_inj[of s] assms by (fastforce simp: free_list_def paddrs_def)
qed

text \<open>
  What a walk leaves behind: the tree with the new pages added, the same last-level entries, and
  the rest of the free list.
\<close>

definition walked :: "'a kmem_scheme \<Rightarrow> 'a kmem_scheme \<Rightarrow> nat \<Rightarrow> nat \<Rightarrow> u64 \<Rightarrow> u64 list \<Rightarrow> u64 list \<Rightarrow> bool" where
  "walked s s' d n t gs ps \<longleftrightarrow> extends (pmem s) (pmem s') d n t (paddrs s gs) \<and>
     (\<forall>p. path_ok d n p \<longrightarrow> lookup (pmem s') t p = lookup (pmem s) t p) \<and> free_list s' ps \<and> grabbed s s' gs"

lemma walked_refl: "tree_ok (pmem s) d n t \<Longrightarrow> free_list s ps \<Longrightarrow> walked s s d n t [] ps"
  by (simp add: walked_def extends_refl)

lemma walked_trans:
  "walked s s' d n t gs ps' \<Longrightarrow> walked s' s'' d n t gs' ps \<Longrightarrow> walked s s'' d n t (gs @ gs') ps"
  using extends_trans[of "pmem s" "pmem s'" d n t "paddrs s gs" "pmem s''" "paddrs s gs'"]
  by (auto simp: walked_def paddrs_grabbed grabbed_trans)

lemma walked_lift:
  assumes ok: "tree_ok (pmem s) (Suc d) n t" and n: "n \<le> 512" and i: "i < n" "child (ent (pmem s) t i) = Some c"
    and w: "walked s s' d 512 c gs ps" and F: "paddrs s gs \<inter> pages (pmem s) (Suc d) n t = {}"
  shows "walked s s' (Suc d) n t gs ps"
proof -
  from w have ex: "extends (pmem s) (pmem s') d 512 c (paddrs s gs)"
    and lk: "\<And>q. path_ok d 512 q \<Longrightarrow> lookup (pmem s') c q = lookup (pmem s) c q" by (auto simp: walked_def)
  then have ag: "agree (- (pages (pmem s) d 512 c \<union> paddrs s gs)) (pmem s) (pmem s')"
    by (simp add: extends_def)
  have "lookup (pmem s') t p = lookup (pmem s) t p" if "path_ok (Suc d) n p" for p
  proof -
    from that obtain k q where p: "p = k # q" "k < n" "path_ok d 512 q" by (auto simp: path_ok_Suc)
    then show ?thesis
      using lift_lookup[OF ok n i ag F p(2,3)] lk[OF p(3)] i(2) by (simp add: lookup_Cons)
  qed
  then show ?thesis using w lift_extends[OF ok n i ex F] by (simp add: walked_def)
qed

text \<open>The three levels of the walk as one recursion along the index path.\<close>

fun walk_rec ::
    "bool \<Rightarrow> nat \<Rightarrow> u64 \<Rightarrow> nat list \<Rightarrow> u64 list \<Rightarrow> 'a kmem_scheme \<Rightarrow> ((walk_res \<times> u64 list) \<times> 'a kmem_scheme) option" where
  "walk_rec create k tbl [] alloced s = Some ((Table tbl, alloced), s)"
| "walk_rec create k tbl (i # q) alloced s = do {
     ((r, alloced), s) \<leftarrow> walk_level create tbl i k alloced s;
     case r of Table t \<Rightarrow> walk_rec create (Suc k) t q alloced s | _ \<Rightarrow> Some ((r, alloced), s)
   }"

definition va_path :: "u64 \<Rightarrow> nat list" where
  "va_path va = [unat (PML4_INDEX va), unat (PDPT_INDEX va), unat (PD_INDEX va)]"

lemma walk_pgtbl_rec:
  "walk_pgtbl pgtbl vaddr create s = do {
     ((r, alloced), s) \<leftarrow> walk_rec create 0 (PAGEKADDR pgtbl) (va_path (PAGEADDR vaddr)) [0, 0, 0] s;
     case r of
       Unmapped \<Rightarrow> walk_unmapped s
     | NoMem \<Rightarrow> walk_no_mem alloced s
     | Table pt \<Rightarrow> Some ((0, Some (P2K (slot pt (unat (PT_INDEX (PAGEADDR vaddr)))))), s)
   }"
  by (simp add: walk_pgtbl_def va_path_def Let_def numeral_2_eq_2)
    (auto simp: numeral_2_eq_2 split: bind_splits walk_res.splits)

text \<open>No huge page along an index path.\<close>

fun no_huge :: "bytes \<Rightarrow> u64 \<Rightarrow> nat list \<Rightarrow> bool" where
  "no_huge m t [] \<longleftrightarrow> True"
| "no_huge m t (i # q) \<longleftrightarrow> ent m t i AND PDPTE_PS = 0 \<and> (case child (ent m t i) of None \<Rightarrow> True | Some c \<Rightarrow> no_huge m c q)"

lemma no_huge_zero:
  "(\<And>x. page_of x = f \<Longrightarrow> m x = 0) \<Longrightarrow> is_page f \<Longrightarrow> \<forall>i \<in> set q. i < 512 \<Longrightarrow> no_huge m f q"
  by (cases q) (auto simp: zero_page_ent child_def)

lemma kload64_slot [page_simps]: "is_page t \<Longrightarrow> i < 512 \<Longrightarrow> kload64 s (slot (P2K t) i) = ent (pmem s) t i"
  by (simp add: kload64_def K2P_slot)

lemma kstore64_slot [page_simps]:
  "is_page t \<Longrightarrow> i < 512 \<Longrightarrow> kstore64 (slot (P2K t) i) v s = s\<lparr>pmem := store64 (pmem s) (slot t i) v\<rparr>"
  by (simp add: kstore64_def K2P_slot)

lemma taken_zero_page:
  "is_page (paddr (page_infos s p)) \<Longrightarrow> pmem (taken FLAG_ZERO p s) = zero_page (paddr (page_infos s p)) (pmem s)"
  by (auto simp: taken_def FLAG_ZERO_def zero_page_def is_page_def in_page_iff)

lemma sub_child: "child e = Some c \<Longrightarrow> sub e = c"
  by (auto simp: child_def split: if_splits)

lemma free_list_pmem [simp]: "free_list (s\<lparr>pmem := m\<rparr>) ps = free_list s ps"
  by (simp add: free_list_def page_ok_def PA2PGINFO_def)

text \<open>The new table of one level.\<close>

lemma walk_level_new:
  assumes ok: "tree_ok (pmem s) (Suc d) n t" and n: "n \<le> 512" and i: "i < n" "child (ent (pmem s) t i) = None"
    and ps: "free_list s (p # q # ps)" and fr: "paddr (page_infos s p) \<notin> pages (pmem s) (Suc d) n t"
    and hu: "ent (pmem s) t i AND PDPTE_PS = 0"
  defines "f \<equiv> paddr (page_infos s p)"
  defines "s' \<equiv> (taken FLAG_ZERO p s)\<lparr>pmem := linked f t i (pmem s)\<rparr>"
  shows "walk_level True (P2K t) i k al s = Some ((Table (P2K f), al[k := p]), s')"
    and "walked s s' (Suc d) n t [p] (q # ps)" and "child (ent (pmem s') t i) = Some f"
    and "page_of x = f \<Longrightarrow> pmem s' x = 0"
proof -
  have t: "is_page t" "i < 512" and f: "is_page f" "f \<noteq> t" "f \<notin> pages (pmem s) (Suc d) n t"
    using ok n i ps fr by (auto simp: f_def free_list_def intro: page_ok_is_page)
  note lm = linked_memory[OF t(1) f(1,2) t(2)]
  have pm: "pmem s' = linked f t i (pmem s)" by (simp add: s'_def)
  show ch: "child (ent (pmem s') t i) = Some f" and "page_of x = f \<Longrightarrow> pmem s' x = 0"
    using lm t(2) by (simp_all add: pm)
  have np: "ent (pmem s) t i AND PTE_P = 0" using i(2) hu by (auto simp: child_def split: if_splits)
  have "kstore64 (slot (P2K t) i) (f OR PTE_P OR PTE_W OR PTE_U) (taken FLAG_ZERO p s) = s'"
    using t f(1) by (simp add: page_simps s'_def linked_def taken_zero_page f_def)
  moreover have "paddr (page_infos (taken FLAG_ZERO p s) p) = f" by (simp add: f_def taken_def)
  moreover have "p \<noteq> 0" using ps by (simp add: free_list_def)
  ultimately show "walk_level True (P2K t) i k al s = Some ((Table (P2K f), al[k := p]), s')"
    using t np hu ch alloc_page_taken[OF ps, of FLAG_ZERO]
    by (simp add: walk_level_def page_simps mem64.load_store_same sub_child[OF child_link[OF f(1)]])
  show "walked s s' (Suc d) n t [p] (q # ps)"
    using link_extends[OF ok n i f(1,3)] link_lookup[OF ok n i f(1,3)] free_list_taken[OF ps, of FLAG_ZERO]
      grabbed_pmem[OF grabbed_taken[of s FLAG_ZERO p]]
    by (simp add: walked_def pm f_def) (simp add: s'_def f_def)
qed

lemma walk_level_ok:
  assumes ok: "tree_ok (pmem s) (Suc d) n t" and n: "n \<le> 512" and i: "i < n"
    and ps: "free_list s ps" "2 \<le> length ps" and fr: "paddrs s ps \<inter> pages (pmem s) (Suc d) n t = {}"
    and hu: "no_huge (pmem s) t (i # q)" and q: "\<forall>j \<in> set q. j < 512"
  shows "\<exists>c al' s' gs ps'. walk_level True (P2K t) i k al s = Some ((Table (P2K c), al'), s') \<and>
    child (ent (pmem s') t i) = Some c \<and> walked s s' (Suc d) n t gs ps' \<and> ps = gs @ ps' \<and> length gs \<le> 1 \<and>
    no_huge (pmem s') c q"
proof (cases "child (ent (pmem s) t i)")
  case None
  from ps obtain p p' ps' where p: "ps = p # p' # ps'" by (cases ps; cases "tl ps") auto
  define f where "f = paddr (page_infos s p)"
  define s' where "s' = (taken FLAG_ZERO p s)\<lparr>pmem := linked f t i (pmem s)\<rparr>"
  have "f \<notin> pages (pmem s) (Suc d) n t" "ent (pmem s) t i AND PDPTE_PS = 0" "is_page f"
    using fr hu p ps(1) by (auto simp: f_def free_list_def intro: page_ok_is_page)
  note new = walk_level_new[OF ok n i None ps(1)[unfolded p] this(1,2)[unfolded f_def], folded f_def, folded s'_def]
  have "no_huge (pmem s') f q" using new(4) \<open>is_page f\<close> q by (rule no_huge_zero)
  then show ?thesis using new(1)[of k al] new(2,3) p by force
next
  case (Some c)
  then have "ent (pmem s) t i AND PTE_P \<noteq> 0" "ent (pmem s) t i AND PDPTE_PS = 0" "sub (ent (pmem s) t i) = c"
    by (auto simp: child_def split: if_splits)
  then have "walk_level True (P2K t) i k al s = Some ((Table (P2K c), al), s)"
    using ok n i by (simp add: walk_level_def page_simps)
  then show ?thesis
    using Some walked_refl[OF ok ps(1)] hu append_Nil[of ps] list.size(3) by fastforce
qed

lemma walk_rec_ok:
  assumes "tree_ok (pmem s) d n t" and "n \<le> 512" and "path_ok d n (q @ [x])"
    and "free_list s ps" and "length q < length ps" and "paddrs s ps \<inter> pages (pmem s) d n t = {}"
    and "no_huge (pmem s) t q"
  shows "\<exists>u al' s' gs ps'. walk_rec True k (P2K t) q al s = Some ((Table (P2K u), al'), s') \<and>
    reach (pmem s') t q = Some u \<and> walked s s' d n t gs ps' \<and> ps = gs @ ps' \<and> length gs \<le> length q"
  using assms
proof (induction d arbitrary: n t q k al s ps)
  case 0
  then have "q = []" by (auto simp: path_ok_def)
  then show ?case using walked_refl[OF 0(1,4)] append_Nil[of ps] by fastforce
next
  case (Suc d)
  from Suc.prems(3) obtain i r where q: "q = i # r" "i < n" "path_ok d 512 (r @ [x])" by (rule path_ok_snoc)
  have r: "\<forall>j \<in> set r. j < 512" using Suc.prems(3) q(1) by (auto simp: path_ok_def)
  have len: "2 \<le> length ps" using Suc.prems(5) q(1) by simp
  from walk_level_ok[OF Suc.prems(1,2) q(2) Suc.prems(4) len Suc.prems(6) Suc.prems(7)[unfolded q(1)] r, of k al]
  obtain c al1 s1 gs1 ps1 where l: "walk_level True (P2K t) i k al s = Some ((Table (P2K c), al1), s1)"
    and c: "child (ent (pmem s1) t i) = Some c" and w1: "walked s s1 (Suc d) n t gs1 ps1"
    and ps: "ps = gs1 @ ps1" "length gs1 \<le> 1" and hu: "no_huge (pmem s1) c r" by blast
  have t1: "tree_ok (pmem s1) (Suc d) n t" and f1: "free_list s1 ps1" and g1: "grabbed s s1 gs1"
    and pg: "pages (pmem s1) (Suc d) n t = pages (pmem s) (Suc d) n t \<union> paddrs s gs1"
    using w1 by (auto simp: walked_def extends_def)
  have "paddrs s gs1 \<inter> paddrs s ps1 = {}"
    using free_list_disjoint[OF Suc.prems(4)[unfolded ps(1)]] .
  then have fr: "paddrs s1 ps1 \<inter> pages (pmem s1) (Suc d) n t = {}"
    unfolding pg paddrs_grabbed[OF g1] using Suc.prems(6) ps(1) by (auto simp del: pages.simps)
  then have "paddrs s1 ps1 \<inter> pages (pmem s1) d 512 c = {}" using pages_child[OF q(2) c, of d] by blast
  moreover have "tree_ok (pmem s1) d 512 c" "length r < length ps1"
    using t1 q(1,2) c Suc.prems(5) ps by auto
  ultimately obtain u al2 s2 gs2 ps2 where w: "walk_rec True (Suc k) (P2K c) r al1 s1 = Some ((Table (P2K u), al2), s2)"
    "reach (pmem s2) c r = Some u" "walked s1 s2 d 512 c gs2 ps2" "ps1 = gs2 @ ps2" "length gs2 \<le> length r"
    using Suc.IH[OF _ order_refl q(3) f1 _ _ hu] by blast
  have "paddrs s1 gs2 \<inter> pages (pmem s1) (Suc d) n t = {}" using fr w(4) by auto
  note w2 = walked_lift[OF t1 Suc.prems(2) q(2) c w(3) this]
  have "ent (pmem s2) t i = ent (pmem s1) t i"
    using lift_frame(1)[OF t1 Suc.prems(2) q(2) c _ \<open>paddrs s1 gs2 \<inter> _ = {}\<close>] w(3) q(2)
    by (auto simp: walked_def extends_def)
  then have "reach (pmem s2) t q = Some u" using c w(2) q(1) by simp
  moreover have "walk_rec True k (P2K t) q al s = Some ((Table (P2K u), al2), s2)" using l w(1) q(1) by simp
  moreover have "walked s s2 (Suc d) n t (gs1 @ gs2) ps2" using walked_trans[OF w1 w2] .
  moreover have "ps = (gs1 @ gs2) @ ps2" "length (gs1 @ gs2) \<le> length q" using ps w(4,5) q(1) by auto
  ultimately show ?case by blast
qed

text \<open>The four indices of a virtual address.\<close>

definition va_indices :: "u64 \<Rightarrow> nat list" where
  "va_indices va = va_path va @ [unat (PT_INDEX va)]"

lemma unat_index: "unat (x AND 511 :: u64) < 512"
proof -
  have "x AND 511 < 2 ^ 9"
    using and_mask_less'[of 9 x] by (simp add: mask_eq_exp_minus_1)
  then show ?thesis by (simp add: word_less_nat_alt)
qed

lemma index_page:
  assumes "12 \<le> k"
  shows "drop_bit k (PAGEADDR va) = drop_bit k va"
  using assms by (intro u64_eqI) (auto simp: PAGEADDR_def PGMASK_eq bit_simps dest: bit_imp_le_length)

lemma length_va_path [simp]: "length (va_path va) = 3"
  by (simp add: va_path_def)

lemma va_indices_page [simp]:
  "va_path (PAGEADDR va) = va_path va" "PT_INDEX (PAGEADDR va) = PT_INDEX va"
  by (simp_all add: va_path_def PML4_INDEX_def PDPT_INDEX_def PD_INDEX_def PT_INDEX_def
      PML4_OFFSET_def PDPT_OFFSET_def PD_OFFSET_def PT_OFFSET_def index_page)

lemma path_ok_va:
  "unat (PML4_INDEX va) < n \<Longrightarrow> path_ok 3 n (va_path va @ [unat (PT_INDEX va)])"
  by (simp add: path_ok_def va_path_def PDPT_INDEX_def PD_INDEX_def PT_INDEX_def unat_index)

lemma reach_is_page: "is_page t \<Longrightarrow> reach m t q = Some u \<Longrightarrow> is_page u"
  by (induction q arbitrary: t) (auto split: option.splits dest: child_is_page)

lemma lookup_reach: "lookup m t (q @ [i]) = (case reach m t q of None \<Rightarrow> 0 | Some u \<Rightarrow> ent m u i)"
proof (induction q arbitrary: t)
  case (Cons j q)
  then show ?case by (cases q) (auto split: option.splits)
qed simp

lemma walk_pgtbl_ok:
  assumes "tree_ok (pmem s) 3 n (sub pgtbl)" and "n \<le> 512" and va: "unat (PML4_INDEX va) < n"
    and "free_list s ps" and "3 < length ps" and "paddrs s ps \<inter> pages (pmem s) 3 n (sub pgtbl) = {}"
    and "no_huge (pmem s) (sub pgtbl) (va_path va)"
  obtains u s' gs ps' where
    "walk_pgtbl pgtbl va True s = Some ((0, Some (P2K (slot (P2K u) (unat (PT_INDEX va))))), s')"
    "reach (pmem s') (sub pgtbl) (va_path va) = Some u" "walked s s' 3 n (sub pgtbl) gs ps'"
    "ps = gs @ ps'" "length gs \<le> 3"
proof -
  have "length (va_path va) < length ps" using assms(5) by simp
  from walk_rec_ok[OF assms(1,2) path_ok_va[OF va] assms(4) this assms(6,7), of 0 "[0, 0, 0]"]
  obtain u al' s' gs ps' where
    w: "walk_rec True 0 (P2K (sub pgtbl)) (va_path va) [0, 0, 0] s = Some ((Table (P2K u), al'), s')" and
    r: "reach (pmem s') (sub pgtbl) (va_path va) = Some u" "walked s s' 3 n (sub pgtbl) gs ps'"
    "ps = gs @ ps'" "length gs \<le> 3" by auto
  have "walk_pgtbl pgtbl va True s = Some ((0, Some (P2K (slot (P2K u) (unat (PT_INDEX va))))), s')"
    using w by (simp add: walk_pgtbl_rec PAGEKADDR_eq)
  then show thesis using r by (rule that)
qed

lemma walk_rec_readonly:
  assumes "is_page t" and "\<forall>i \<in> set q. i < 512" and "no_huge (pmem s) t q"
  shows "walk_rec False k (P2K t) q al s =
    Some ((case reach (pmem s) t q of None \<Rightarrow> Unmapped | Some u \<Rightarrow> Table (P2K u), al), s)"
  using assms
proof (induction q arbitrary: t k)
  case (Cons i q)
  have e: "walk_level False (P2K t) i k al s =
      Some ((case child (ent (pmem s) t i) of None \<Rightarrow> Unmapped | Some c \<Rightarrow> Table (P2K c), al), s)"
    using Cons.prems by (simp add: walk_level_def page_simps child_def)
  show ?case
  proof (cases "child (ent (pmem s) t i)")
    case None
    then show ?thesis by (simp add: e)
  next
    case (Some c)
    then show ?thesis
      using Cons.IH[of c "Suc k"] Cons.prems child_is_page[OF Some] by (simp add: e)
  qed
qed simp

section \<open>Properties of the walk\<close>

text \<open>
  C2: With at least four free pages, \<^verbatim>\<open>walk_pgtbl\<close> with \<^verbatim>\<open>create\<close> returns 0 and a pointer to the
  entry of the address: the mapping of every address is as before the call, at most three pages
  were taken from the head of the free list, the tables still form a tree, and a store through the
  pointer changes the mapping of exactly that address.
\<close>
theorem walk_pgtbl_create:
  assumes "tree_ok (pmem s) 3 n (sub pgtbl)" and "n \<le> 512" and "unat (PML4_INDEX va) < n"
    and "free_list s ps" and "3 < length ps" and "paddrs s ps \<inter> pages (pmem s) 3 n (sub pgtbl) = {}"
    and "no_huge (pmem s) (sub pgtbl) (va_path va)"
  shows "\<exists>pte s' gs ps'. walk_pgtbl pgtbl va True s = Some ((0, Some pte), s') \<and>
    ps = gs @ ps' \<and> length gs \<le> 3 \<and> free_list s' ps' \<and> tree_ok (pmem s') 3 n (sub pgtbl) \<and>
    kload64 s' pte = lookup (pmem s) (sub pgtbl) (va_indices va) \<and>
    (\<forall>p. path_ok 3 n p \<longrightarrow> lookup (pmem s') (sub pgtbl) p = lookup (pmem s) (sub pgtbl) p) \<and>
    (\<forall>p v. path_ok 3 n p \<longrightarrow> lookup (pmem (kstore64 pte v s')) (sub pgtbl) p =
       (if p = va_indices va then v else lookup (pmem s) (sub pgtbl) p))"
proof -
  let ?t = "sub pgtbl" and ?i = "unat (PT_INDEX va)"
  from walk_pgtbl_ok[OF assms] obtain u s' gs ps' where
    w: "walk_pgtbl pgtbl va True s = Some ((0, Some (P2K (slot (P2K u) ?i))), s')" and
    r: "reach (pmem s') ?t (va_path va) = Some u" and
    wd: "walked s s' 3 n ?t gs ps'" and ps: "ps = gs @ ps'" "length gs \<le> 3" .
  have u: "is_page u" "?i < 512"
    using reach_is_page[OF _ r] by (simp_all add: PT_INDEX_def unat_index)
  have t: "tree_ok (pmem s') 3 n ?t" and lk: "path_ok 3 n p \<Longrightarrow> lookup (pmem s') ?t p = lookup (pmem s) ?t p" for p
    using wd by (auto simp: walked_def extends_def)
  have "lookup (pmem (kstore64 (P2K (slot (P2K u) ?i)) v s')) ?t p =
      (if p = va_indices va then v else lookup (pmem s) ?t p)" if "path_ok 3 n p" for p v
    using store_reach[OF t assms(2) path_ok_va[OF assms(3)] r] that lk[OF that]
    by (simp add: kstore64_def K2P_slot[OF u] va_indices_def)
  moreover have "kload64 s' (P2K (slot (P2K u) ?i)) = lookup (pmem s) ?t (va_indices va)"
    using lk[OF path_ok_va[OF assms(3)]] r
    by (simp add: kload64_def K2P_slot[OF u] va_indices_def lookup_reach)
  ultimately show ?thesis using w ps t lk wd by (force simp: walked_def)
qed

lemma ex_empty_root: "tree_ok (pmem ex_kmem) 3 256 0x100000 \<and> pages (pmem ex_kmem) 3 256 0x100000 = {0x100000} \<and>
    no_huge (pmem ex_kmem) 0x100000 (va_path va)"
proof -
  have z: "pmem ex_kmem x = 0" for x by (simp add: ex_kmem_def)
  have p: "is_page 0x100000" by (simp add: is_page_def mask_eq_exp_minus_1)
  have "\<forall>i \<in> set (va_path va). i < 512"
    by (simp add: va_path_def PML4_INDEX_def PDPT_INDEX_def PD_INDEX_def unat_index)
  then show ?thesis
    using zero_page_tree(1,2)[of "0x100000" "pmem ex_kmem" 256 3]
      no_huge_zero[of "0x100000" "pmem ex_kmem" "va_path va"] z p by simp
qed

lemma ex_fresh: "paddrs ex_kmem ex_free \<inter> {0x100000} = {}"
  by (simp add: ex_kmem_def ex_free_def ex_pi_def)

theorem walk_pgtbl_create_witness:
  "\<exists>pte s'. walk_pgtbl 0x100000 0x400000 True ex_kmem = Some ((0, Some pte), s') \<and>
     kload64 s' pte = 0 \<and> lookup (pmem (kstore64 pte 7 s')) 0x100000 [0, 0, 2, 0] = 7"
proof -
  have sub: "sub 0x100000 = 0x100000" by (simp add: sub_def mask_eq_exp_minus_1)
  have va: "va_indices 0x400000 = [0, 0, 2, 0]" "unat (PML4_INDEX 0x400000) < 256"
    by (simp_all add: va_indices_def va_path_def PML4_INDEX_def PDPT_INDEX_def PD_INDEX_def PT_INDEX_def
        PML4_OFFSET_def PDPT_OFFSET_def PD_OFFSET_def PT_OFFSET_def drop_bit_eq_div)
  have "path_ok 3 256 [0, 0, 2, 0]" by (simp add: path_ok_def)
  moreover have "lookup (pmem ex_kmem) 0x100000 [0, 0, 2, 0] = 0"
    using zero_page_tree(3)[of "0x100000" "pmem ex_kmem" 256 3 "[0, 0, 2, 0]"] calculation
    by (simp add: ex_kmem_def is_page_def mask_eq_exp_minus_1)
  moreover have "3 < length ex_free" by (simp add: ex_free_def)
  ultimately show ?thesis
    using walk_pgtbl_create[of ex_kmem 256 "0x100000" "0x400000" ex_free] ex_free_list ex_fresh ex_empty_root va
    unfolding sub by auto
qed

text \<open>
  C31: Without \<^verbatim>\<open>create\<close>, \<^verbatim>\<open>walk_pgtbl\<close> changes nothing; it passes out the entry's address when the
  upper levels exist, and \<^verbatim>\<open>-EFAULT\<close> with a NULL pointer when they do not.
\<close>
theorem walk_pgtbl_readonly:
  assumes "no_huge (pmem s) (sub pgtbl) (va_path va)"
  shows "walk_pgtbl pgtbl va False s = Some (case reach (pmem s) (sub pgtbl) (va_path va) of
      None \<Rightarrow> ((- EFAULT, Some 0), s)
    | Some u \<Rightarrow> ((0, Some (P2K (slot (P2K u) (unat (PT_INDEX va))))), s))"
proof -
  have "\<forall>i \<in> set (va_path va). i < 512"
    by (simp add: va_path_def PML4_INDEX_def PDPT_INDEX_def PD_INDEX_def unat_index)
  from walk_rec_readonly[OF is_page_sub this assms, of 0 "[0, 0, 0]"] show ?thesis
    by (simp add: walk_pgtbl_rec PAGEKADDR_eq walk_unmapped_def split: option.splits)
qed

theorem walk_pgtbl_readonly_witness:
  "walk_pgtbl 0x100000 0x400000 False ex_kmem = Some ((- EFAULT, Some 0), ex_kmem)"
proof -
  have sub: "sub 0x100000 = 0x100000" by (simp add: sub_def mask_eq_exp_minus_1)
  have "reach (pmem ex_kmem) 0x100000 (va_path 0x400000) = None"
    by (simp add: va_path_def ex_kmem_def child_def load64_zero)
  then show ?thesis
    using walk_pgtbl_readonly[of ex_kmem "0x100000" "0x400000"] ex_empty_root by (simp add: sub)
qed

end
