(* ===== verification/PgClear.thy ===== *)
theory PgClear
  imports Pgtbl
begin

text \<open>
  Correctness of \<^verbatim>\<open>pgtbl_clearflags\<close>: the flags of every present user mapping are cleared, every
  other mapping and every table stays as it is.  The four nested loops are one recursion over the
  depth of the tree.
\<close>

section \<open>The nested loops as a recursion\<close>

fun clear_tree :: "u64 \<Rightarrow> nat \<Rightarrow> nat \<Rightarrow> u64 \<Rightarrow> 'a kmem_scheme \<Rightarrow> 'a kmem_scheme option" where
  "clear_tree msk 0 n tbl = for_present n tbl (\<lambda>i e s. Some (kstore64 (slot tbl i) (e AND msk) s))"
| "clear_tree msk (Suc d) n tbl = for_present n tbl (\<lambda>_ e. clear_tree msk d 512 (PAGEKADDR e))"

lemma pgtbl_clearflags_tree:
  "pgtbl_clearflags pgtbl flags s = clear_tree (NOT (flags AND PTE_FLAGS)) 3 256 (PAGEKADDR pgtbl) s"
  by (simp add: pgtbl_clearflags_def clear_pdpt_def clear_pd_def clear_pt_def numeral_3_eq_3 Let_def)

text \<open>No huge page anywhere in a tree.\<close>

fun small :: "bytes \<Rightarrow> nat \<Rightarrow> nat \<Rightarrow> u64 \<Rightarrow> bool" where
  "small m 0 n t \<longleftrightarrow> True"
| "small m (Suc d) n t \<longleftrightarrow>
     (\<forall>i < n. ent m t i AND PTE_P \<noteq> 0 \<longrightarrow> ent m t i AND PDPTE_PS = 0 \<and> small m d 512 (sub (ent m t i)))"

lemma small_child:
  assumes "small m (Suc d) n t" and "i < n"
  shows "child (ent m t i) = (if ent m t i AND PTE_P = 0 then None else Some (sub (ent m t i)))"
  using assms by (auto simp: child_def)

lemma agree_small:
  "agree (pages m d n t) m m' \<Longrightarrow> is_page t \<Longrightarrow> n \<le> 512 \<Longrightarrow> small m d n t \<Longrightarrow> small m' d n t"
proof (induction m d n t rule: small.induct)
  case (2 m d n t)
  have e: "ent m' t i = ent m t i" if "i < n" for i
    using 2(2,3,4) that by (intro agree_ent[of "pages m (Suc d) n t"]) auto
  have "small m' d 512 (sub (ent m t i))" if "i < n" "ent m t i AND PTE_P \<noteq> 0" for i
  proof -
    have c: "child (ent m t i) = Some (sub (ent m t i))" using small_child[OF 2(5) that(1)] that(2) by simp
    show ?thesis
      using 2(1)[OF that agree_mono[OF 2(2) pages_child[OF that(1) c]]] 2(5) that by simp
  qed
  then show ?case using e 2(5) by simp
qed simp

definition clr :: "u64 \<Rightarrow> u64 \<Rightarrow> u64" where
  "clr msk e = (if e AND PTE_P = 0 then e else e AND msk)"

lemma clr_0 [simp]: "clr msk 0 = 0"
  by (simp add: clr_def)

text \<open>What clearing leaves behind, up to index \<open>k\<close> of the root.\<close>

definition cleared :: "u64 \<Rightarrow> nat \<Rightarrow> bytes \<Rightarrow> bytes \<Rightarrow> nat \<Rightarrow> nat \<Rightarrow> u64 \<Rightarrow> bool" where
  "cleared msk k m m' d n t \<longleftrightarrow> extends m m' d n t {} \<and>
     (\<forall>p. path_ok d n p \<longrightarrow> lookup m' t p = (if hd p < k then clr msk (lookup m t p) else lookup m t p))"

lemma cleared_0: "tree_ok m d n t \<Longrightarrow> cleared msk 0 m m d n t"
  by (simp add: cleared_def extends_refl)

lemma clear_leaf_step:
  assumes "tree_ok m 0 n t" and "n \<le> 512" and "i < n" and "cleared msk i m m' 0 n t"
  shows "cleared msk (Suc i) m (if ent m' t i AND PTE_P = 0 then m' else store64 m' (slot t i) (ent m' t i AND msk)) 0 n t"
proof -
  have e: "ent m' t j = (if j < i then clr msk (ent m t j) else ent m t j)" if "j < n" for j
    using assms(4) that by (auto simp: cleared_def extends_def path_ok_0)
  have tm: "tree_ok m' 0 n t" using assms(1) by simp
  show ?thesis
    using assms(3,4) store_leaf[OF tm assms(2,3)] e
    by (auto simp: cleared_def path_ok_0 clr_def extends_def less_Suc_eq agree_def)
qed

lemma clear_leaves:
  assumes "tree_ok (pmem s) 0 n t" and "n \<le> 512"
  shows "\<exists>m'. clear_tree msk 0 n (P2K t) s = Some (s\<lparr>pmem := m'\<rparr>) \<and> cleared msk n (pmem s) m' 0 n t"
proof -
  let ?P = "\<lambda>i s'. \<exists>m'. s' = s\<lparr>pmem := m'\<rparr> \<and> cleared msk i (pmem s) m' 0 n t"
  let ?f = "\<lambda>i s. if kload64 s (slot (P2K t) i) AND PTE_P = 0 then Some s
    else Some (kstore64 (slot (P2K t) i) (kload64 s (slot (P2K t) i) AND msk) s)"
  have "\<exists>s'. for_loop [0..<n] ?f s = Some s' \<and> ?P n s'"
  proof (rule for_loop_inv[where P = ?P])
    show "?P 0 s" using cleared_0[OF assms(1)] by (intro exI[of _ "pmem s"]) simp
    fix i s' assume i: "i < n" and "?P i s'"
    then obtain m' where m': "s' = s\<lparr>pmem := m'\<rparr>" "cleared msk i (pmem s) m' 0 n t" by blast
    note step = clear_leaf_step[OF assms i m'(2)]
    show "\<exists>s''. ?f i s' = Some s'' \<and> ?P (Suc i) s''"
      using step assms i by (cases "ent m' t i AND PTE_P = 0") (auto simp: m' page_simps)
  qed simp
  then show ?thesis by (auto simp: for_present_def)
qed

text \<open>One subtree.\<close>

definition pending :: "nat \<Rightarrow> bytes \<Rightarrow> bytes \<Rightarrow> nat \<Rightarrow> nat \<Rightarrow> u64 \<Rightarrow> bool" where
  "pending k m m' d n t \<longleftrightarrow> (\<forall>j < n. ent m' t j = ent m t j) \<and>
     (\<forall>j c. k \<le> j \<longrightarrow> j < n \<longrightarrow> child (ent m t j) = Some c \<longrightarrow> agree (pages m d 512 c) m m')"

lemma clear_node_step:
  assumes ok: "tree_ok m (Suc d) n t" and n: "n \<le> 512" and i: "i < n" "child (ent m t i) = Some c"
    and cl: "cleared msk i m m' (Suc d) n t" and pe: "pending i m m' d n t"
    and sub: "cleared msk 512 m' m'' d 512 c"
  shows "cleared msk (Suc i) m m'' (Suc d) n t" and "pending (Suc i) m m'' d n t"
proof -
  have ok': "tree_ok m' (Suc d) n t" and pg: "pages m' (Suc d) n t = pages m (Suc d) n t"
    and i': "child (ent m' t i) = Some c" using cl pe i by (auto simp: cleared_def extends_def pending_def)
  have ex: "extends m' m'' d 512 c {}" and ag: "agree (- (pages m' d 512 c \<union> {})) m' m''"
    using sub by (auto simp: cleared_def extends_def)
  note fr = lift_frame[OF ok' n i(1) i' ag Int_empty_left]
  show "pending (Suc i) m m'' d n t"
    unfolding pending_def
  proof (intro conjI allI impI)
    fix j assume "j < n"
    then show "ent m'' t j = ent m t j" using fr(1) pe by (simp add: pending_def)
  next
    fix j c' assume j: "Suc i \<le> j" "j < n" "child (ent m t j) = Some c'"
    then have a: "agree (pages m d 512 c') m m'" using pe by (auto simp: pending_def dest: Suc_leD)
    moreover have "pages m' d 512 c' = pages m d 512 c'" using agree_pages[OF a] child_is_page[OF j(3)] by simp
    moreover have "agree (pages m' d 512 c') m' m''" using fr(2)[OF j(2), of c'] j pe by (simp add: pending_def)
    ultimately show "agree (pages m d 512 c') m m''" by (metis agree_trans)
  qed
  have "lookup m'' t p = (if hd p < Suc i then clr msk (lookup m t p) else lookup m t p)" if "path_ok (Suc d) n p" for p
  proof -
    from that obtain j q where p: "p = j # q" "j < n" "path_ok d 512 q" by (auto simp: path_ok_Suc)
    have "hd q < 512" using p(3) by (simp add: path_ok_def)
    then have "lookup m'' c q = clr msk (lookup m' c q)" using sub p(3) by (simp add: cleared_def)
    moreover have "lookup m' t p = (if j < i then clr msk (lookup m t p) else lookup m t p)"
      using cl that p(1) by (simp add: cleared_def)
    ultimately show ?thesis
      using lift_lookup[OF ok' n i(1) i' ag Int_empty_left p(2,3)] p(1,3) i'
      by (cases "j = i") (auto simp: lookup_Cons less_Suc_eq)
  qed
  then show "cleared msk (Suc i) m m'' (Suc d) n t"
    using cl lift_extends[OF ok' n i(1) i' ex Int_empty_left] extends_trans[of m m' "Suc d" n t "{}" m'' "{}"]
    by (simp add: cleared_def)
qed

lemma clear_node_skip:
  assumes "i < n" "child (ent m t i) = None" and "cleared msk i m m' (Suc d) n t" and "pending i m m' d n t"
  shows "cleared msk (Suc i) m m' (Suc d) n t" and "pending (Suc i) m m' d n t"
proof -
  have "lookup m' t p = (if hd p < Suc i then clr msk (lookup m t p) else lookup m t p)" if "path_ok (Suc d) n p" for p
  proof -
    from that obtain j q where p: "p = j # q" "path_ok d 512 q" by (auto simp: path_ok_Suc)
    have "lookup m t p = 0" if "j = i" using that p assms(2) by (simp add: lookup_Cons)
    then show ?thesis using assms(3) that p by (cases "j = i") (auto simp: cleared_def less_Suc_eq)
  qed
  then show "cleared msk (Suc i) m m' (Suc d) n t" using assms(3) by (simp add: cleared_def)
  show "pending (Suc i) m m' d n t" using assms(4) by (auto simp: pending_def dest: Suc_leD)
qed

lemma clear_tree_ok:
  assumes "tree_ok (pmem s) d n t" and "n \<le> 512" and "small (pmem s) d n t"
  shows "\<exists>m'. clear_tree msk d n (P2K t) s = Some (s\<lparr>pmem := m'\<rparr>) \<and> cleared msk n (pmem s) m' d n t"
  using assms
proof (induction d arbitrary: n t s)
  case 0
  then show ?case by (intro clear_leaves)
next
  case (Suc d)
  let ?m = "pmem s"
  let ?P = "\<lambda>i s'. \<exists>m'. s' = s\<lparr>pmem := m'\<rparr> \<and> cleared msk i ?m m' (Suc d) n t \<and> pending i ?m m' d n t"
  let ?f = "\<lambda>i s. if kload64 s (slot (P2K t) i) AND PTE_P = 0 then Some s
    else clear_tree msk d 512 (PAGEKADDR (kload64 s (slot (P2K t) i))) s"
  have t: "is_page t" using Suc.prems(1) by simp
  have "\<exists>s'. for_loop [0..<n] ?f s = Some s' \<and> ?P n s'"
  proof (rule for_loop_inv[where P = ?P])
    show "?P 0 s"
      using cleared_0[OF Suc.prems(1)] by (intro exI[of _ ?m]) (simp add: pending_def agree_def)
    fix i s' assume i: "i < n" and "?P i s'"
    then obtain m' where m': "s' = s\<lparr>pmem := m'\<rparr>" and cl: "cleared msk i ?m m' (Suc d) n t"
      and pe: "pending i ?m m' d n t" by blast
    have e: "kload64 s' (slot (P2K t) i) = ent ?m t i"
      using i pe t Suc.prems(2) by (simp add: m' page_simps pending_def)
    show "\<exists>s''. ?f i s' = Some s'' \<and> ?P (Suc i) s''"
    proof (cases "child (ent ?m t i)")
      case None
      then have "ent ?m t i AND PTE_P = 0" using small_child[OF Suc.prems(3) i] by (simp split: if_splits)
      then show ?thesis using clear_node_skip[OF i None cl pe] m' e by auto
    next
      case (Some c)
      then have np: "ent ?m t i AND PTE_P \<noteq> 0" and c: "sub (ent ?m t i) = c"
        by (auto simp: child_def split: if_splits)
      have ag: "agree (pages ?m d 512 c) ?m m'" using pe i Some by (auto simp: pending_def)
      have "tree_ok m' d 512 c" "small m' d 512 c"
        using agree_tree_ok[OF ag] agree_small[OF ag] Suc.prems(1,3) i Some np c child_is_page[OF Some] by auto
      then obtain m'' where "clear_tree msk d 512 (P2K c) s' = Some (s'\<lparr>pmem := m''\<rparr>)" "cleared msk 512 m' m'' d 512 c"
        using Suc.IH[of s' 512 c] m' by auto
      then show ?thesis
        using clear_node_step[OF Suc.prems(1,2) i Some cl pe] np c e m' by (auto simp: PAGEKADDR_eq)
    qed
  qed simp
  then show ?case by (auto simp: for_present_def)
qed

section \<open>A table with one mapping, for the witnesses\<close>

definition ex_tbl :: bytes where
  "ex_tbl = store64 (store64 (store64 (store64 (\<lambda>_. 0)
     (slot 0x207000 0) 0x208007) (slot 0x208000 0) 0x209007) (slot 0x209000 2) 0x20A007)
     (slot 0x20A000 0) 0x206007"

lemma is_page_lits [simp]: "is_page 0x207000" "is_page 0x208000" "is_page 0x209000" "is_page 0x20A000"
  by (simp_all add: is_page_def mask_eq_exp_minus_1)

lemma ex_tbl_ent:
  assumes "i < 512"
  shows "ent ex_tbl 0x207000 i = (if i = 0 then 0x208007 else 0)"
    and "ent ex_tbl 0x208000 i = (if i = 0 then 0x209007 else 0)"
    and "ent ex_tbl 0x209000 i = (if i = 2 then 0x20A007 else 0)"
    and "ent ex_tbl 0x20A000 i = (if i = 0 then 0x206007 else 0)"
  using assms by (simp_all add: ex_tbl_def mem64.load_store slot_inj load64_zero)

lemma ex_tbl_child:
  assumes "i < 512"
  shows "child (ent ex_tbl 0x207000 i) = (if i = 0 then Some 0x208000 else None)"
    and "child (ent ex_tbl 0x208000 i) = (if i = 0 then Some 0x209000 else None)"
    and "child (ent ex_tbl 0x209000 i) = (if i = 2 then Some 0x20A000 else None)"
  using assms by (simp_all add: ex_tbl_ent child_def PTE_P_def PDPTE_PS_def sub_def mask_eq_exp_minus_1)

lemma single_child:
  assumes c: "\<And>i. i < n \<Longrightarrow> child (ent m t i) = (if i = k then Some c else None)" and "k < n" and "is_page t"
    and "tree_ok m d 512 c" and "t \<notin> pages m d 512 c"
  shows "tree_ok m (Suc d) n t" and "pages m (Suc d) n t = insert t (pages m d 512 c)"
proof -
  have "child (ent m t i) = Some c' \<longleftrightarrow> i = k \<and> c' = c" if "i < n" for i c' using c[OF that] by auto
  then show "tree_ok m (Suc d) n t" "pages m (Suc d) n t = insert t (pages m d 512 c)"
    using assms(2-) by (auto simp del: pages.simps simp: in_pages_Suc cong: conj_cong)
qed

lemma ex_tbl_tree2: "tree_ok ex_tbl (Suc 0) 512 0x209000" "pages ex_tbl (Suc 0) 512 0x209000 = {0x209000, 0x20A000}"
  using single_child[of 512 ex_tbl "0x209000" 2 "0x20A000" 0] by (simp_all add: ex_tbl_child del: pages.simps(2) tree_ok.simps(2))

lemma ex_tbl_tree3:
  "tree_ok ex_tbl (Suc (Suc 0)) 512 0x208000" "pages ex_tbl (Suc (Suc 0)) 512 0x208000 = {0x208000, 0x209000, 0x20A000}"
  using single_child[of 512 ex_tbl "0x208000" 0 "0x209000" "Suc 0"]
  by (simp_all add: ex_tbl_child ex_tbl_tree2 del: pages.simps(2) tree_ok.simps(2))

lemma ex_tbl_tree:
  "tree_ok ex_tbl 3 256 0x207000" "pages ex_tbl 3 256 0x207000 = {0x207000, 0x208000, 0x209000, 0x20A000}"
  using single_child[of 256 ex_tbl "0x207000" 0 "0x208000" "Suc (Suc 0)"]
  by (simp_all add: ex_tbl_child ex_tbl_tree3 numeral_3_eq_3 del: pages.simps(2) tree_ok.simps(2))

lemma ex_tbl_small: "small ex_tbl 3 256 0x207000"
proof -
  have s: "sub 0x208007 = 0x208000" "sub 0x209007 = 0x209000" "sub 0x20A007 = 0x20A000"
    by (simp_all add: sub_def mask_eq_exp_minus_1)
  have 1: "small ex_tbl (Suc 0) 512 0x209000" by (simp add: ex_tbl_ent PTE_P_def PDPTE_PS_def)
  have 2: "small ex_tbl (Suc (Suc 0)) 512 0x208000"
    by (subst small.simps) (use 1 in \<open>auto simp: ex_tbl_ent PTE_P_def PDPTE_PS_def s simp del: small.simps split: if_splits\<close>)
  show ?thesis
    unfolding numeral_3_eq_3 by (subst small.simps) (use 2 in \<open>auto simp: ex_tbl_ent PTE_P_def PDPTE_PS_def s simp del: small.simps split: if_splits\<close>)
qed

lemma ex_tbl_lookup: "lookup ex_tbl 0x207000 [0, 0, 2, 0] = 0x206007"
  using ex_tbl_child[of 0] ex_tbl_child(3)[of 2] ex_tbl_ent(4)[of 0] by simp

section \<open>The property\<close>

text \<open>
  C3: \<^verbatim>\<open>pgtbl_clearflags\<close> returns, clears the given permission flags in every present last-level entry
  of user space and leaves every other entry, every upper table and all memory outside the tables
  unchanged.
\<close>
theorem pgtbl_clearflags_clears:
  assumes "tree_ok (pmem s) 3 256 (sub pgtbl)" and "small (pmem s) 3 256 (sub pgtbl)"
  shows "\<exists>m'. pgtbl_clearflags pgtbl flags s = Some (s\<lparr>pmem := m'\<rparr>) \<and> tree_ok m' 3 256 (sub pgtbl) \<and>
    pages m' 3 256 (sub pgtbl) = pages (pmem s) 3 256 (sub pgtbl) \<and>
    (\<forall>p e. path_ok 3 256 p \<and> e = lookup (pmem s) (sub pgtbl) p \<longrightarrow>
       lookup m' (sub pgtbl) p = (if e AND PTE_P = 0 then e else e AND NOT (flags AND PTE_FLAGS))) \<and>
    (\<forall>x. page_of x \<notin> pages (pmem s) 3 256 (sub pgtbl) \<longrightarrow> m' x = pmem s x)"
proof -
  from clear_tree_ok[OF assms(1) _ assms(2), of "NOT (flags AND PTE_FLAGS)"] obtain m' where
    m': "pgtbl_clearflags pgtbl flags s = Some (s\<lparr>pmem := m'\<rparr>)"
    "cleared (NOT (flags AND PTE_FLAGS)) 256 (pmem s) m' 3 256 (sub pgtbl)"
    by (auto simp: pgtbl_clearflags_tree PAGEKADDR_eq)
  have "hd p < 256" if "path_ok 3 256 p" for p using that by (simp add: path_ok_def)
  then show ?thesis
    using m' by (intro exI[of _ m']) (auto simp: cleared_def extends_def agree_def clr_def)
qed

theorem pgtbl_clearflags_clears_witness:
  "\<exists>m'. pgtbl_clearflags 0x207000 PTE_W (ex_kmem\<lparr>pmem := ex_tbl\<rparr>) = Some (ex_kmem\<lparr>pmem := m'\<rparr>) \<and>
     lookup m' 0x207000 [0, 0, 2, 0] = 0x206005"
proof -
  have sub: "sub 0x207000 = 0x207000" by (simp add: sub_def mask_eq_exp_minus_1)
  have "path_ok 3 256 [0, 0, 2, 0]" by (simp add: path_ok_def)
  then show ?thesis
    using pgtbl_clearflags_clears[of "ex_kmem\<lparr>pmem := ex_tbl\<rparr>" "0x207000" PTE_W] ex_tbl_tree(1) ex_tbl_small
      ex_tbl_lookup
    by (force simp: sub PTE_P_def PTE_W_def PTE_FLAGS_def simp del: lookup.simps)
qed

end
