(* ===== verification/PgFree.thy ===== *)
theory PgFree
  imports PgClear
begin

text \<open>
  Correctness of \<^verbatim>\<open>free_pgtbl\<close>.  It is shown equal to releasing, in order, an explicit list of page
  descriptors: the tables of the user half in post-order, and with \<^verbatim>\<open>FREE_PGTBL_DECREF\<close> the mapped
  frames as often as they are mapped.  A lemma on such sequences of releases then says which pages
  end up on the free list and what happens to the reference counts.
\<close>

section \<open>Sequences of releases\<close>

primrec free_seq :: "u64 list \<Rightarrow> 'a kmem_scheme \<Rightarrow> 'a kmem_scheme option" where
  "free_seq [] s = Some s"
| "free_seq (p # ps) s = do { s \<leftarrow> free_page p s; free_seq ps s }"

lemma free_seq_append: "free_seq (xs @ ys) s = do { s \<leftarrow> free_seq xs s; free_seq ys s }"
  by (induction xs arbitrary: s) (simp_all split: bind_split)

lemma free_page_frame:
  "free_page p s = Some s' \<Longrightarrow> pmem s' = pmem s \<and> k_pageinfo s' = k_pageinfo s"
  by (auto simp: free_page_def Let_def set_ref_next_def split: if_splits)

lemma free_seq_frame:
  "free_seq ps s = Some s' \<Longrightarrow> pmem s' = pmem s \<and> k_pageinfo s' = k_pageinfo s"
  by (induction ps arbitrary: s) (auto split: bind_splits dest!: free_page_frame)

lemma free_page_used:
  assumes "free_list s ps" and "page_ok s p" and "0 < ref (page_infos s p)"
  obtains s' where "free_page p s = Some s'" and "\<And>r. page_ok s' r = page_ok s r"
    and "\<And>r. r \<noteq> p \<Longrightarrow> page_infos s' r = page_infos s r"
    and "if ref (page_infos s p) = 1 then free_list s' (p # ps)
      else free_list s' ps \<and> ref (page_infos s' p) = ref (page_infos s p) - 1"
proof (cases "ref (page_infos s p) = 1")
  case True
  then show thesis
    using free_page_held[of s ps p] assms that[of "released p s"]
    by (auto simp: page_held_def) (auto simp: released_def)
next
  case False
  have "p \<notin> set ps" using assms page_used_not_free[of s ps p] by (simp add: page_used_def)
  from free_list_set_ref[OF assms(1) this] False assms show thesis
    using free_page_shared[of s p] that[of "set_ref_next p (ref_next (page_infos s p) - 1) s"]
    by (auto simp: free_list_def set_ref_next_def ref_def sint_dec page_ok_def PA2PGINFO_def)
qed

text \<open>
  If every page has at least as many references as it is released, all releases succeed: the pages
  whose references are used up go to the free list, the others lose as many references.
\<close>

lemma free_seq_ok:
  assumes "free_list s ps" and "\<And>q. q \<in> set qs \<Longrightarrow> page_ok s q \<and> int (count_list qs q) \<le> ref (page_infos s q)"
  shows "\<exists>s' fs. free_seq qs s = Some s' \<and> free_list s' (fs @ ps) \<and> distinct fs \<and>
    set fs = {q \<in> set qs. ref (page_infos s q) = int (count_list qs q)} \<and>
    (\<forall>q. q \<notin> set fs \<longrightarrow> ref (page_infos s' q) = ref (page_infos s q) - int (count_list qs q))"
  using assms
proof (induction qs arbitrary: s ps)
  case Nil
  then show ?case by (intro exI[of _ s] exI[of _ "[]"]) simp
next
  case (Cons p qs)
  have p: "page_ok s p" "1 + int (count_list qs p) \<le> ref (page_infos s p)" using Cons.prems(2)[of p] by auto
  then have pos: "0 < ref (page_infos s p)" by linarith
  from free_page_used[OF Cons.prems(1) p(1) pos] obtain s1 where
    s1: "free_page p s = Some s1" "\<And>r. page_ok s1 r = page_ok s r" "\<And>r. r \<noteq> p \<Longrightarrow> page_infos s1 r = page_infos s r"
    and fl: "if ref (page_infos s p) = 1 then free_list s1 (p # ps)
      else free_list s1 ps \<and> ref (page_infos s1 p) = ref (page_infos s p) - 1" by blast
  show ?case
  proof (cases "ref (page_infos s p) = 1")
    case True
    then have np: "p \<notin> set qs" and fl1: "free_list s1 (p # ps)"
      using p(2) fl count_list_0_iff[of qs p] by auto
    have "page_ok s1 q \<and> int (count_list qs q) \<le> ref (page_infos s1 q)" if "q \<in> set qs" for q
      using Cons.prems(2)[of q] that np s1(2,3)[of q] by (auto split: if_splits)
    from Cons.IH[OF fl1 this] obtain s' fs where I: "free_seq qs s1 = Some s'" "free_list s' (fs @ p # ps)"
      "distinct fs" "set fs = {q \<in> set qs. ref (page_infos s1 q) = int (count_list qs q)}"
      "\<forall>q. q \<notin> set fs \<longrightarrow> ref (page_infos s' q) = ref (page_infos s1 q) - int (count_list qs q)" by blast
    have "set (fs @ [p]) = {q \<in> set (p # qs). ref (page_infos s q) = int (count_list (p # qs) q)}"
      using I(4) np s1(3) True count_list_0_iff[of qs p] by (auto split: if_splits)
    moreover have "free_list s' ((fs @ [p]) @ ps)" "distinct (fs @ [p])" using I np by auto
    moreover have "\<forall>q. q \<notin> set (fs @ [p]) \<longrightarrow> ref (page_infos s' q) = ref (page_infos s q) - int (count_list (p # qs) q)"
      using I(5) s1(3) by auto
    ultimately show ?thesis using s1(1) I(1) by (intro exI[of _ s'] exI[of _ "fs @ [p]"]) simp
  next
    case False
    then have fl1: "free_list s1 ps" "ref (page_infos s1 p) = ref (page_infos s p) - 1" using fl by auto
    have r: "ref (page_infos s1 q) = ref (page_infos s q) - (if q = p then 1 else 0)" for q
      using fl1(2) s1(3)[of q] by auto
    have "page_ok s1 q \<and> int (count_list qs q) \<le> ref (page_infos s1 q)" if "q \<in> set qs" for q
      using Cons.prems(2)[of q] that s1(2)[of q] r[of q] by (auto split: if_splits)
    from Cons.IH[OF fl1(1) this] obtain s' fs where I: "free_seq qs s1 = Some s'" "free_list s' (fs @ ps)"
      "distinct fs" "set fs = {q \<in> set qs. ref (page_infos s1 q) = int (count_list qs q)}"
      "\<forall>q. q \<notin> set fs \<longrightarrow> ref (page_infos s' q) = ref (page_infos s1 q) - int (count_list qs q)" by blast
    have "set fs = {q \<in> set (p # qs). ref (page_infos s q) = int (count_list (p # qs) q)}"
      using I(4) r False p(2) count_list_0_iff[of qs p] by (auto split: if_splits)
    moreover have "\<forall>q. q \<notin> set fs \<longrightarrow> ref (page_infos s' q) = ref (page_infos s q) - int (count_list (p # qs) q)"
      using I(5) r by auto
    ultimately show ?thesis using s1(1) I(1-3) by (intro exI[of _ s'] exI[of _ fs]) simp
  qed
qed

section \<open>The pages that are released\<close>

abbreviation present :: "u64 \<Rightarrow> bool" where
  "present e \<equiv> e AND PTE_P \<noteq> 0"

fun free_tree :: "u64 \<Rightarrow> nat \<Rightarrow> nat \<Rightarrow> u64 \<Rightarrow> 'a kmem_scheme \<Rightarrow> 'a kmem_scheme option" where
  "free_tree flags 0 n tbl =
     for_present n tbl (\<lambda>_ e s. if flags AND FREE_PGTBL_DECREF \<noteq> 0 then free_page (PA2PGINFO s e) s else Some s)"
| "free_tree flags (Suc d) n tbl =
     for_present n tbl (\<lambda>_ e s. do { s \<leftarrow> free_tree flags d 512 (PAGEKADDR e) s; free_page (KA2PGINFO s (PAGEKADDR e)) s })"

lemma free_pgtbl_tree:
  "free_pgtbl pgtbl flags s = (if pgtbl AND mask 12 \<noteq> 0 then None
     else do { s \<leftarrow> free_tree flags 3 256 (P2K pgtbl) s; free_page (KA2PGINFO s (P2K pgtbl)) s })"
  by (simp add: free_pgtbl_def free_pdpt_def free_pd_def free_pt_def numeral_3_eq_3 Let_def MASK_eq PGSHIFT_def)

text \<open>The descriptors of the pages below a table, in the order they are released.\<close>

fun rel_list :: "u64 \<Rightarrow> bytes \<Rightarrow> bool \<Rightarrow> nat \<Rightarrow> nat \<Rightarrow> u64 \<Rightarrow> u64 list" where
  "rel_list kpi m dec 0 n t =
     (if dec then concat (map (\<lambda>i. if present (ent m t i) then [kpi + 16 * drop_bit 12 (ent m t i)] else []) [0..<n]) else [])"
| "rel_list kpi m dec (Suc d) n t =
     concat (map (\<lambda>i. if present (ent m t i)
       then rel_list kpi m dec d 512 (sub (ent m t i)) @ [kpi + 16 * drop_bit 12 (sub (ent m t i))] else []) [0..<n])"

lemma for_loop_free:
  assumes "\<And>i u. i \<in> set xs \<Longrightarrow> pmem u = pmem s \<Longrightarrow> k_pageinfo u = k_pageinfo s \<Longrightarrow> f i u = free_seq (g i) u"
  shows "for_loop xs f s = free_seq (concat (map g xs)) s"
  using assms
proof (induction xs arbitrary: s)
  case (Cons i xs)
  have "for_loop xs f u = free_seq (concat (map g xs)) u" if "free_seq (g i) s = Some u" for u
    using free_seq_frame[OF that] Cons.prems by (intro Cons.IH) auto
  then show ?case
    using Cons.prems[of i s] by (cases "free_seq (g i) s") (simp_all add: free_seq_append)
qed simp

lemma K2P_page: "is_page t \<Longrightarrow> K2P t = t"
  by (rule K2P_id) (simp add: is_page_def)

lemma free_tree_list:
  fixes s :: "'a kmem_scheme"
  assumes "is_page t" and "n \<le> 512"
  shows "free_tree flags d n (P2K t) s =
    free_seq (rel_list (k_pageinfo s) (pmem s) (flags AND FREE_PGTBL_DECREF \<noteq> 0) d n t) s"
  using assms
proof (induction d arbitrary: n t s)
  case 0
  show ?case
  proof (cases "flags AND FREE_PGTBL_DECREF = 0")
    case True
    have "for_loop xs (\<lambda>i s. if kload64 s (slot (P2K t) i) AND PTE_P = 0 then Some s else Some s) s = Some s" for xs
      by (induction xs) simp_all
    then show ?thesis using True by (simp add: for_present_def)
  next
    case False
    have "for_loop [0..<n] (\<lambda>i u. if kload64 u (slot (P2K t) i) AND PTE_P = 0 then Some u
        else free_page (PA2PGINFO u (kload64 u (slot (P2K t) i))) u) s =
      free_seq (concat (map (\<lambda>i. if present (ent (pmem s) t i)
        then [k_pageinfo s + 16 * drop_bit 12 (ent (pmem s) t i)] else []) [0..<n])) s"
      using 0 by (intro for_loop_free) (simp add: page_simps PA2PGINFO_def)
    then show ?thesis using False by (simp add: for_present_def)
  qed
next
  case (Suc d)
  let ?dec = "flags AND FREE_PGTBL_DECREF \<noteq> 0"
  let ?c = "\<lambda>i. sub (ent (pmem s) t i)"
  have "do { s' \<leftarrow> free_tree flags d 512 (P2K (?c i)) u; free_page (KA2PGINFO s' (P2K (?c i))) s' } =
      free_seq (rel_list (k_pageinfo s) (pmem s) ?dec d 512 (?c i) @ [k_pageinfo s + 16 * drop_bit 12 (?c i)]) u"
    if "pmem u = pmem s" "k_pageinfo u = k_pageinfo s" for i and u :: "'a kmem_scheme"
    using that Suc.IH[of "?c i" 512 u]
    by (auto simp: free_seq_append KA2PGINFO_def K2P_page dest!: free_seq_frame split: bind_splits)
  then have "for_loop [0..<n] (\<lambda>i u. if kload64 u (slot (P2K t) i) AND PTE_P = 0 then Some u
      else do { s' \<leftarrow> free_tree flags d 512 (PAGEKADDR (kload64 u (slot (P2K t) i))) u;
                free_page (KA2PGINFO s' (PAGEKADDR (kload64 u (slot (P2K t) i)))) s' }) s =
    free_seq (concat (map (\<lambda>i. if present (ent (pmem s) t i)
      then rel_list (k_pageinfo s) (pmem s) ?dec d 512 (?c i) @ [k_pageinfo s + 16 * drop_bit 12 (?c i)] else []) [0..<n])) s"
    using Suc.prems by (intro for_loop_free) (simp add: page_simps)
  then show ?case by (simp add: for_present_def)
qed

lemma P2K_P2K [simp]: "P2K (P2K t) = P2K t"
  by (simp add: P2K_def or.assoc)

lemma P2K_aligned: "is_page t \<Longrightarrow> P2K t AND mask 12 = 0"
  by (auto simp: is_page_def word_and_mask_eq_0_iff P2K_def KERNBASE_eq bit_simps)

text \<open>The callers pass the physical address of the table or its address in the direct map.\<close>

lemma free_pgtbl_list:
  assumes "is_page t" and "pgtbl \<in> {t, P2K t}"
  shows "free_pgtbl pgtbl flags s =
    free_seq (rel_list (k_pageinfo s) (pmem s) (flags AND FREE_PGTBL_DECREF \<noteq> 0) 3 256 t @ [PA2PGINFO s t]) s"
proof -
  have "pgtbl AND mask 12 = 0" "P2K pgtbl = P2K t"
    using assms P2K_aligned[OF assms(1)] by (auto simp: is_page_def)
  then show ?thesis
    using assms(1)
    by (auto simp: free_pgtbl_tree free_tree_list free_seq_append KA2PGINFO_def PA2PGINFO_def K2P_page
        dest!: free_seq_frame split: bind_splits)
qed

section \<open>The tables of a tree are released once each\<close>

abbreviation desc :: "u64 \<Rightarrow> u64 \<Rightarrow> u64" where
  "desc kpi x \<equiv> kpi + 16 * drop_bit 12 x"

lemma desc_inj:
  assumes "is_page x" and "is_page y" and "desc kpi x = desc kpi y"
  shows "x = y"
proof -
  have lt: "unat (drop_bit 12 z :: u64) < 2 ^ 35" if "is_page z" for z
  proof -
    have "unat z < 2 ^ 47" using that by (simp add: is_page_def word_less_nat_alt)
    then show ?thesis unfolding unat_drop_bit_eq by (simp add: drop_bit_eq_div less_mult_imp_div_less)
  qed
  have "unat (16 * drop_bit 12 x) = unat (16 * drop_bit 12 y)" using assms(3) by simp
  then have d: "drop_bit 12 x = drop_bit 12 y"
    using lt[OF assms(1)] lt[OF assms(2)] by (simp add: unat_word_ariths word_unat_eq_iff)
  have "bit x i = bit y i" for i
  proof (cases "i < 12")
    case True
    then show ?thesis using assms by (simp add: is_page_def word_and_mask_eq_0_iff)
  next
    case False
    then have "bit (drop_bit 12 x) (i - 12) = bit (drop_bit 12 y) (i - 12)" using d by simp
    then show ?thesis using False by (simp add: bit_drop_bit_eq)
  qed
  then show ?thesis by (simp add: bit_eq_iff)
qed

lemma desc_inj_on: "inj_on (desc kpi) {x. is_page x}"
  by (auto intro: inj_onI desc_inj)

lemma distinct_concat_map:
  assumes "distinct xs" and "\<And>i. i \<in> set xs \<Longrightarrow> distinct (g i)"
    and "\<And>i j. i \<in> set xs \<Longrightarrow> j \<in> set xs \<Longrightarrow> i \<noteq> j \<Longrightarrow> set (g i) \<inter> set (g j) = {}"
  shows "distinct (concat (map g xs))"
  using assms
proof (induction xs)
  case (Cons x xs)
  have "set (g x) \<inter> set (g j) = {}" if "j \<in> set xs" for j using that Cons.prems(1,3) by auto
  then have "set (g x) \<inter> set (concat (map g xs)) = {}" by auto
  moreover have "distinct (concat (map g xs))" using Cons.prems by (intro Cons.IH) auto
  ultimately show ?case using Cons.prems(2)[of x] by simp
qed simp

lemma count_list_distinct: "distinct xs \<Longrightarrow> count_list xs q = (if q \<in> set xs then 1 else 0)"
  by (induction xs) auto

lemma rel_list_tables:
  assumes "tree_ok m d n t" and "small m d n t" and "n \<le> 512"
  shows "set (rel_list kpi m False d n t) = desc kpi ` (pages m d n t - {t}) \<and> distinct (rel_list kpi m False d n t)"
  using assms
proof (induction d arbitrary: n t)
  case (Suc d)
  define g where "g i = (if present (ent m t i)
    then rel_list kpi m False d 512 (sub (ent m t i)) @ [desc kpi (sub (ent m t i))] else [])" for i
  define P where "P i = (case child (ent m t i) of None \<Rightarrow> {} | Some c \<Rightarrow> pages m d 512 c)" for i
  have pg: "P i \<subseteq> {x. is_page x}" for i
    by (auto simp: P_def split: option.splits dest: child_is_page intro: pages_is_page)
  have g: "set (g i) = desc kpi ` P i \<and> distinct (g i)" if "i < n" for i
  proof (cases "present (ent m t i)")
    case True
    let ?c = "sub (ent m t i)"
    have c: "child (ent m t i) = Some ?c" using small_child[OF Suc.prems(2) that] True by simp
    have ok: "tree_ok m d 512 ?c" "small m d 512 ?c" using Suc.prems c that True by auto
    have gP: "g i = rel_list kpi m False d 512 ?c @ [desc kpi ?c]" "P i = insert ?c (pages m d 512 ?c - {?c})"
      using True c insert_Diff[OF root_in_pages[of ?c m d 512]] by (simp_all add: g_def P_def)
    have "pages m d 512 ?c - {?c} \<subseteq> {x. is_page x}" using pages_is_page[of ?c _ m d 512] by auto
    then have "desc kpi ?c \<notin> desc kpi ` (pages m d 512 ?c - {?c})"
      using inj_on_image_mem_iff[OF desc_inj_on, of ?c "pages m d 512 ?c - {?c}" kpi] by simp
    then show ?thesis using Suc.IH[OF ok order_refl] by (simp add: gP del: insert_Diff_single)
  next
    case False
    then show ?thesis using small_child[OF Suc.prems(2) that] by (simp add: g_def P_def)
  qed
  have "set (g i) \<inter> set (g j) = {}" if "i < n" "j < n" "i \<noteq> j" for i j
  proof -
    have "P i \<inter> P j = {}" using Suc.prems(1) that by (auto simp: P_def split: option.splits)
    then show ?thesis using g that inj_on_image_Int[OF desc_inj_on pg pg, of kpi i j] by simp
  qed
  then have "distinct (concat (map g [0..<n]))" using g by (intro distinct_concat_map) auto
  moreover have "pages m (Suc d) n t - {t} = (\<Union>i < n. P i)"
    using Suc.prems(1) by (auto simp: P_def split: option.splits)
  moreover have "set (concat (map g [0..<n])) = (\<Union>i < n. desc kpi ` P i)"
    using g by (auto simp: atLeast0LessThan intro!: SUP_cong)
  moreover have "rel_list kpi m False (Suc d) n t = concat (map g [0..<n])"
    by (simp add: g_def[abs_def])
  ultimately show ?case by (simp add: image_UN)
qed simp

section \<open>Properties\<close>

text \<open>
  C4: \<^verbatim>\<open>free_pgtbl\<close> with \<^verbatim>\<open>FREE_PGTBL_DECREF\<close> drops one reference of a frame for every mapping of it in
  the user half, and the reference of every table: if each page has at least as many references as
  are dropped the call returns, the pages that lose their last reference are exactly the new pages
  of the free list, the others keep the remaining references, and no memory is written.
\<close>
theorem free_pgtbl_decref:
  fixes s :: "'a kmem_scheme"
  assumes "free_list s ps" and "is_page t" and "pgtbl \<in> {t, P2K t}"
    and "qs = rel_list (k_pageinfo s) (pmem s) True 3 256 t @ [PA2PGINFO s t]"
    and "\<forall>q \<in> set qs. page_ok s q \<and> int (count_list qs q) \<le> ref (page_infos s q)"
  shows "\<exists>s' fs. free_pgtbl pgtbl FREE_PGTBL_DECREF s = Some s' \<and> pmem s' = pmem s \<and>
    free_list s' (fs @ ps) \<and> distinct fs \<and>
    set fs = {q \<in> set qs. ref (page_infos s q) = int (count_list qs q)} \<and>
    (\<forall>q. q \<notin> set fs \<longrightarrow> ref (page_infos s' q) = ref (page_infos s q) - int (count_list qs q))"
proof -
  have "FREE_PGTBL_DECREF AND FREE_PGTBL_DECREF \<noteq> 0" by (simp add: FREE_PGTBL_DECREF_def)
  then have eq: "free_pgtbl pgtbl FREE_PGTBL_DECREF s = free_seq qs s"
    unfolding assms(4) by (subst free_pgtbl_list[OF assms(2,3)]) (simp del: rel_list.simps)
  from free_seq_ok[OF assms(1)] assms(5) obtain s' fs where s': "free_seq qs s = Some s'" "free_list s' (fs @ ps)"
    "distinct fs" "set fs = {q \<in> set qs. ref (page_infos s q) = int (count_list qs q)}"
    "\<forall>q. q \<notin> set fs \<longrightarrow> ref (page_infos s' q) = ref (page_infos s q) - int (count_list qs q)" by blast
  moreover have "pmem s' = pmem s" using free_seq_frame[OF s'(1)] by simp
  ultimately show ?thesis using eq by (intro exI[of _ s'] exI[of _ fs]) simp
qed

text \<open>
  C5: \<^verbatim>\<open>free_pgtbl\<close> without flags returns every table of a well-formed user half to the free list
  exactly once and touches no mapped frame.
\<close>
theorem free_pgtbl_tables:
  fixes s :: "'a kmem_scheme"
  assumes "free_list s ps" and "tree_ok (pmem s) 3 256 t" and "small (pmem s) 3 256 t"
    and "pgtbl \<in> {t, P2K t}"
    and "\<forall>x \<in> pages (pmem s) 3 256 t. page_held s (PA2PGINFO s x)"
  shows "\<exists>s' fs. free_pgtbl pgtbl 0 s = Some s' \<and> pmem s' = pmem s \<and> free_list s' (fs @ ps) \<and>
    distinct fs \<and> set fs = PA2PGINFO s ` pages (pmem s) 3 256 t \<and>
    (\<forall>q. q \<notin> set fs \<longrightarrow> ref (page_infos s' q) = ref (page_infos s q))"
proof -
  have t: "is_page t" using tree_ok_is_page[OF assms(2)] .
  define qs where "qs = rel_list (k_pageinfo s) (pmem s) False 3 256 t @ [PA2PGINFO s t]"
  let ?R = "pages (pmem s) 3 256 t"
  have "PA2PGINFO s = desc (k_pageinfo s)" by (rule ext) (simp add: PA2PGINFO_def)
  then have rl: "set (rel_list (k_pageinfo s) (pmem s) False 3 256 t) = PA2PGINFO s ` (?R - {t})"
    "distinct (rel_list (k_pageinfo s) (pmem s) False 3 256 t)" and inj: "inj_on (PA2PGINFO s) {x. is_page x}"
    using rel_list_tables[OF assms(2,3), of "k_pageinfo s"] desc_inj_on[of "k_pageinfo s"] by simp_all
  have "PA2PGINFO s t \<notin> PA2PGINFO s ` (?R - {t})"
    using inj_on_image_mem_iff[OF inj, of t "?R - {t}"] t pages_is_page[OF t] by auto
  then have qs: "set qs = PA2PGINFO s ` ?R" "distinct qs"
    using rl by (auto simp: qs_def simp del: pages.simps)
  have held: "page_ok s q \<and> ref (page_infos s q) = 1" if "q \<in> set qs" for q
    using assms(5) that by (auto simp: qs page_held_def)
  have cnt: "int (count_list qs q) = (if q \<in> set qs then 1 else 0)" for q
    using qs(2) by (simp add: count_list_distinct)
  have "free_pgtbl pgtbl 0 s = free_seq qs s"
    using t assms(4) by (simp add: free_pgtbl_list qs_def)
  moreover have "page_ok s q \<and> int (count_list qs q) \<le> ref (page_infos s q)" if "q \<in> set qs" for q
    using held[OF that] cnt[of q] that by simp
  from free_seq_ok[OF assms(1) this] obtain s' fs where s': "free_seq qs s = Some s'" "free_list s' (fs @ ps)"
    "distinct fs" "set fs = {q \<in> set qs. ref (page_infos s q) = int (count_list qs q)}"
    "\<forall>q. q \<notin> set fs \<longrightarrow> ref (page_infos s' q) = ref (page_infos s q) - int (count_list qs q)" by blast
  moreover have fs: "set fs = PA2PGINFO s ` ?R" using s'(4) held cnt qs(1) by (simp del: pages.simps cong: conj_cong)
  moreover have "\<forall>q. q \<notin> set fs \<longrightarrow> ref (page_infos s' q) = ref (page_infos s q)"
    using s'(5) cnt qs(1) fs by simp
  ultimately show ?thesis using free_seq_frame[of qs s s'] by (intro exI[of _ s'] exI[of _ fs]) (simp del: pages.simps)
qed

section \<open>Witnesses\<close>

lemma concat_single:
  assumes "k < n" and "\<And>i. i < n \<Longrightarrow> g i = (if i = k then xs else [])"
  shows "concat (map g [0..<n]) = xs"
proof -
  have "concat (map g [0..<m]) = (if k < m then xs else [])" if "m \<le> n" for m
    using that assms(2) by (induction m) auto
  then show ?thesis using assms(1) by simp
qed

lemma ex_rel_list:
  "rel_list kpi ex_tbl dec 3 256 0x207000 =
     (if dec then [desc kpi 0x206007] else []) @ [desc kpi 0x20A000, desc kpi 0x209000, desc kpi 0x208000]"
proof -
  have s: "sub 0x208007 = 0x208000" "sub 0x209007 = 0x209000" "sub 0x20A007 = 0x20A000"
    by (simp_all add: sub_def mask_eq_exp_minus_1)
  have 0: "rel_list kpi ex_tbl dec 0 512 0x20A000 = (if dec then [desc kpi 0x206007] else [])"
    using concat_single[of 0 512 _ "[desc kpi 0x206007]"] by (simp add: ex_tbl_ent PTE_P_def)
  have 1: "rel_list kpi ex_tbl dec (Suc 0) 512 0x209000 = (if dec then [desc kpi 0x206007] else []) @ [desc kpi 0x20A000]"
    unfolding rel_list.simps(2)
    by (rule concat_single[of 2]) (simp_all add: ex_tbl_ent PTE_P_def 0 s del: rel_list.simps)
  have 2: "rel_list kpi ex_tbl dec (Suc (Suc 0)) 512 0x208000 =
      (if dec then [desc kpi 0x206007] else []) @ [desc kpi 0x20A000, desc kpi 0x209000]"
    by (subst rel_list.simps(2), rule concat_single[of 0]) (simp_all add: ex_tbl_ent PTE_P_def 1 s del: rel_list.simps)
  show ?thesis
    unfolding numeral_3_eq_3
    by (subst rel_list.simps(2), rule concat_single[of 0]) (simp_all add: ex_tbl_ent PTE_P_def 2 s del: rel_list.simps)
qed

definition ex_space :: kmem where
  "ex_space = ex_kmem\<lparr>pmem := ex_tbl\<rparr>"

lemma ex_space_sel [simp]: "pmem ex_space = ex_tbl" "page_infos ex_space = page_infos ex_kmem"
    "k_pageinfo ex_space = 0xFFFF800000100000"
  by (simp_all add: ex_space_def ex_kmem_def)

lemma ex_space_free [simp]: "free_list ex_space ex_free"
  using ex_free_list by (simp add: ex_space_def)

lemma ex_held: "\<forall>x \<in> {0x206000, 0x207000, 0x208000, 0x209000, 0x20A000}. page_held ex_space (PA2PGINFO ex_space x)"
  by (simp add: page_held_def page_ok_def ref_def PA2PGINFO_def ex_space_def ex_kmem_def ex_pi_def K2P_def MASK_def mask_eq_exp_minus_1)

theorem free_pgtbl_decref_witness:
  "\<exists>s' fs. free_pgtbl 0x207000 FREE_PGTBL_DECREF ex_space = Some s' \<and> free_list s' (fs @ ex_free) \<and>
     set fs = {ex_pi 0x206, ex_pi 0x207, ex_pi 0x208, ex_pi 0x209, ex_pi 0x20A}"
proof -
  define qs where "qs = rel_list (k_pageinfo ex_space) (pmem ex_space) True 3 256 0x207000 @ [PA2PGINFO ex_space 0x207000]"
  have qs: "qs = [ex_pi 0x206, ex_pi 0x20A, ex_pi 0x209, ex_pi 0x208, ex_pi 0x207]"
    by (simp add: qs_def ex_rel_list PA2PGINFO_def ex_pi_def del: rel_list.simps)
  have "\<forall>q \<in> set qs. page_ok ex_space q \<and> ref (page_infos ex_space q) = 1"
    using ex_held by (simp add: qs page_held_def PA2PGINFO_def ex_pi_def)
  moreover have "distinct qs" by (simp add: qs ex_pi_def)
  ultimately have ok: "\<forall>q \<in> set qs. page_ok ex_space q \<and> int (count_list qs q) \<le> ref (page_infos ex_space q)"
    and "{q \<in> set qs. ref (page_infos ex_space q) = int (count_list qs q)} = set qs"
    by (auto simp: count_list_distinct)
  then show ?thesis
    using free_pgtbl_decref[of ex_space ex_free "0x207000" "0x207000" qs, OF _ _ _ qs_def ok]
    by (auto simp: qs)
qed

theorem free_pgtbl_tables_witness:
  "\<exists>s' fs. free_pgtbl 0x207000 0 ex_space = Some s' \<and> free_list s' (fs @ ex_free) \<and>
     set fs = PA2PGINFO ex_space ` {0x207000, 0x208000, 0x209000, 0x20A000}"
  using free_pgtbl_tables[of ex_space ex_free "0x207000" "0x207000"] ex_tbl_tree ex_tbl_small ex_held
  by auto

end
