(* ===== verification/Proc.thy ===== *)
theory Proc
  imports Pgtbl
begin

text \<open>
  Process control blocks: the data of \<^verbatim>\<open>kernel/proc.h\<close>, \<^verbatim>\<open>kernel/fs/fs.h\<close> and \<^verbatim>\<open>kernel/fs/pipe.h\<close>, the
  kernel state that the later theories share, and the operations of \<^verbatim>\<open>kernel/proc.c\<close> that set up and
  address processes.

  A pointer into the array \<^verbatim>\<open>procs\<close> is the index of the process, NULL is \<^term>\<open>None\<close>.  The pipe that
  lives in a page is found under the page's kernel address.  An access outside a fixed-size array has
  no defined behaviour in C and is \<^term>\<open>None\<close> like any other end of the kernel.
\<close>

section \<open>Data\<close>

definition NPROCS :: nat where "NPROCS = 1024"
definition NARGS :: nat where "NARGS = 16"
definition ARGLEN :: nat where "ARGLEN = 256"

datatype proc_state = CLOSE | READY | RUNNING | PENDING | ZOMBIE

record proc_context =
  rax :: u64
  rcx :: u64
  rdx :: u64
  rbx :: u64
  rdi :: u64
  rsi :: u64
  rbp :: u64
  zero_slot :: u64
  r8 :: u64
  r9 :: u64
  r10 :: u64
  r11 :: u64
  r12 :: u64
  r13 :: u64
  r14 :: u64
  r15 :: u64
  vecnum :: u64
  errno :: u64
  rip :: u64
  cs :: u64
  rflags :: u64
  rsp :: u64
  ss :: u64

text \<open>The FXSAVE area; \<open>fx_regs\<close> are its 24 registers \<^verbatim>\<open>mm0\<close> to \<^verbatim>\<open>xmm15\<close> as (lo, hi).\<close>

record fx_context =
  FCW :: u16
  CSW :: u16
  FTW :: u8
  FOP :: u16
  FPU_IP1 :: u32
  FPU_IP2 :: u32
  FPU_DP1 :: u32
  FPU_DP2 :: u32
  MXCSR :: u32
  MXCSR_MASK :: u32
  fx_regs :: "nat \<Rightarrow> u64 \<times> u64"

definition MXCSR_MASKALL :: u32 where
  "MXCSR_MASKALL = ucast (push_bit 7 (MASK 6))"

text \<open>File types, as stored in \<^verbatim>\<open>file_desc.file_type\<close>.\<close>

definition FT_KBD :: u8 where "FT_KBD = 1"
definition FT_SCREEN :: u8 where "FT_SCREEN = 2"
definition FT_DIR :: u8 where "FT_DIR = 3"
definition FT_RPIPE :: u8 where "FT_RPIPE = 4"
definition FT_WPIPE :: u8 where "FT_WPIPE = 5"
definition FT_REG :: u8 where "FT_REG = 6"

text \<open>
  \<^verbatim>\<open>meta\<close> is the union of the three metadata structs, one 64-bit word: the pipe pointer, or the two
  32-bit halves of the exFAT metadata.  \<^verbatim>\<open>path\<close> is the string in the path buffer.
\<close>

record file_desc =
  file_len :: u64
  read_ptr :: u64
  meta :: u64
  path :: "u8 list"
  path_len :: u64
  inuse :: bool
  file_type :: u8

definition meta_pipe :: "file_desc \<Rightarrow> u64" where
  "meta_pipe f = meta f"

definition head_cluster :: "file_desc \<Rightarrow> u32" where
  "head_cluster f = ucast (meta f)"

definition use_fat :: "file_desc \<Rightarrow> u32" where
  "use_fat f = ucast (drop_bit 32 (meta f))"

definition meta_exfat :: "u32 \<Rightarrow> u32 \<Rightarrow> u64" where
  "meta_exfat hc uf = ucast hc OR push_bit 32 (ucast uf)"

record proc =
  ctx :: proc_context
  pgtbl :: u64
  p_pgtbl :: u64
  pid :: u64
  state :: proc_state
  exec_time :: u64
  pwd :: file_desc
  wait_status :: u64
  end_umem :: u64
  parent :: "nat option"
  living_child :: "nat option"
  zombie_child :: "nat option"
  prev_sibling :: "nat option"
  next_sibling :: "nat option"
  exit_val :: u64
  waiting :: bool
  fdesc :: "nat \<Rightarrow> file_desc"

record pipe =
  rref :: u32
  wref :: u32
  p_head :: u32
  p_len :: u32
  rsiz :: u32
  wptr :: u32
  wsiz :: u32
  reader :: "nat option"
  writer :: "nat option"
  rbuf :: u64
  wbuf :: u64
  p_buf :: "nat \<Rightarrow> u8"

text \<open>All-zero values, what \<^verbatim>\<open>memset(.., 0, ..)\<close> leaves.\<close>

definition zero_context :: proc_context where
  "zero_context = \<lparr>rax = 0, rcx = 0, rdx = 0, rbx = 0, rdi = 0, rsi = 0, rbp = 0, zero_slot = 0,
     r8 = 0, r9 = 0, r10 = 0, r11 = 0, r12 = 0, r13 = 0, r14 = 0, r15 = 0, vecnum = 0, errno = 0,
     rip = 0, cs = 0, rflags = 0, rsp = 0, ss = 0\<rparr>"

definition zero_fx :: fx_context where
  "zero_fx = \<lparr>FCW = 0, CSW = 0, FTW = 0, FOP = 0, FPU_IP1 = 0, FPU_IP2 = 0, FPU_DP1 = 0, FPU_DP2 = 0,
     MXCSR = 0, MXCSR_MASK = 0, fx_regs = (\<lambda>_. (0, 0))\<rparr>"

definition zero_fdesc :: file_desc where
  "zero_fdesc = \<lparr>file_len = 0, read_ptr = 0, meta = 0, path = [], path_len = 0, inuse = False, file_type = 0\<rparr>"

definition zero_proc :: proc where
  "zero_proc = \<lparr>ctx = zero_context, pgtbl = 0, p_pgtbl = 0, pid = 0, state = CLOSE, exec_time = 0,
     pwd = zero_fdesc, wait_status = 0, end_umem = 0, parent = None, living_child = None, zombie_child = None,
     prev_sibling = None, next_sibling = None, exit_val = 0, waiting = False, fdesc = (\<lambda>_. zero_fdesc)\<rparr>"

definition zero_pipe :: pipe where
  "zero_pipe = \<lparr>rref = 0, wref = 0, p_head = 0, p_len = 0, rsiz = 0, wptr = 0, wsiz = 0,
     reader = None, writer = None, rbuf = 0, wbuf = 0, p_buf = (\<lambda>_. 0)\<rparr>"

section \<open>Kernel state\<close>

record kstate = kmem +
  procs :: "nat \<Rightarrow> proc"
  fx_ctxs :: "nat \<Rightarrow> fx_context"
  curproc :: "nat option"
  kbd_proc :: "nat option"
  g_pid :: u64
  pipes :: "u64 \<Rightarrow> pipe"
  kbd_buffer :: "nat \<Rightarrow> u8"
  kbd_buf_beg :: nat
  kbd_buf_siz :: nat

definition upd_proc :: "nat \<Rightarrow> (proc \<Rightarrow> proc) \<Rightarrow> 'a kstate_scheme \<Rightarrow> 'a kstate_scheme" where
  "upd_proc i f s = s\<lparr>procs := (procs s)(i := f (procs s i))\<rparr>"

definition upd_pipe :: "u64 \<Rightarrow> (pipe \<Rightarrow> pipe) \<Rightarrow> 'a kstate_scheme \<Rightarrow> 'a kstate_scheme" where
  "upd_pipe p f s = s\<lparr>pipes := (pipes s)(p := f (pipes s p))\<rparr>"

text \<open>Access to virtual memory by the kernel, through the current page table.\<close>

definition vload8 :: "'a kmem_scheme \<Rightarrow> u64 \<Rightarrow> u8 option" where
  "vload8 s va = map_option (pmem s) (translate (pmem s) (cr3 s) va)"

definition vstore8 :: "u64 \<Rightarrow> u8 \<Rightarrow> 'a kmem_scheme \<Rightarrow> 'a kmem_scheme option" where
  "vstore8 va v s = map_option (\<lambda>pa. s\<lparr>pmem := (pmem s)(pa := v)\<rparr>) (translate (pmem s) (cr3 s) va)"

definition vstore64 :: "u64 \<Rightarrow> u64 \<Rightarrow> 'a kmem_scheme \<Rightarrow> 'a kmem_scheme option" where
  "vstore64 va v s = for_loop [0..<8] (\<lambda>i. vstore8 (va + of_nat i) (ucast (drop_bit (8 * i) v))) s"

text \<open>\<^verbatim>\<open>*pte\<close> through the pointer a walk passed out, which may be NULL.\<close>

definition pte_load :: "'a kmem_scheme \<Rightarrow> u64 option \<Rightarrow> u64 option" where
  "pte_load s pte = (case pte of None \<Rightarrow> None | Some p \<Rightarrow> if p = 0 then vload64 s 0 else Some (kload64 s p))"

definition pte_store :: "u64 option \<Rightarrow> u64 \<Rightarrow> 'a kmem_scheme \<Rightarrow> 'a kmem_scheme option" where
  "pte_store pte v s =
     (case pte of None \<Rightarrow> None | Some p \<Rightarrow> if p = 0 then vstore64 0 v s else Some (kstore64 p v s))"

section \<open>Operations\<close>

definition clear_proc_context :: "proc_context \<Rightarrow> proc_context" where
  "clear_proc_context c = zero_context"

text \<open>
  \<^verbatim>\<open>sizeof(struct proc)\<close> is 19536: 184 for the context, 352 up to \<^verbatim>\<open>end_umem\<close>, 56 for the five pointers
  and the two words after them, 64 file descriptors of 296 bytes; \<^verbatim>\<open>sizeof(struct fx_context)\<close> is 512.
\<close>

definition SIZEOF_PROC :: u64 where "SIZEOF_PROC = 19536"
definition SIZEOF_FX :: u64 where "SIZEOF_FX = 512"

definition init_pcb :: "'a kstate_scheme \<Rightarrow> 'a kstate_scheme" where
  "init_pcb s =
     (let procs_addr = ROUNDUP (end_kmem s) SIZEOF_PROC;
          end1 = procs_addr + of_nat NPROCS * SIZEOF_PROC;
          fx_addr = ROUNDUP end1 PGSIZE;
          end2 = fx_addr + of_nat NPROCS * SIZEOF_FX
      in s\<lparr>procs := (\<lambda>i. if i < NPROCS then zero_proc else procs s i),
           fx_ctxs := (\<lambda>i. if i < NPROCS then zero_fx\<lparr>MXCSR := MXCSR_MASKALL\<rparr> else fx_ctxs s i),
           end_kmem := end2\<rparr>)"

function alloc_proc_from :: "nat \<Rightarrow> 'a kstate_scheme \<Rightarrow> (nat option \<times> 'a kstate_scheme) option" where
  "alloc_proc_from i s =
     (if \<not> i < NPROCS then Some (None, s)
      else if state (procs s i) \<noteq> CLOSE then alloc_proc_from (Suc i) s
      else do {
        (page, s) \<leftarrow> alloc_page FLAG_ZERO s;
        pa \<leftarrow> pi_paddr s page;
        let s = upd_proc i (\<lambda>p. p\<lparr>pgtbl := pa\<rparr>) s;
        (page, s) \<leftarrow> alloc_page FLAG_ZERO s;
        pa \<leftarrow> pi_paddr s page;
        let s = upd_proc i (\<lambda>p. p\<lparr>p_pgtbl := pa, state := PENDING\<rparr>) s;
        let s = s\<lparr>g_pid := g_pid s + 1\<rparr>;
        Some (Some i, upd_proc i (\<lambda>p. p\<lparr>pid := g_pid s\<rparr>) s)
      })"
  by pat_completeness auto
termination by (relation "measure (\<lambda>(i, s). NPROCS - i)") auto

definition alloc_proc :: "'a kstate_scheme \<Rightarrow> (nat option \<times> 'a kstate_scheme) option" where
  "alloc_proc s = alloc_proc_from 0 s"

text \<open>
  \<^verbatim>\<open>U2K\<close>: the kernel address of a user address; with \<^verbatim>\<open>write\<close> a page that is still shared is copied
  first.
\<close>

definition copy_page :: "u64 \<Rightarrow> u64 \<Rightarrow> 'a kmem_scheme \<Rightarrow> 'a kmem_scheme" where
  "copy_page dst src s =
     s\<lparr>pmem := fold (\<lambda>i m. m(K2P (dst + of_nat i) := m (K2P (src + of_nat i)))) [0..<4096] (pmem s)\<rparr>"

text \<open>The entry \<^verbatim>\<open>*pte1\<close> that the address is translated with in the end.\<close>

definition U2K_entry :: "nat \<Rightarrow> u64 \<Rightarrow> bool \<Rightarrow> 'a kstate_scheme \<Rightarrow> (u64 \<times> 'a kstate_scheme) option" where
  "U2K_entry i vaddr wr s = do {
     ((_, pte1), s) \<leftarrow> walk_pgtbl (pgtbl (procs s i)) vaddr False s;
     ((_, pte2), s) \<leftarrow> walk_pgtbl (p_pgtbl (procs s i)) vaddr False s;
     e1 \<leftarrow> pte_load s pte1;
     if e1 AND (PTE_P OR PTE_U) \<noteq> PTE_P OR PTE_U then None
     else do {
       e2 \<leftarrow> pte_load s pte2;
       if PAGEADDR e1 \<noteq> PAGEADDR e2 then None
       else if \<not> wr \<or> e1 AND PTE_FLAGS = e2 AND PTE_FLAGS then Some (e1, s)
       else if \<not> (e1 AND PTE_W = 0 \<and> e2 AND PTE_W \<noteq> 0) then None
       else let pg = PA2PGINFO s e2;
                s = set_ref_next pg (ref_next (page_infos s pg) - 1) s
            in do {
              (page, s) \<leftarrow> alloc_page 0 s;
              pa \<leftarrow> pi_paddr s page;
              let s = copy_page (PAGEKADDR pa) (PAGEKADDR e2) s;
              let e = pa OR PTE_P OR PTE_U OR PTE_W;
              s \<leftarrow> pte_store pte1 e s;
              s \<leftarrow> pte_store pte2 e s;
              e1 \<leftarrow> pte_load s pte1;
              Some (e1, s)
            }
     }
   }"

definition U2K :: "nat \<Rightarrow> u64 \<Rightarrow> bool \<Rightarrow> 'a kstate_scheme \<Rightarrow> (u64 \<times> 'a kstate_scheme) option" where
  "U2K i vaddr wr s = do {
     (e1, s) \<leftarrow> U2K_entry i vaddr wr s;
     Some (PAGEKADDR e1 OR (vaddr AND PGMASK), s)
   }"

text \<open>\<^verbatim>\<open>fxsaveq\<close> and \<^verbatim>\<open>fxrstorq\<close> move the live registers \<open>live\<close> of the processor.\<close>

definition fx_save :: "fx_context \<Rightarrow> nat \<Rightarrow> 'a kstate_scheme \<Rightarrow> 'a kstate_scheme" where
  "fx_save live i s = s\<lparr>fx_ctxs := (fx_ctxs s)(i := live)\<rparr>"

definition fx_restore :: "nat \<Rightarrow> 'a kstate_scheme \<Rightarrow> fx_context" where
  "fx_restore i s = fx_ctxs s i"

text \<open>
  \<^verbatim>\<open>run_proc\<close> makes the process current, switches to its page table and leaves the kernel with its
  saved registers: the result is the context the processor continues with.
\<close>

definition run_proc :: "nat \<Rightarrow> 'a kstate_scheme \<Rightarrow> (proc_context \<times> fx_context) \<times> 'a kstate_scheme" where
  "run_proc i s =
     (let s = s\<lparr>curproc := Some i\<rparr>;
          context = ctx (procs s i);
          fx_ctx = fx_ctxs s i;
          s = s\<lparr>cr3 := pgtbl (procs s i)\<rparr>
      in ((context, fx_ctx), s))"

section \<open>Loading a program\<close>

text \<open>Little-endian loads of \<open>n\<close> bytes through the current page table.\<close>

primrec vload_le :: "nat \<Rightarrow> 'a kmem_scheme \<Rightarrow> u64 \<Rightarrow> u64 option" where
  "vload_le 0 s va = Some 0"
| "vload_le (Suc n) s va = do {
     b \<leftarrow> vload8 s va;
     r \<leftarrow> vload_le n s (va + 1);
     Some (ucast b OR push_bit 8 r)
   }"

definition ELF_MAGIC :: u64 where "ELF_MAGIC = 0x464C457F"
definition PT_LOAD :: u64 where "PT_LOAD = 1"

text \<open>The fields of the ELF header and of a program header that the loader reads, at their offsets.\<close>

definition e_entry :: "'a kmem_scheme \<Rightarrow> u64 \<Rightarrow> u64 option" where "e_entry s h = vload_le 8 s (h + 24)"
definition e_phoff :: "'a kmem_scheme \<Rightarrow> u64 \<Rightarrow> u64 option" where "e_phoff s h = vload_le 8 s (h + 32)"
definition e_phnum :: "'a kmem_scheme \<Rightarrow> u64 \<Rightarrow> u64 option" where "e_phnum s h = vload_le 2 s (h + 56)"
definition p_type :: "'a kmem_scheme \<Rightarrow> u64 \<Rightarrow> u64 option" where "p_type s h = vload_le 4 s h"
definition p_offset :: "'a kmem_scheme \<Rightarrow> u64 \<Rightarrow> u64 option" where "p_offset s h = vload_le 8 s (h + 8)"
definition p_vaddr :: "'a kmem_scheme \<Rightarrow> u64 \<Rightarrow> u64 option" where "p_vaddr s h = vload_le 8 s (h + 16)"
definition p_filesz :: "'a kmem_scheme \<Rightarrow> u64 \<Rightarrow> u64 option" where "p_filesz s h = vload_le 8 s (h + 32)"
definition p_memsz :: "'a kmem_scheme \<Rightarrow> u64 \<Rightarrow> u64 option" where "p_memsz s h = vload_le 8 s (h + 40)"
definition SIZEOF_PHDR :: u64 where "SIZEOF_PHDR = 56"

definition check_img_format :: "u64 \<Rightarrow> 'a kmem_scheme \<Rightarrow> int option" where
  "check_img_format img s = do {
     magic \<leftarrow> vload_le 4 s img;
     Some (if magic \<noteq> ELF_MAGIC then - ENOEXEC else 0)
   }"

text \<open>The loop over the bytes of one segment; the first component is \<^verbatim>\<open>Some r\<close> for an early return.\<close>

function load_seg ::
    "nat \<Rightarrow> u64 \<Rightarrow> u64 \<Rightarrow> u64 \<Rightarrow> u64 \<Rightarrow> u64 option \<Rightarrow> 'a kstate_scheme \<Rightarrow> (int option \<times> 'a kstate_scheme) option" where
  "load_seg i src src_fileend src_memend vaddr pte s =
     (if \<not> src < src_memend then Some (None, s)
      else do {
        (r, pte, s) \<leftarrow>
          (if pte = None \<or> vaddr AND (PGSIZE - 1) = 0
           then do {
             ((ret, pte), s) \<leftarrow> walk_pgtbl (pgtbl (procs s i)) (PAGEADDR vaddr) True s;
             if ret \<noteq> 0 then do {
               s \<leftarrow> free_pgtbl (pgtbl (procs s i)) FREE_PGTBL_DECREF s;
               Some (Some (- ENOMEM), pte, s)
             } else do {
               (page, s) \<leftarrow> alloc_page FLAG_ZERO s;
               pa \<leftarrow> pi_paddr s page;
               s \<leftarrow> pte_store pte (pa OR PTE_P OR PTE_U OR PTE_W) s;
               Some (None, pte, s)
             }
           }
           else Some (None, pte, s));
        case r of
          Some e \<Rightarrow> Some (Some e, s)
        | None \<Rightarrow> do {
            s \<leftarrow> (if src \<le> src_fileend
                 then do {
                   b \<leftarrow> vload8 s src;
                   e \<leftarrow> pte_load s pte;
                   Some (s\<lparr>pmem := (pmem s)(K2P (PAGEKADDR e + (vaddr AND (PGSIZE - 1))) := b)\<rparr>)
                 }
                 else Some s);
            load_seg i (src + 1) src_fileend src_memend (vaddr + 1) pte s
          }
      })"
  by pat_completeness auto
termination
  by (relation "measure (\<lambda>(i, src, fe, me, v, p, s). unat (me - src))")
    (auto simp: not_less intro!: unat_diff_inc_less)

declare load_seg.simps [simp del] alloc_proc_from.simps [simp del]

text \<open>The loop over the program headers.\<close>

primrec load_phdrs :: "nat \<Rightarrow> nat \<Rightarrow> u64 \<Rightarrow> u64 \<Rightarrow> 'a kstate_scheme \<Rightarrow> (int \<times> 'a kstate_scheme) option" where
  "load_phdrs i 0 img phdr s = Some (0, s)"
| "load_phdrs i (Suc n) img phdr s = do {
     t \<leftarrow> p_type s phdr;
     (r, s) \<leftarrow> (if t \<noteq> PT_LOAD then Some (None, s)
       else do {
         off \<leftarrow> p_offset s phdr;
         filesz \<leftarrow> p_filesz s phdr;
         memsz \<leftarrow> p_memsz s phdr;
         vaddr \<leftarrow> p_vaddr s phdr;
         let s = upd_proc i (\<lambda>p. p\<lparr>end_umem := max (end_umem p) (vaddr + memsz)\<rparr>) s;
         load_seg i (img + off) (img + off + filesz) (img + off + memsz) vaddr None s
       });
     case r of Some e \<Rightarrow> Some (e, s) | None \<Rightarrow> load_phdrs i n img (phdr + SIZEOF_PHDR) s
   }"

definition load_img :: "u64 \<Rightarrow> nat \<Rightarrow> 'a kstate_scheme \<Rightarrow> (int \<times> 'a kstate_scheme) option" where
  "load_img img i s = do {
     magic \<leftarrow> vload_le 4 s img;
     if magic \<noteq> ELF_MAGIC then Some (- ENOEXEC, s)
     else do {
       phoff \<leftarrow> e_phoff s img;
       phnum \<leftarrow> e_phnum s img;
       load_phdrs i (unat phnum) img (img + phoff) s
     }
   }"

end
