(* ===== verification/UMem.thy ===== *)
theory UMem
  imports Proc
begin

text \<open>
  What the memory operations leave alone: none of them touches the process table, the pipes or the
  other fields that \<open>kstate\<close> adds to \<open>kmem\<close>.
\<close>

named_theorems frame \<open>memory operations keep the fields above \<open>kmem\<close>\<close>

lemma kstore64_more [simp]: "kmem.more (kstore64 p v s) = kmem.more s"
  by (simp add: kstore64_def)

lemma set_ref_next_more [simp]: "kmem.more (set_ref_next p v s) = kmem.more s"
  by (simp add: set_ref_next_def)

lemma alloc_page_more [frame]: "alloc_page f s = Some (p, s') \<Longrightarrow> kmem.more s' = kmem.more s"
  by (auto simp: alloc_page_def Let_def set_ref_next_def bind_eq_Some_conv split: if_splits)

lemma free_page_more [frame]: "free_page p s = Some s' \<Longrightarrow> kmem.more s' = kmem.more s"
  by (auto simp: free_page_def Let_def set_ref_next_def split: if_splits)

lemma walk_level_more [frame]: "walk_level c t i k al s = Some (r, s') \<Longrightarrow> kmem.more s' = kmem.more s"
  by (auto simp: walk_level_def Let_def bind_eq_Some_conv split: if_splits dest: alloc_page_more)

lemma free_alloced_more [frame]: "free_alloced ps s = Some s' \<Longrightarrow> kmem.more s' = kmem.more s"
  by (induction ps arbitrary: s) (auto simp: bind_eq_Some_conv split: if_splits dest: free_page_more)

lemma walk_rec_more: "walk_rec c k t q al s = Some ((r, al'), s') \<Longrightarrow> kmem.more s' = kmem.more s"
proof (induction q arbitrary: k t al s)
  case (Cons i q)
  from Cons.prems obtain r1 al1 s1 where w: "walk_level c t i k al s = Some ((r1, al1), s1)"
    by (auto simp: bind_eq_Some_conv)
  then show ?case
    using Cons.prems Cons.IH[of "Suc k" _ al1 s1] walk_level_more[OF w] by (cases r1) auto
qed simp

lemma walk_pgtbl_more [frame]:
  assumes "walk_pgtbl t va c s = Some (r, s')"
  shows "kmem.more s' = kmem.more s"
proof -
  from assms obtain w al u where "walk_rec c 0 (PAGEKADDR t) (va_path (PAGEADDR va)) [0, 0, 0] s = Some ((w, al), u)"
    by (auto simp: walk_pgtbl_rec bind_eq_Some_conv)
  then show ?thesis
    using assms walk_rec_more[of c 0 _ _ _ s w al u]
    by (cases w) (auto simp: walk_pgtbl_rec walk_unmapped_def walk_no_mem_def bind_eq_Some_conv dest: free_alloced_more)
qed

lemma for_present_more:
  assumes "for_present n t body s = Some s'"
    and "\<And>i e u v. body i e u = Some v \<Longrightarrow> kmem.more v = kmem.more u"
  shows "kmem.more s' = kmem.more s"
  by (rule for_loop_preserves[where P = "\<lambda>u. kmem.more u = kmem.more s", OF assms(1)[unfolded for_present_def]])
    (auto split: if_splits dest: assms(2))

lemma free_pt_more [frame]: "free_pt f t s = Some s' \<Longrightarrow> kmem.more s' = kmem.more s"
  unfolding free_pt_def by (erule for_present_more) (auto split: if_splits dest: free_page_more)

lemma free_pd_more [frame]: "free_pd f t s = Some s' \<Longrightarrow> kmem.more s' = kmem.more s"
  unfolding free_pd_def by (erule for_present_more) (auto simp: bind_eq_Some_conv dest!: free_page_more free_pt_more)

lemma free_pdpt_more [frame]: "free_pdpt f t s = Some s' \<Longrightarrow> kmem.more s' = kmem.more s"
  unfolding free_pdpt_def by (erule for_present_more) (auto simp: bind_eq_Some_conv dest!: free_page_more free_pd_more)

lemma free_pgtbl_more [frame]:
  assumes "free_pgtbl t f s = Some s'"
  shows "kmem.more s' = kmem.more s"
proof -
  from assms obtain u where u: "for_present 256 (P2K t)
      (\<lambda>_ e s. do { s \<leftarrow> free_pdpt f (PAGEKADDR e) s; free_page (KA2PGINFO s (PAGEKADDR e)) s }) s = Some u"
    "free_page (KA2PGINFO u (P2K t)) u = Some s'"
    by (auto simp: free_pgtbl_def Let_def bind_eq_Some_conv split: if_splits)
  have "kmem.more u = kmem.more s"
    by (rule for_present_more[OF u(1)]) (auto simp: bind_eq_Some_conv dest!: free_page_more free_pdpt_more)
  then show ?thesis using free_page_more[OF u(2)] by simp
qed

lemma copy_link_more [frame]: "copy_link t i s = Some (r, s') \<Longrightarrow> kmem.more s' = kmem.more s"
  by (auto simp: copy_link_def Let_def bind_eq_Some_conv dest!: alloc_page_more)

lemma copy_pt_more [frame]: "copy_pt f d t s = Some s' \<Longrightarrow> kmem.more s' = kmem.more s"
  unfolding copy_pt_def by (erule for_present_more) (auto simp: Let_def)

lemma copy_pd_more [frame]: "copy_pd f d t s = Some s' \<Longrightarrow> kmem.more s' = kmem.more s"
  unfolding copy_pd_def by (erule for_present_more) (auto simp: bind_eq_Some_conv dest!: copy_link_more copy_pt_more)

lemma copy_pdpt_more [frame]: "copy_pdpt f d t s = Some s' \<Longrightarrow> kmem.more s' = kmem.more s"
  unfolding copy_pdpt_def by (erule for_present_more) (auto simp: bind_eq_Some_conv dest!: copy_link_more copy_pd_more)

lemma copy_pgtbl_more [frame]:
  assumes "copy_pgtbl d t f s = Some (r, s')"
  shows "kmem.more s' = kmem.more s"
proof -
  let ?k = "\<lambda>i s. Some (kstore64 (slot (P2K d) i) (kload64 s (slot (P2K t) i)) s)"
  define xs where "xs = [256 ..< 512 :: nat]"
  from assms obtain u where u: "for_present 256 (P2K t)
      (\<lambda>i e s. do { (p, s) \<leftarrow> copy_link (P2K d) i s; copy_pdpt f p (PAGEKADDR e) s }) s = Some u"
    "for_loop xs ?k u = Some s' \<or> s' = u"
    unfolding copy_pgtbl_def Let_def xs_def[symmetric] by (auto simp: bind_eq_Some_conv split: if_splits)
  have "kmem.more u = kmem.more s"
    by (rule for_present_more[OF u(1)]) (auto simp: bind_eq_Some_conv dest!: copy_link_more copy_pdpt_more)
  moreover have "kmem.more s' = kmem.more u" if "for_loop xs ?k u = Some s'"
    by (rule for_loop_preserves[where P = "\<lambda>w. kmem.more w = kmem.more u", OF that]) auto
  ultimately show ?thesis using u(2) by auto
qed

lemma clear_pt_more [frame]: "clear_pt f t s = Some s' \<Longrightarrow> kmem.more s' = kmem.more s"
  unfolding clear_pt_def by (erule for_present_more) auto

lemma clear_pd_more [frame]: "clear_pd f t s = Some s' \<Longrightarrow> kmem.more s' = kmem.more s"
  unfolding clear_pd_def by (erule for_present_more) (auto dest: clear_pt_more)

lemma clear_pdpt_more [frame]: "clear_pdpt f t s = Some s' \<Longrightarrow> kmem.more s' = kmem.more s"
  unfolding clear_pdpt_def by (erule for_present_more) (auto dest: clear_pd_more)

lemma pgtbl_clearflags_more [frame]: "pgtbl_clearflags t f s = Some s' \<Longrightarrow> kmem.more s' = kmem.more s"
  unfolding pgtbl_clearflags_def Let_def by (erule for_present_more) (auto dest: clear_pdpt_more)

lemma vstore8_more [frame]: "vstore8 va v s = Some s' \<Longrightarrow> kmem.more s' = kmem.more s"
  by (auto simp: vstore8_def)

lemma vstore64_more [frame]: "vstore64 va v s = Some s' \<Longrightarrow> kmem.more s' = kmem.more s"
  unfolding vstore64_def
  by (drule for_loop_preserves[where P = "\<lambda>u. kmem.more u = kmem.more s"]) (auto dest: vstore8_more)

lemma pte_store_more [frame]: "pte_store p v s = Some s' \<Longrightarrow> kmem.more s' = kmem.more s"
  by (auto simp: pte_store_def split: option.splits if_splits dest: vstore64_more)

text \<open>The fields above \<open>kmem\<close>, when those are the same.\<close>

lemma more_kstate:
  fixes s s' :: "'a kstate_scheme"
  assumes "kmem.more s' = kmem.more s"
  shows "procs s' = procs s \<and> fx_ctxs s' = fx_ctxs s \<and> curproc s' = curproc s \<and> kbd_proc s' = kbd_proc s \<and>
    g_pid s' = g_pid s \<and> pipes s' = pipes s \<and> kbd_buffer s' = kbd_buffer s \<and> kbd_buf_beg s' = kbd_buf_beg s \<and>
    kbd_buf_siz s' = kbd_buf_siz s"
  using assms by (cases s; cases s') simp

lemma U2K_entry_more [frame]:
  assumes "U2K_entry i va w s = Some (r, s')"
  shows "kmem.more s' = kmem.more s"
proof -
  from assms obtain r1 p1 s1 r2 p2 s2 where
    w: "walk_pgtbl (pgtbl (procs s i)) va False s = Some ((r1, p1), s1)"
    "walk_pgtbl (p_pgtbl (procs s1 i)) va False s1 = Some ((r2, p2), s2)"
    by (auto simp: U2K_entry_def bind_eq_Some_conv)
  have "kmem.more s' = kmem.more s2"
    using assms unfolding U2K_entry_def w bind.simps
    by (auto simp: w(2) Let_def bind_eq_Some_conv copy_page_def split: if_splits dest!: alloc_page_more pte_store_more)
  then show ?thesis using w[THEN walk_pgtbl_more] by simp
qed

lemma U2K_more [frame]: "U2K i va w s = Some (r, s') \<Longrightarrow> kmem.more s' = kmem.more s"
  by (auto simp: U2K_def bind_eq_Some_conv dest: U2K_entry_more)

end
