(* ===== verification/UBuf.thy ===== *)
theory UBuf
  imports UMem
begin

text \<open>
  User buffers as the kernel reaches them through \<^verbatim>\<open>U2K\<close>: consecutive bytes of a page are consecutive
  kernel addresses, and a translation for reading changes nothing and depends on little.
\<close>

section \<open>Addresses of a user buffer\<close>

lemma page_inc:
  fixes va :: u64
  assumes "(va + 1) AND mask 12 \<noteq> 0"
  shows "(va + 1) AND mask 12 = (va AND mask 12) + 1 \<and> (va + 1) AND NOT (mask 12) = va AND NOT (mask 12)"
proof -
  let ?k = "va AND mask 12" and ?p = "va AND NOT (mask 12)"
  have p: "?p AND mask 12 = 0" by (simp add: word_and_mask_eq_0_iff bit_simps)
  have lt: "?k < 2 ^ 12" by (rule and_mask_less') simp
  have "va = ?p OR ?k" by (rule u64_eqI) (auto simp: bit_simps)
  then have va: "va = ?p + ?k" using aligned_plus_eq_or[OF p lt] by simp
  have "?k \<noteq> 4095"
  proof
    assume "?k = 4095"
    moreover have m: "unat (w AND mask 12 :: u64) = unat w mod 4096" for w
      by (simp add: take_bit_eq_mask[symmetric] take_bit_eq_mod unat_mod)
    ultimately have "unat va mod 4096 = 4095" using m[of va] by simp
    then have "Suc (unat va) mod 4096 = 0" by (simp add: mod_Suc)
    then have "unat (va + 1) mod 4096 = 0" by (simp add: unat_word_ariths mod_mod_cancel)
    then show False using assms m[of "va + 1"] by (simp add: word_unat_eq_iff)
  qed
  then have "?k + 1 < 2 ^ 12" using lt by (simp add: word_less_nat_alt unat_word_ariths word_unat_eq_iff)
  from aligned_plus_offset[OF p this] aligned_plus_base[OF p this] show ?thesis
    using va by (simp add: add.assoc[symmetric])
qed

lemma walk_level_ro: "walk_level False t i k al s = Some (r, s') \<Longrightarrow> s' = s"
  by (auto simp: walk_level_def split: if_splits)

lemma walk_rec_ro: "walk_rec False k t q al s = Some ((r, al'), s') \<Longrightarrow> r \<noteq> NoMem \<and> s' = s"
proof (induction q arbitrary: k t al)
  case (Cons i q)
  from Cons.prems obtain r1 al1 s1 where w: "walk_level False t i k al s = Some ((r1, al1), s1)"
    by (auto simp: bind_eq_Some_conv)
  moreover have "r1 \<noteq> NoMem" using w by (auto simp: walk_level_def split: if_splits)
  ultimately show ?case using Cons.prems Cons.IH[of "Suc k" _ al1] walk_level_ro[OF w] by (cases r1) auto
qed auto

lemma walk_pgtbl_ro:
  assumes "walk_pgtbl t va False s = Some (r, s')"
  shows "s' = s"
proof -
  from assms obtain w al u where w: "walk_rec False 0 (PAGEKADDR t) (va_path (PAGEADDR va)) [0, 0, 0] s = Some ((w, al), u)"
    by (auto simp: walk_pgtbl_rec bind_eq_Some_conv)
  then show ?thesis
    using assms walk_rec_ro[OF w] by (cases w) (auto simp: walk_pgtbl_rec walk_unmapped_def)
qed

lemma walk_pgtbl_page:
  assumes "PAGEADDR va = PAGEADDR va'"
  shows "walk_pgtbl t va c s = walk_pgtbl t va' c s"
  unfolding walk_pgtbl_def by (simp only: assms)

text \<open>\<^verbatim>\<open>U2K\<close> depends on the page of the address only, apart from the offset in the result.\<close>

lemma U2K_next:
  assumes "U2K p va w s = Some (ka, s')" and "(va + 1) AND PGMASK \<noteq> 0"
  shows "U2K p (va + 1) w s = Some (ka + 1, s')"
proof -
  have n: "(va + 1) AND mask 12 = (va AND mask 12) + 1" "PAGEADDR (va + 1) = PAGEADDR va"
    using page_inc[of va] assms(2) by (simp_all add: PGMASK_eq PAGEADDR_def)
  have "U2K_entry p (va + 1) w s = U2K_entry p va w s"
    unfolding U2K_entry_def walk_pgtbl_page[OF n(2)] ..
  then obtain e where e: "ka = PAGEKADDR e OR (va AND mask 12)"
    "U2K p (va + 1) w s = Some (PAGEKADDR e OR ((va + 1) AND mask 12), s')"
    using assms(1) by (auto simp: U2K_def bind_eq_Some_conv PGMASK_eq)
  have z: "PAGEKADDR e AND mask 12 = 0"
    by (auto simp: PAGEKADDR_def PAGEADDR_def PGMASK_eq KERNBASE_eq word_and_mask_eq_0_iff bit_simps)
  have l: "va AND mask 12 < 2 ^ 12" "(va + 1) AND mask 12 < 2 ^ 12" by (rule and_mask_less', simp)+
  have "PAGEKADDR e OR ((va + 1) AND mask 12) = PAGEKADDR e + (va AND mask 12) + 1"
    using aligned_plus_eq_or[OF z l(2)] n(1) by (simp add: add.assoc)
  then show ?thesis using e aligned_plus_eq_or[OF z l(1)] by simp
qed

lemma U2K_entry_ro:
  assumes "U2K_entry p va False s = Some (e, s')"
  shows "s' = s"
  using assms unfolding U2K_entry_def
  by (auto simp: Let_def bind_eq_Some_conv split: if_splits dest!: walk_pgtbl_ro)

lemma U2K_ro: "U2K p va False s = Some (ka, s') \<Longrightarrow> s' = s"
  by (auto simp: U2K_def bind_eq_Some_conv dest: U2K_entry_ro)

text \<open>A read-only translation depends on the memory, the page table in use and the process only.\<close>

lemma kload64_cong: "pmem s' = pmem s \<Longrightarrow> kload64 s' p = kload64 s p"
  by (simp add: kload64_def)

lemma walk_rec_cong:
  "pmem s' = pmem s \<Longrightarrow> walk_rec False k t q al s' = map_option (\<lambda>(r, _). (r, s')) (walk_rec False k t q al s)"
proof (induction q arbitrary: k t al)
  case (Cons i q)
  have w: "walk_level False t i k al s' = map_option (\<lambda>(r, _). (r, s')) (walk_level False t i k al s)"
    using kload64_cong[OF Cons.prems] by (simp add: walk_level_def)
  show ?case
  proof (cases "walk_level False t i k al s")
    case (Some x)
    obtain r al' u where x: "x = ((r, al'), u)" by (metis prod.exhaust)
    then have "u = s" using Some walk_level_ro by simp
    then show ?thesis using w Some x Cons by (cases r) auto
  qed (simp add: w)
qed simp

lemma walk_pgtbl_cong:
  assumes "pmem s' = pmem s"
  shows "walk_pgtbl t va False s' = map_option (\<lambda>(r, _). (r, s')) (walk_pgtbl t va False s)"
proof (cases "walk_rec False 0 (PAGEKADDR t) (va_path (PAGEADDR va)) [0, 0, 0] s")
  case None
  then show ?thesis using walk_rec_cong[OF assms] by (simp add: walk_pgtbl_rec)
next
  case (Some x)
  obtain r al u where x: "x = ((r, al), u)" by (metis prod.exhaust)
  then have "r \<noteq> NoMem" using Some walk_rec_ro by blast
  then show ?thesis
    using Some x walk_rec_cong[OF assms, of 0 "PAGEKADDR t" "va_path (PAGEADDR va)" "[0, 0, 0]"]
    by (cases r) (auto simp: walk_pgtbl_rec walk_unmapped_def)
qed

lemma pte_load_cong: "pmem s' = pmem s \<Longrightarrow> cr3 s' = cr3 s \<Longrightarrow> pte_load s' p = pte_load s p"
  by (simp add: pte_load_def vload64_def kload64_def split: option.splits)

definition ro_entry :: "nat \<Rightarrow> u64 \<Rightarrow> 'a kstate_scheme \<Rightarrow> u64 option" where
  "ro_entry i va s = do {
     ((_, p1), _) \<leftarrow> walk_pgtbl (pgtbl (procs s i)) va False s;
     ((_, p2), _) \<leftarrow> walk_pgtbl (p_pgtbl (procs s i)) va False s;
     e1 \<leftarrow> pte_load s p1;
     if e1 AND (PTE_P OR PTE_U) \<noteq> PTE_P OR PTE_U then None
     else do { e2 \<leftarrow> pte_load s p2; if PAGEADDR e1 \<noteq> PAGEADDR e2 then None else Some e1 }
   }"

lemma U2K_entry_False: "U2K_entry i va False s = map_option (\<lambda>e. (e, s)) (ro_entry i va s)"
proof (cases "walk_pgtbl (pgtbl (procs s i)) va False s")
  case None
  then show ?thesis by (simp add: U2K_entry_def ro_entry_def)
next
  case (Some x)
  obtain r1 p1 u where x: "x = ((r1, p1), u)" by (metis prod.exhaust)
  then have u: "u = s" using Some walk_pgtbl_ro by blast
  show ?thesis
  proof (cases "walk_pgtbl (p_pgtbl (procs s i)) va False s")
    case None
    then show ?thesis using Some x u by (simp add: U2K_entry_def ro_entry_def)
  next
    case (Some y)
    obtain r2 p2 v where y: "y = ((r2, p2), v)" by (metis prod.exhaust)
    then have v: "v = s" using Some walk_pgtbl_ro by blast
    show ?thesis
      using \<open>walk_pgtbl (pgtbl (procs s i)) va False s = Some x\<close> Some x y u v
      by (cases "pte_load s p1"; cases "pte_load s p2") (simp_all add: U2K_entry_def ro_entry_def)
  qed
qed

lemma ro_entry_cong:
  assumes "pmem s' = pmem s" and "cr3 s' = cr3 s" and "procs s' p = procs s p"
  shows "ro_entry p va s' = ro_entry p va s"
  unfolding ro_entry_def assms(3) walk_pgtbl_cong[OF assms(1)] pte_load_cong[OF assms(1,2)]
  by (cases "walk_pgtbl (pgtbl (procs s p)) va False s"; cases "walk_pgtbl (p_pgtbl (procs s p)) va False s")
    (simp_all add: split_beta)

lemma U2K_False: "U2K i va False s = map_option (\<lambda>e. (PAGEKADDR e OR (va AND PGMASK), s)) (ro_entry i va s)"
  by (cases "ro_entry i va s") (simp_all add: U2K_def U2K_entry_False)

lemma U2K_cong:
  assumes "U2K p va False s = Some (ka, s)" and "pmem s' = pmem s" "cr3 s' = cr3 s" "procs s' p = procs s p"
  shows "U2K p va False s' = Some (ka, s')"
  using assms(1) ro_entry_cong[OF assms(2-4), of va] by (auto simp: U2K_False)

section \<open>Translation in terms of the tables\<close>

lemma walk_reach:
  assumes "no_huge (pmem s) (sub t) (va_path va)" and "reach (pmem s) (sub t) (va_path va) = Some u"
  shows "walk_pgtbl t va False s = Some ((0, Some (P2K (slot (P2K u) (unat (PT_INDEX va))))), s)"
proof -
  have "\<forall>i \<in> set (va_path va). i < 512"
    by (simp add: va_path_def PML4_INDEX_def PDPT_INDEX_def PD_INDEX_def unat_index)
  from walk_rec_readonly[OF is_page_sub this assms(1), of 0 "[0, 0, 0]"] assms(2) show ?thesis
    by (simp add: walk_pgtbl_rec PAGEKADDR_eq)
qed

lemma P2K_not_0: "P2K x \<noteq> 0"
proof
  assume "P2K x = 0"
  moreover have "bit (P2K x) 63" by (simp add: P2K_def KERNBASE_eq bit_simps)
  ultimately show False by simp
qed

lemma walk_lookup:
  assumes "no_huge (pmem s) (sub t) (va_path va)" and "lookup (pmem s) (sub t) (va_indices va) = e" and "e \<noteq> 0"
  obtains pte where "walk_pgtbl t va False s = Some ((0, Some pte), s)" "pte_load s (Some pte) = Some e"
proof -
  obtain u where u: "reach (pmem s) (sub t) (va_path va) = Some u" "ent (pmem s) u (unat (PT_INDEX va)) = e"
    using assms(2,3) by (auto simp: va_indices_def lookup_reach split: option.splits)
  have "is_page u" "unat (PT_INDEX va) < 512"
    using reach_is_page[OF _ u(1)] by (simp_all add: PT_INDEX_def unat_index)
  then have "pte_load s (Some (P2K (slot (P2K u) (unat (PT_INDEX va))))) = Some e"
    using u(2) by (simp add: pte_load_def P2K_not_0 kload64_def K2P_slot)
  then show thesis using that walk_reach[OF assms(1) u(1)] by blast
qed

lemma U2K_lookup:
  assumes "no_huge (pmem s) (sub (pgtbl (procs s i))) (va_path va)" and "no_huge (pmem s) (sub (p_pgtbl (procs s i))) (va_path va)"
    and "lookup (pmem s) (sub (pgtbl (procs s i))) (va_indices va) = e1"
    and "lookup (pmem s) (sub (p_pgtbl (procs s i))) (va_indices va) = e2"
    and "e1 AND (PTE_P OR PTE_U) = PTE_P OR PTE_U" and "PAGEADDR e1 = PAGEADDR e2" and "e2 \<noteq> 0"
    and "\<not> w \<or> e1 AND PTE_FLAGS = e2 AND PTE_FLAGS"
  shows "U2K i va w s = Some (PAGEKADDR e1 OR (va AND PGMASK), s)"
proof -
  have "e1 \<noteq> 0" using assms(5) by (auto simp: PTE_P_def PTE_U_def)
  from walk_lookup[OF assms(1,3) this] obtain p1 where 1: "walk_pgtbl (pgtbl (procs s i)) va False s = Some ((0, Some p1), s)"
    "pte_load s (Some p1) = Some e1" .
  from walk_lookup[OF assms(2,4,7)] obtain p2 where 2: "walk_pgtbl (p_pgtbl (procs s i)) va False s = Some ((0, Some p2), s)"
    "pte_load s (Some p2) = Some e2" .
  have "U2K_entry i va w s = Some (e1, s)"
    unfolding U2K_entry_def 1(1) bind.simps prod.case 2(1) 1(2) 2(2) using assms(5,6,8) by simp
  then show ?thesis by (simp add: U2K_def)
qed

end
