(* ===== verification/Ring.thy ===== *)
theory Ring
  imports UkPrelude
begin

text \<open>
  Ring buffers.  The keyboard buffer of \<^verbatim>\<open>kernel/kbd.c\<close> and the buffer of a pipe are arrays with a start
  index and a length; \<open>ring_list\<close> is the sequence of bytes they hold.  The locale \<open>fifo\<close> is what their
  users rely on, a first-in first-out queue; its lemmas are about runs of insertions and removals.
\<close>

definition ring_list :: "nat \<Rightarrow> nat \<Rightarrow> nat \<Rightarrow> (nat \<Rightarrow> 'x) \<Rightarrow> 'x list" where
  "ring_list N h n b = map (\<lambda>k. b ((h + k) mod N)) [0..<n]"

lemma length_ring_list [simp]: "length (ring_list N h n b) = n"
  by (simp add: ring_list_def)

lemma ring_list_0 [simp]: "ring_list N h 0 b = []"
  by (simp add: ring_list_def)

lemma ring_list_mod_h: "ring_list N (h mod N) n b = ring_list N h n b"
  by (simp add: ring_list_def mod_simps)

lemma ring_index_inj:
  assumes "j < N" and "k < N" and "(h + j) mod N = (h + k) mod (N :: nat)"
  shows "j = k"
proof -
  have "(j mod N) = (k mod N)"
    using assms(3) unfolding nat_mod_eq_iff by (simp add: add.assoc)
  then show ?thesis using assms(1,2) by simp
qed

lemma ring_list_cong:
  "(\<And>k. k < n \<Longrightarrow> b ((h + k) mod N) = c ((h + k) mod N)) \<Longrightarrow> ring_list N h n b = ring_list N h n c"
  by (simp add: ring_list_def)

lemma ring_list_snoc:
  assumes "n < N"
  shows "ring_list N h (Suc n) (b((h + n) mod N := x)) = ring_list N h n b @ [x]"
proof -
  have "(b((h + n) mod N := x)) ((h + k) mod N) = b ((h + k) mod N)" if "k < n" for k
    using ring_index_inj[of k N n h] that assms by auto
  then show ?thesis by (simp add: ring_list_def)
qed

lemma ring_list_Cons: "ring_list N h (Suc n) b = b (h mod N) # ring_list N (Suc h) n b"
  by (simp add: ring_list_def upt_conv_Cons map_Suc_upt[symmetric] del: upt_Suc)

lemma ring_list_drop:
  assumes "m \<le> n"
  shows "ring_list N (h + m) (n - m) b = drop m (ring_list N h n b)"
  using assms
proof (induction m arbitrary: h n)
  case (Suc m)
  then obtain n' where n: "n = Suc n'" by (cases n) auto
  then show ?case using Suc.IH[of n' "Suc h"] Suc.prems by (simp add: ring_list_Cons)
qed simp

lemma ring_list_nth: "k < n \<Longrightarrow> ring_list N h n b ! k = b ((h + k) mod N)"
  by (simp add: ring_list_def)

section \<open>First-in first-out queues\<close>

locale fifo =
  fixes items :: "'q \<Rightarrow> 'x list" and ok :: "'q \<Rightarrow> bool" and cap :: nat
    and put :: "'x \<Rightarrow> 'q \<Rightarrow> 'q" and front :: "'q \<Rightarrow> 'x" and pop :: "'q \<Rightarrow> 'q"
  assumes put_ok: "ok q \<Longrightarrow> length (items q) < cap \<Longrightarrow> ok (put x q) \<and> items (put x q) = items q @ [x]"
    and pop_ok: "ok q \<Longrightarrow> items q \<noteq> [] \<Longrightarrow> ok (pop q) \<and> items (pop q) = tl (items q) \<and> front q = hd (items q)"
begin

primrec put_all :: "'x list \<Rightarrow> 'q \<Rightarrow> 'q" where
  "put_all [] q = q"
| "put_all (x # xs) q = put_all xs (put x q)"

primrec get_all :: "nat \<Rightarrow> 'q \<Rightarrow> 'x list \<times> 'q" where
  "get_all 0 q = ([], q)"
| "get_all (Suc n) q = (case get_all n (pop q) of (xs, q') \<Rightarrow> (front q # xs, q'))"

lemma put_all_ok:
  "ok q \<Longrightarrow> length (items q) + length xs \<le> cap \<Longrightarrow> ok (put_all xs q) \<and> items (put_all xs q) = items q @ xs"
proof (induction xs arbitrary: q)
  case (Cons x xs)
  then show ?case using put_ok[of q x] by simp
qed simp

lemma get_all_ok:
  "ok q \<Longrightarrow> n \<le> length (items q) \<Longrightarrow>
   fst (get_all n q) = take n (items q) \<and> ok (snd (get_all n q)) \<and> items (snd (get_all n q)) = drop n (items q)"
proof (induction n arbitrary: q)
  case (Suc n)
  then have ne: "items q \<noteq> []" by auto
  then obtain x xs where q: "items q = x # xs" by (cases "items q") auto
  show ?case
    using Suc.IH[of "pop q"] pop_ok[OF Suc.prems(1) ne] Suc.prems(2) q by (simp add: split_beta)
qed simp

text \<open>What went in comes out, in order, behind what was there before.\<close>

lemma get_put_all:
  assumes "ok q" and "length (items q) + length xs \<le> cap"
  shows "fst (get_all (length (items q) + length xs) (put_all xs q)) = items q @ xs"
  using get_all_ok[of "put_all xs q" "length (items q) + length xs"] put_all_ok[OF assms] by simp

end

section \<open>The ring as a queue\<close>

type_synonym 'x ring = "nat \<times> nat \<times> (nat \<Rightarrow> 'x)"

definition ritems :: "nat \<Rightarrow> 'x ring \<Rightarrow> 'x list" where
  "ritems N = (\<lambda>(h, n, b). ring_list N h n b)"

definition rok :: "nat \<Rightarrow> 'x ring \<Rightarrow> bool" where
  "rok N = (\<lambda>(h, n, b). h < N \<and> n \<le> N)"

definition rput :: "nat \<Rightarrow> 'x \<Rightarrow> 'x ring \<Rightarrow> 'x ring" where
  "rput N x = (\<lambda>(h, n, b). (h, Suc n, b((h + n) mod N := x)))"

definition rfront :: "nat \<Rightarrow> 'x ring \<Rightarrow> 'x" where
  "rfront N = (\<lambda>(h, n, b). b (h mod N))"

definition rpop :: "nat \<Rightarrow> 'x ring \<Rightarrow> 'x ring" where
  "rpop N = (\<lambda>(h, n, b). (Suc h mod N, n - 1, b))"

lemmas ring_defs = ritems_def rok_def rput_def rfront_def rpop_def

lemma ring_apply [simp]:
  "rput N x (h, n, b) = (h, Suc n, b((h + n) mod N := x))" "rpop N (h, n, b) = (Suc h mod N, n - 1, b)"
  "rfront N (h, n, b) = b (h mod N)" "ritems N (h, n, b) = ring_list N h n b"
  by (simp_all add: ring_defs)

lemma ring_fifo: "0 < N \<Longrightarrow> fifo (ritems N) (rok N) N (rput N) (rfront N) (rpop N)"
proof (unfold_locales, goal_cases)
  case (1 q x)
  then show ?case by (auto simp: ring_defs ring_list_snoc split: prod.splits)
next
  case (2 q)
  obtain h n b where q: "q = (h, n, b)" by (metis prod.exhaust)
  then obtain m where m: "n = Suc m" using 2 by (cases n) (auto simp: ring_defs)
  show ?case using 2 q m by (simp add: ring_defs ring_list_Cons ring_list_mod_h)
qed

end
