(* ===== verification/Sched.thy ===== *)
theory Sched
  imports Proc
begin

text \<open>
  The scheduler of \<^verbatim>\<open>kernel/sched.c\<close>: one pass over the process table from the entry after the
  current one, then the current one.  The pass changes nothing when no process is ready, so the
  outer \<^verbatim>\<open>while (1)\<close> then never ends and \<open>sched\<close> is \<^term>\<open>None\<close>.

  The lemmas show that \<^verbatim>\<open>sched\<close> runs the first ready process in cyclic order, and that a process
  that stays ready is run after at most \<^verbatim>\<open>NPROCS\<close> calls.
\<close>

section \<open>The scheduler\<close>

definition next_index :: "nat \<Rightarrow> nat" where
  "next_index i = (if i + 1 \<noteq> NPROCS then i + 1 else 0)"

text \<open>The for loop: the index of the ready process it runs, if it finds one before \<open>curid\<close>.\<close>

function sched_for :: "nat \<Rightarrow> nat \<Rightarrow> 'a kstate_scheme \<Rightarrow> nat option" where
  "sched_for curid i s =
     (if i = curid \<or> \<not> i < NPROCS \<or> \<not> curid < NPROCS then None
      else if state (procs s i) = READY then Some i
      else sched_for curid (next_index i) s)"
  by pat_completeness auto
termination
  by (relation "measure (\<lambda>(c, i, s). if i \<le> c then c - i else c + NPROCS - i)")
    (auto simp: next_index_def)

declare sched_for.simps [simp del]

definition run_ready :: "nat \<Rightarrow> 'a kstate_scheme \<Rightarrow> (proc_context \<times> fx_context) \<times> 'a kstate_scheme" where
  "run_ready i s = run_proc i (upd_proc i (\<lambda>p. p\<lparr>state := RUNNING\<rparr>) s)"

definition sched :: "'a kstate_scheme \<Rightarrow> ((proc_context \<times> fx_context) \<times> 'a kstate_scheme) option" where
  "sched s =
     (let curid = (case curproc s of None \<Rightarrow> 0 | Some c \<Rightarrow> c)
      in case sched_for curid ((curid + 1) mod NPROCS) s of
           Some i \<Rightarrow> Some (run_ready i s)
         | None \<Rightarrow> if state (procs s curid) = READY then Some (run_ready curid s) else None)"

section \<open>Cyclic order\<close>

text \<open>How many entries after \<open>c\<close> the entry \<open>i\<close> comes, the current one last.\<close>

definition dist :: "nat \<Rightarrow> nat \<Rightarrow> nat" where
  "dist c i = (if c < i then i - c else i + NPROCS - c)"

lemma dist_bounds: "c < NPROCS \<Longrightarrow> i < NPROCS \<Longrightarrow> 0 < dist c i \<and> dist c i \<le> NPROCS"
  by (auto simp: dist_def)

lemma dist_inj: "c < NPROCS \<Longrightarrow> i < NPROCS \<Longrightarrow> j < NPROCS \<Longrightarrow> dist c i = dist c j \<Longrightarrow> i = j"
  by (auto simp: dist_def split: if_splits)

lemma dist_next:
  "c < NPROCS \<Longrightarrow> i < NPROCS \<Longrightarrow> i \<noteq> c \<Longrightarrow> next_index i < NPROCS \<and> dist c (next_index i) = Suc (dist c i)"
  by (auto simp: dist_def next_index_def split: if_splits)

lemma dist_first: "c < NPROCS \<Longrightarrow> (c + 1) mod NPROCS < NPROCS \<and> dist c ((c + 1) mod NPROCS) = 1"
  by (cases "c + 1 = NPROCS") (auto simp: dist_def NPROCS_def)

lemma dist_self [simp]: "dist c c = NPROCS"
  by (simp add: dist_def)

lemma sched_for_spec:
  assumes "c < NPROCS" and "i < NPROCS"
  shows "case sched_for c i s of
      None \<Rightarrow> \<forall>j < NPROCS. dist c i \<le> dist c j \<longrightarrow> j \<noteq> c \<longrightarrow> state (procs s j) \<noteq> READY
    | Some k \<Rightarrow> k < NPROCS \<and> state (procs s k) = READY \<and> dist c i \<le> dist c k \<and>
        (\<forall>j < NPROCS. dist c i \<le> dist c j \<longrightarrow> dist c j < dist c k \<longrightarrow> state (procs s j) \<noteq> READY)"
  using assms
proof (induction c i s rule: sched_for.induct)
  case (1 c i s)
  show ?case
  proof (cases "i = c")
    case True
    have "j = c" if "j < NPROCS" "dist c c \<le> dist c j" for j
      using that 1(2) dist_bounds[of c j] dist_inj[of c j c] by simp
    moreover have "sched_for c i s = None" using True by (subst sched_for.simps) simp
    ultimately show ?thesis unfolding True by (simp only: option.case) blast
  next
    case False
    show ?thesis
    proof (cases "state (procs s i) = READY")
      case True
      then show ?thesis using False 1(2,3) by (simp add: sched_for.simps[of c i])
    next
      case nr: False
      have eq: "sched_for c i s = sched_for c (next_index i) s"
        using False nr 1(2,3) by (subst sched_for.simps) simp
      have nx: "next_index i < NPROCS" "dist c (next_index i) = Suc (dist c i)"
        using dist_next[OF 1(2,3) False] by auto
      have "state (procs s j) \<noteq> READY" if "j < NPROCS" "dist c j = dist c i" for j
        using that dist_inj[of c j i] 1(2,3) nr by simp
      then have le: "dist c i \<le> dist c j \<and> state (procs s j) = READY \<Longrightarrow> Suc (dist c i) \<le> dist c j" if "j < NPROCS" for j
        using that by (metis Suc_leI le_neq_implies_less)
      have g: "\<not> (i = c \<or> \<not> i < NPROCS \<or> \<not> c < NPROCS)" using False 1(2,3) by simp
      note IH = 1(1)[OF g nr 1(2) nx(1), unfolded nx(2)]
      show ?thesis
      proof (cases "sched_for c (next_index i) s")
        case None
        show ?thesis using IH le unfolding eq None option.case by blast
      next
        case (Some k)
        show ?thesis using IH le unfolding eq Some option.case by (meson Suc_leD)
      qed
    qed
  qed
qed

lemma sched_spec:
  assumes "curproc s = Some c" and "c < NPROCS"
  shows "case sched s of
      None \<Rightarrow> \<forall>j < NPROCS. state (procs s j) \<noteq> READY
    | Some (u, s') \<Rightarrow> \<exists>k < NPROCS. state (procs s k) = READY \<and> (u, s') = run_ready k s \<and>
        (\<forall>j < NPROCS. dist c j < dist c k \<longrightarrow> state (procs s j) \<noteq> READY)"
proof -
  let ?i = "(c + 1) mod NPROCS"
  have i: "?i < NPROCS" "dist c ?i = 1" using dist_first[OF assms(2)] by auto
  have all: "dist c ?i \<le> dist c j" if "j < NPROCS" for j
    using dist_bounds[OF assms(2) that] i(2) by simp
  show ?thesis
  proof (cases "sched_for c ?i s")
    case (Some k)
    then show ?thesis
      using sched_for_spec[OF assms(2) i(1), of s] all assms(1)
      by (auto simp: sched_def Let_def split: prod.splits)
  next
    case None
    then have nr: "state (procs s j) \<noteq> READY" if "j < NPROCS" "j \<noteq> c" for j
      using sched_for_spec[OF assms(2) i(1), of s] all[OF that(1)] that by simp
    then show ?thesis
      using None assms by (auto simp: sched_def Let_def split: prod.splits)
  qed
qed

section \<open>Properties\<close>

text \<open>
  C29: \<^verbatim>\<open>sched\<close> runs the first ready process after the current one in cyclic order, the current one
  last: it marks it RUNNING, makes it current and loads its page table, its registers and its
  floating-point state, and changes no other process.  It never leaves only when nothing is ready.
\<close>
theorem sched_round_robin:
  assumes "curproc s = Some c" and "c < NPROCS"
  shows "case sched s of
      None \<Rightarrow> \<forall>j < NPROCS. state (procs s j) \<noteq> READY
    | Some ((regs, fx), s') \<Rightarrow> \<exists>k < NPROCS. state (procs s k) = READY \<and>
        (\<forall>j < NPROCS. dist c j < dist c k \<longrightarrow> state (procs s j) \<noteq> READY) \<and>
        regs = ctx (procs s k) \<and> fx = fx_ctxs s k \<and>
        s' = s\<lparr>procs := (procs s)(k := (procs s k)\<lparr>state := RUNNING\<rparr>), curproc := Some k,
               cr3 := pgtbl (procs s k)\<rparr>"
proof (cases "sched s")
  case None
  then show ?thesis using sched_spec[OF assms] by simp
next
  case (Some x)
  obtain regs fx s' where x: "x = ((regs, fx), s')" by (metis prod.exhaust)
  from sched_spec[OF assms] Some x obtain k where k: "k < NPROCS" "state (procs s k) = READY"
    "((regs, fx), s') = run_ready k s" "\<forall>j < NPROCS. dist c j < dist c k \<longrightarrow> state (procs s j) \<noteq> READY" by auto
  from k(3) have "regs = ctx (procs s k)" "fx = fx_ctxs s k"
    "s' = s\<lparr>procs := (procs s)(k := (procs s k)\<lparr>state := RUNNING\<rparr>), curproc := Some k, cr3 := pgtbl (procs s k)\<rparr>"
    by (simp_all add: run_ready_def run_proc_def upd_proc_def)
  then show ?thesis using Some x k by auto
qed

definition ex_ready :: "nat \<Rightarrow> kstate" where
  "ex_ready c = kmem.extend ex_kmem (kstate.fields (\<lambda>i. if i = 3 \<or> i = 7 then zero_proc\<lparr>state := READY\<rparr> else zero_proc)
     (\<lambda>_. zero_fx) (Some c) None 0 (\<lambda>_. zero_pipe) (\<lambda>_. 0) 0 0)"

lemma ex_ready_sel [simp]:
  "procs (ex_ready c) i = (if i = 3 \<or> i = 7 then zero_proc\<lparr>state := READY\<rparr> else zero_proc)"
  "curproc (ex_ready c) = Some c"
  by (simp_all add: ex_ready_def kmem.extend_def kstate.fields_def)

lemma ex_ready_next:
  assumes "sched (ex_ready c) = Some (u, s')" and "c = 3 \<or> c = 7"
  shows "curproc s' = Some (10 - c)"
proof -
  have c: "c < NPROCS" using assms(2) by (auto simp: NPROCS_def)
  from sched_spec[of "ex_ready c" c] c assms(1) obtain k where
    k: "k = 3 \<or> k = 7" "(u, s') = run_ready k (ex_ready c)"
    "\<forall>j < NPROCS. dist c j < dist c k \<longrightarrow> j \<noteq> 3 \<and> j \<noteq> 7"
    by (auto simp: zero_proc_def split: if_splits)
  have "dist 3 7 = 4" "dist 7 3 = 1020" by (simp_all add: dist_def NPROCS_def)
  then have "k = 10 - c"
    using k(1,3) assms(2) by (auto simp: NPROCS_def dest: spec[of _ 3] spec[of _ 7])
  then show ?thesis using k(2) by (simp add: run_ready_def run_proc_def upd_proc_def Let_def)
qed

theorem sched_round_robin_witness:
  "case sched (ex_ready 3) of None \<Rightarrow> False | Some (u, s') \<Rightarrow> curproc s' = Some 7"
proof (cases "sched (ex_ready 3)")
  case None
  then show ?thesis using sched_round_robin[of "ex_ready 3" 3] by (auto simp: NPROCS_def dest: spec[of _ 3])
next
  case (Some us)
  then show ?thesis using ex_ready_next[of 3 "fst us" "snd us"] by (cases us) simp
qed

lemma dist_step:
  assumes "c < NPROCS" "k < NPROCS" "i < NPROCS" "dist c k < dist c i"
  shows "dist k i = dist c i - dist c k"
  using assms by (auto simp: dist_def split: if_splits)

text \<open>
  C30: No starvation.  Whatever happens between two calls, as long as the process that was run is
  the current one at the next call, a process that is ready at every call is run by one of the
  first \<^verbatim>\<open>NPROCS\<close> calls.
\<close>
theorem sched_no_starvation:
  assumes "\<forall>n. \<exists>c < NPROCS. curproc (xs n) = Some c"
    and "\<forall>n u s'. sched (xs n) = Some (u, s') \<longrightarrow> curproc (xs (Suc n)) = curproc s'"
    and "i < NPROCS" and "\<forall>n. state (procs (xs n) i) = READY"
  shows "\<exists>n < NPROCS. curproc (xs (Suc n)) = Some i"
proof (rule ccontr)
  assume no: "\<not> ?thesis"
  define c where "c n = the (curproc (xs n))" for n
  have c: "curproc (xs n) = Some (c n)" "c n < NPROCS" for n
    using assms(1)[rule_format, of n] by (auto simp: c_def)
  have step: "dist (c (Suc n)) i < dist (c n) i" if n: "n < NPROCS" for n
  proof -
    from sched_spec[OF c(1,2), of n] assms(3,4) obtain u s' where s: "sched (xs n) = Some (u, s')"
      by (cases "sched (xs n)") auto
    with sched_spec[OF c(1,2), of n] obtain k where k: "k < NPROCS" "(u, s') = run_ready k (xs n)"
      "\<forall>j < NPROCS. dist (c n) j < dist (c n) k \<longrightarrow> state (procs (xs n) j) \<noteq> READY" by auto
    have "curproc s' = Some k" using k(2) by (simp add: run_ready_def run_proc_def upd_proc_def Let_def)
    then have ck: "c (Suc n) = k" using assms(2)[rule_format, OF s] c(1)[of "Suc n"] by simp
    have "k \<noteq> i" using no n c(1)[of "Suc n"] ck by auto
    moreover have "dist (c n) k \<le> dist (c n) i" using k(3) assms(3,4) by (meson not_less)
    ultimately have "dist (c n) k < dist (c n) i"
      using dist_inj[OF c(2) k(1) assms(3), of n] by (metis le_neq_implies_less)
    then show ?thesis
      using dist_step[OF c(2)[of n] k(1) assms(3)] dist_bounds[OF c(2)[of n] k(1)] ck by simp
  qed
  have "dist (c n) i + n \<le> NPROCS" if "n \<le> NPROCS" for n
    using that
  proof (induction n)
    case 0
    then show ?case using dist_bounds[OF c(2)[of 0] assms(3)] by simp
  next
    case (Suc n)
    then show ?case using step[of n] by simp
  qed
  from this[of NPROCS] show False using dist_bounds[OF c(2)[of NPROCS] assms(3)] by simp
qed

theorem sched_no_starvation_witness:
  "\<exists>n < NPROCS. curproc (ex_ready (if even (Suc n) then 3 else 7)) = Some (7 :: nat)"
proof (rule sched_no_starvation[of "\<lambda>n. ex_ready (if even n then 3 else 7)" 7])
  show "\<forall>n u s'. sched (ex_ready (if even n then 3 else 7)) = Some (u, s') \<longrightarrow>
      curproc (ex_ready (if even (Suc n) then 3 else 7)) = curproc s'"
  proof (intro allI impI)
    fix n :: nat and u s' assume "sched (ex_ready (if even n then 3 else 7)) = Some (u, s')"
    from ex_ready_next[OF this] show "curproc (ex_ready (if even (Suc n) then 3 else 7)) = curproc s'" by simp
  qed
qed (simp_all add: NPROCS_def)

end
