(* ===== verification/ProcLife.thy ===== *)
theory ProcLife
  imports UBuf PgFree
begin

text \<open>
  The end of a process, from \<^verbatim>\<open>kernel/proc.c\<close>: \<^verbatim>\<open>clear_proc\<close>, \<^verbatim>\<open>exit_as_parent\<close>, \<^verbatim>\<open>exit_as_child\<close> and
  \<^verbatim>\<open>kill_proc\<close>.  The two loops over sibling chains follow pointers and are partial: on a cyclic chain
  they do not return.

  The lemmas show what \<^verbatim>\<open>clear_proc\<close> gives back, that the loops over the children end on proper chains, how
  an awaited child wakes its parent, and what becomes of the chain of living children when a child
  dies that nobody waits for.
\<close>

section \<open>Operations\<close>

definition drop_rpipe :: "u64 \<Rightarrow> 'a kstate_scheme \<Rightarrow> 'a kstate_scheme option" where
  "drop_rpipe pipe s =
     (let s = upd_pipe pipe (\<lambda>q. q\<lparr>rref := rref q - 1\<rparr>) s
      in if rref (pipes s pipe) = 0 \<and> wref (pipes s pipe) = 0 then free_page (KA2PGINFO s pipe) s else Some s)"

definition drop_wpipe :: "u64 \<Rightarrow> 'a kstate_scheme \<Rightarrow> 'a kstate_scheme option" where
  "drop_wpipe pipe s =
     (let s = upd_pipe pipe (\<lambda>q. q\<lparr>wref := wref q - 1\<rparr>) s;
          s = (case reader (pipes s pipe) of
                 Some r \<Rightarrow> if wref (pipes s pipe) = 0
                           then upd_proc r (\<lambda>p. p\<lparr>ctx := (ctx p)\<lparr>rax := 0\<rparr>, state := READY\<rparr>) s else s
               | None \<Rightarrow> s)
      in if rref (pipes s pipe) = 0 \<and> wref (pipes s pipe) = 0 then free_page (KA2PGINFO s pipe) s else Some s)"

definition clear_fd :: "nat \<Rightarrow> nat \<Rightarrow> 'a kstate_scheme \<Rightarrow> 'a kstate_scheme option" where
  "clear_fd i fd s =
     (let f = fdesc (procs s i) fd
      in if \<not> inuse f then Some s
         else if file_type f = FT_RPIPE then drop_rpipe (meta_pipe f) s
         else if file_type f = FT_WPIPE then drop_wpipe (meta_pipe f) s
         else Some s)"

definition clear_proc :: "nat \<Rightarrow> 'a kstate_scheme \<Rightarrow> 'a kstate_scheme option" where
  "clear_proc i s = do {
     let s = upd_proc i (\<lambda>p. p\<lparr>state := PENDING\<rparr>) s;
     s \<leftarrow> free_pgtbl (P2K (pgtbl (procs s i))) FREE_PGTBL_DECREF s;
     s \<leftarrow> free_pgtbl (P2K (p_pgtbl (procs s i))) 0 s;
     let s = (if kbd_proc s = Some i then s\<lparr>kbd_proc := None\<rparr> else s);
     s \<leftarrow> for_loop [0..<64] (clear_fd i) s;
     let s = upd_proc i (\<lambda>p. p\<lparr>exit_val := 0\<rparr>) s;
     let s = upd_proc i (\<lambda>_. zero_proc) s;
     Some (s\<lparr>fx_ctxs := (fx_ctxs s)(i := zero_fx\<lparr>MXCSR := MXCSR_MASKALL\<rparr>)\<rparr>)
   }"

partial_function (option) orphan_children :: "nat option \<Rightarrow> 'a kstate_scheme \<Rightarrow> 'a kstate_scheme option" where
  "orphan_children lc s =
     (case lc of
        None \<Rightarrow> Some s
      | Some c \<Rightarrow> let s = upd_proc c (\<lambda>p. p\<lparr>parent := None\<rparr>) s
                  in orphan_children (next_sibling (procs s c)) s)"

partial_function (option) clear_zombies :: "nat option \<Rightarrow> 'a kstate_scheme \<Rightarrow> 'a kstate_scheme option" where
  "clear_zombies zc s =
     (case zc of
        None \<Rightarrow> Some s
      | Some c \<Rightarrow> let nxt = next_sibling (procs s c)
                  in do { s \<leftarrow> clear_proc c s; clear_zombies nxt s })"

definition exit_as_parent :: "nat \<Rightarrow> 'a kstate_scheme \<Rightarrow> 'a kstate_scheme option" where
  "exit_as_parent i s =
     (let lc = living_child (procs s i); zc = zombie_child (procs s i)
      in do { s \<leftarrow> orphan_children lc s; clear_zombies zc s })"

definition become_zombie :: "nat \<Rightarrow> nat \<Rightarrow> u64 \<Rightarrow> 'a kstate_scheme \<Rightarrow> 'a kstate_scheme" where
  "become_zombie i par ev s =
     (let s = (case zombie_child (procs s par) of
                 None \<Rightarrow> upd_proc i (\<lambda>p. p\<lparr>prev_sibling := None, next_sibling := None\<rparr>)
                           (upd_proc par (\<lambda>p. p\<lparr>zombie_child := Some i\<rparr>) s)
               | Some ohead \<Rightarrow>
                   upd_proc par (\<lambda>p. p\<lparr>zombie_child := Some i\<rparr>)
                     (upd_proc i (\<lambda>p. p\<lparr>next_sibling := Some ohead\<rparr>)
                       (upd_proc ohead (\<lambda>p. p\<lparr>prev_sibling := Some i\<rparr>) s)))
      in upd_proc i (\<lambda>p. p\<lparr>exit_val := ev, state := ZOMBIE\<rparr>) s)"

text \<open>\<^verbatim>\<open>if (q) q->field = v\<close> on a pointer that may be NULL.\<close>

definition upd_opt :: "nat option \<Rightarrow> (proc \<Rightarrow> proc) \<Rightarrow> 'a kstate_scheme \<Rightarrow> 'a kstate_scheme" where
  "upd_opt q f s = (case q of None \<Rightarrow> s | Some q \<Rightarrow> upd_proc q f s)"

definition detach_sibling :: "nat \<Rightarrow> nat \<Rightarrow> 'a kstate_scheme \<Rightarrow> 'a kstate_scheme" where
  "detach_sibling i par s =
     (let s = upd_opt (prev_sibling (procs s i)) (\<lambda>p. p\<lparr>next_sibling := next_sibling (procs s i)\<rparr>) s;
          s = upd_opt (next_sibling (procs s i)) (\<lambda>p. p\<lparr>prev_sibling := prev_sibling (procs s i)\<rparr>) s;
          s = (if living_child (procs s par) = Some i
               then upd_proc par (\<lambda>p. p\<lparr>living_child := next_sibling (procs s i)\<rparr>) s else s)
      in if zombie_child (procs s par) = Some i
         then upd_proc par (\<lambda>p. p\<lparr>zombie_child := next_sibling (procs s i)\<rparr>) s else s)"

definition exit_as_child :: "nat \<Rightarrow> u64 \<Rightarrow> 'a kstate_scheme \<Rightarrow> 'a kstate_scheme option" where
  "exit_as_child i ev s =
     (case parent (procs s i) of
        None \<Rightarrow> clear_proc i s
      | Some par \<Rightarrow>
          if \<not> waiting (procs s par) then Some (become_zombie i par ev s)
          else do {
            let s = upd_proc par (\<lambda>p. p\<lparr>waiting := False\<rparr>) s;
            s \<leftarrow> (if wait_status (procs s par) \<noteq> 0
                 then do {
                   (wstatus, s) \<leftarrow> U2K par (wait_status (procs s par)) True s;
                   Some (kstore64 wstatus ev s)
                 }
                 else Some s);
            let s = upd_proc par (\<lambda>p. p\<lparr>ctx := (ctx p)\<lparr>rax := pid (procs s i)\<rparr>, state := READY\<rparr>) s;
            clear_proc i (detach_sibling i par s)
          })"

definition kill_proc :: "nat \<Rightarrow> u64 \<Rightarrow> 'a kstate_scheme \<Rightarrow> 'a kstate_scheme option" where
  "kill_proc i ev s = do {
     let s = upd_proc i (\<lambda>p. p\<lparr>exit_val := ev\<rparr>) s;
     s \<leftarrow> exit_as_parent i s;
     exit_as_child i ev s
   }"


section \<open>Releasing a process\<close>

lemma upd_proc_more [simp]:
  "pmem (upd_proc i f s) = pmem s" "page_infos (upd_proc i f s) = page_infos s" "k_pageinfo (upd_proc i f s) = k_pageinfo s"
  "cr3 (upd_proc i f s) = cr3 s" "pipes (upd_proc i f s) = pipes s" "kbd_proc (upd_proc i f s) = kbd_proc s"
  "curproc (upd_proc i f s) = curproc s" "fx_ctxs (upd_proc i f s) = fx_ctxs s"
  "procs (upd_proc i f s) = (procs s)(i := f (procs s i))"
  by (simp_all add: upd_proc_def)

lemma page_ok_upd_proc [simp]: "page_ok (upd_proc i f s) q = page_ok s q"
  by (simp add: page_ok_def upd_proc_def PA2PGINFO_def)

lemma PA2PGINFO_upd_proc [simp]: "PA2PGINFO (upd_proc i f s) = PA2PGINFO s"
  by (rule ext) (simp add: PA2PGINFO_def)

lemma free_list_kstate:
  fixes s :: "'a kmem_scheme" and s' :: "'b kmem_scheme"
  assumes "free_list s ps" and "kmem.truncate s' = kmem.truncate s"
  shows "free_list s' ps"
  using assms by (cases s; cases s') (simp add: kmem.truncate_def free_list_def page_ok_def[abs_def] PA2PGINFO_def)

lemma truncate_upd_proc [simp]: "kmem.truncate (upd_proc i f s) = kmem.truncate s"
  by (simp add: upd_proc_def kmem.truncate_def)

lemma free_seq_more: "free_seq ps s = Some s' \<Longrightarrow> kmem.more s' = kmem.more s"
  by (induction ps arbitrary: s) (auto simp: bind_eq_Some_conv dest!: free_page_more)

lemma free_page_page_ok: "free_page p s = Some s' \<Longrightarrow> page_ok s' q = page_ok s q"
  by (auto simp: free_page_def Let_def set_ref_next_def page_ok_def PA2PGINFO_def split: if_splits)

lemma free_seq_page_ok: "free_seq ps s = Some s' \<Longrightarrow> page_ok s' q = page_ok s q"
  by (induction ps arbitrary: s) (auto simp: bind_eq_Some_conv dest!: free_page_page_ok)

lemma for_loop_skip: "(\<And>k. k \<in> set xs \<Longrightarrow> f k s = Some s) \<Longrightarrow> for_loop xs f s = Some s"
  by (induction xs) auto

text \<open>The descriptors \<^verbatim>\<open>clear_proc\<close> releases, in this order: frames and tables of \<^verbatim>\<open>pgtbl\<close>, tables of \<^verbatim>\<open>p_pgtbl\<close>.\<close>

definition space_list :: "'a kmem_scheme \<Rightarrow> u64 \<Rightarrow> u64 \<Rightarrow> u64 list" where
  "space_list s t1 t2 =
     (rel_list (k_pageinfo s) (pmem s) True 3 256 t1 @ [PA2PGINFO s t1]) @
     (rel_list (k_pageinfo s) (pmem s) False 3 256 t2 @ [PA2PGINFO s t2])"

definition releasable :: "'a kmem_scheme \<Rightarrow> u64 list \<Rightarrow> bool" where
  "releasable s qs \<longleftrightarrow> (\<forall>q \<in> set qs. page_ok s q \<and> int (count_list qs q) \<le> ref (page_infos s q))"

text \<open>\<open>s'\<close> is \<open>s\<close> with one reference dropped per occurrence in \<open>qs\<close>; \<open>fs\<close> lost their last one.\<close>

definition dropped :: "'a kmem_scheme \<Rightarrow> 'a kmem_scheme \<Rightarrow> u64 list \<Rightarrow> u64 list \<Rightarrow> u64 list \<Rightarrow> bool" where
  "dropped s s' qs fs ps \<longleftrightarrow> pmem s' = pmem s \<and> k_pageinfo s' = k_pageinfo s \<and> page_ok s' = page_ok s \<and>
     free_list s' (fs @ ps) \<and> distinct fs \<and>
     set fs = {q \<in> set qs. ref (page_infos s q) = int (count_list qs q)} \<and>
     (\<forall>q. q \<notin> set fs \<longrightarrow> ref (page_infos s' q) = ref (page_infos s q) - int (count_list qs q))"

lemma free_spaces:
  fixes s :: "'a kmem_scheme"
  assumes "free_list s ps" and "is_page t1" and "is_page t2" and "releasable s (space_list s t1 t2)"
  obtains s1 s2 fs where "free_pgtbl (P2K t1) FREE_PGTBL_DECREF s = Some s1" "free_pgtbl (P2K t2) 0 s1 = Some s2"
    "dropped s s2 (space_list s t1 t2) fs ps" "kmem.more s1 = kmem.more s" "kmem.more s2 = kmem.more s"
proof -
  let ?q1 = "rel_list (k_pageinfo s) (pmem s) True 3 256 t1 @ [PA2PGINFO s t1]"
  let ?q2 = "rel_list (k_pageinfo s) (pmem s) False 3 256 t2 @ [PA2PGINFO s t2]"
  have qs: "space_list s t1 t2 = ?q1 @ ?q2" by (simp only: space_list_def)
  from assms(4) have "page_ok s q \<and> int (count_list (?q1 @ ?q2) q) \<le> ref (page_infos s q)" if "q \<in> set (?q1 @ ?q2)" for q
    using that unfolding releasable_def qs by blast
  from free_seq_ok[OF assms(1) this] obtain s2 fs where s2: "free_seq (?q1 @ ?q2) s = Some s2" "free_list s2 (fs @ ps)"
    "distinct fs" "set fs = {q \<in> set (?q1 @ ?q2). ref (page_infos s q) = int (count_list (?q1 @ ?q2) q)}"
    "\<forall>q. q \<notin> set fs \<longrightarrow> ref (page_infos s2 q) = ref (page_infos s q) - int (count_list (?q1 @ ?q2) q)" by blast
  from s2(1) obtain s1 where s1: "free_seq ?q1 s = Some s1" "free_seq ?q2 s1 = Some s2"
    unfolding free_seq_append[of ?q1 ?q2] by (auto simp: bind_eq_Some_conv simp del: rel_list.simps)
  have f: "pmem s1 = pmem s" "k_pageinfo s1 = k_pageinfo s" using free_seq_frame[OF s1(1)] by auto
  have "FREE_PGTBL_DECREF AND FREE_PGTBL_DECREF \<noteq> 0" by (simp add: FREE_PGTBL_DECREF_def)
  then have "free_pgtbl (P2K t1) FREE_PGTBL_DECREF s = Some s1"
    using s1(1) by (subst free_pgtbl_list[OF assms(2)]) (simp_all del: rel_list.simps)
  moreover have "free_pgtbl (P2K t2) 0 s1 = Some s2"
    using s1(2) f by (subst free_pgtbl_list[OF assms(3)]) (simp_all add: PA2PGINFO_def del: rel_list.simps)
  moreover have "dropped s s2 (space_list s t1 t2) fs ps"
    unfolding dropped_def qs using s2 free_seq_frame[OF s2(1)] free_seq_page_ok[OF s2(1)] by blast
  ultimately show thesis using that free_seq_more[OF s1(1)] free_seq_more[OF s2(1)] by blast
qed

text \<open>Releasing one list of pages and then another.\<close>

lemma count_list_in: "q \<in> set qs \<Longrightarrow> 0 < count_list qs q"
  by (induction qs) auto

lemma releasable_left: "releasable s (qs1 @ qs2) \<Longrightarrow> releasable s qs1"
  unfolding releasable_def by (auto dest!: bspec)

lemma dropped_releasable:
  assumes "dropped s s1 qs1 fs1 ps" and "releasable s (qs1 @ qs2)"
  shows "releasable s1 qs2" "q \<in> set fs1 \<Longrightarrow> q \<notin> set qs2"
proof -
  have le: "int (count_list qs1 q) + int (count_list qs2 q) \<le> ref (page_infos s q)" "page_ok s q" if "q \<in> set (qs1 @ qs2)" for q
    using assms(2) that unfolding releasable_def by auto
  show d: "q \<notin> set qs2" if "q \<in> set fs1" for q
  proof
    assume "q \<in> set qs2"
    moreover have "q \<in> set qs1" "ref (page_infos s q) = int (count_list qs1 q)" using that assms(1) by (auto simp: dropped_def)
    ultimately show False using le(1)[of q] count_list_in[of q qs2] by simp
  qed
  show "releasable s1 qs2"
    unfolding releasable_def
  proof
    fix q assume q: "q \<in> set qs2"
    then have "q \<notin> set fs1" using d by blast
    then have "ref (page_infos s1 q) = ref (page_infos s q) - int (count_list qs1 q)" using assms(1) by (simp add: dropped_def)
    then show "page_ok s1 q \<and> int (count_list qs2 q) \<le> ref (page_infos s1 q)" using le[of q] q assms(1) by (simp add: dropped_def)
  qed
qed

lemma dropped_trans:
  assumes d1: "dropped s s1 qs1 fs1 ps" and d2: "dropped s1 s2 qs2 fs2 (fs1 @ ps)" and "releasable s (qs1 @ qs2)"
  shows "dropped s s2 (qs1 @ qs2) (fs2 @ fs1) ps"
proof -
  note out = dropped_releasable(2)[OF d1 assms(3)]
  have f1: "q \<in> set fs1 \<longleftrightarrow> q \<in> set qs1 \<and> ref (page_infos s q) = int (count_list qs1 q)" for q using d1 by (simp add: dropped_def)
  have f2: "q \<in> set fs2 \<longleftrightarrow> q \<in> set qs2 \<and> ref (page_infos s1 q) = int (count_list qs2 q)" for q using d2 by (simp add: dropped_def)
  have r1: "ref (page_infos s1 q) = ref (page_infos s q) - int (count_list qs1 q)" if "q \<notin> set fs1" for q
    using d1 that by (simp add: dropped_def)
  have r2: "ref (page_infos s2 q) = ref (page_infos s1 q) - int (count_list qs2 q)" if "q \<notin> set fs2" for q
    using d2 that by (simp add: dropped_def)
  have z: "count_list qs q = 0" if "q \<notin> set qs" for qs and q :: u64 using that by (induction qs) auto
  have "q \<in> set (fs2 @ fs1) \<longleftrightarrow> q \<in> set (qs1 @ qs2) \<and> ref (page_infos s q) = int (count_list (qs1 @ qs2) q)" for q
  proof (cases "q \<in> set fs1")
    case True
    then show ?thesis using out[OF True] f1[of q] z[of q qs2] by simp
  next
    case False
    then show ?thesis using f1[of q] f2[of q] r1[OF False] z[of q qs2] by (cases "q \<in> set qs2") auto
  qed
  then have "set (fs2 @ fs1) = {q \<in> set (qs1 @ qs2). ref (page_infos s q) = int (count_list (qs1 @ qs2) q)}" by blast
  moreover have "distinct (fs2 @ fs1)" using d1 d2 out f2 by (auto simp: dropped_def)
  moreover have "ref (page_infos s2 q) = ref (page_infos s q) - int (count_list (qs1 @ qs2) q)" if "q \<notin> set (fs2 @ fs1)" for q
    using that r1[of q] r2[of q] by simp
  ultimately show ?thesis using d1 d2 by (simp add: dropped_def)
qed

definition no_pipes :: "proc \<Rightarrow> bool" where
  "no_pipes p \<longleftrightarrow> (\<forall>fd < 64. inuse (fdesc p fd) \<longrightarrow> file_type (fdesc p fd) \<notin> {FT_RPIPE, FT_WPIPE})"

text \<open>What \<^verbatim>\<open>clear_proc\<close> leaves of a process without pipes.\<close>

definition cleared :: "nat \<Rightarrow> 'a kstate_scheme \<Rightarrow> 'a kstate_scheme \<Rightarrow> bool" where
  "cleared i s s' \<longleftrightarrow> procs s' = (procs s)(i := zero_proc) \<and> pipes s' = pipes s \<and> curproc s' = curproc s \<and>
     fx_ctxs s' = (fx_ctxs s)(i := zero_fx\<lparr>MXCSR := MXCSR_MASKALL\<rparr>) \<and>
     kbd_proc s' = (if kbd_proc s = Some i then None else kbd_proc s)"

lemma clear_proc_ok:
  fixes s :: "'a kstate_scheme"
  assumes fl: "free_list s ps" and pg: "is_page (pgtbl (procs s i))" "is_page (p_pgtbl (procs s i))"
    and rel: "releasable s (space_list s (pgtbl (procs s i)) (p_pgtbl (procs s i)))" and np: "no_pipes (procs s i)"
  obtains s' fs where "clear_proc i s = Some s'" "cleared i s s'"
    "dropped s s' (space_list s (pgtbl (procs s i)) (p_pgtbl (procs s i))) fs ps"
proof -
  let ?s0 = "upd_proc i (\<lambda>p. p\<lparr>state := PENDING\<rparr>) s" and ?t1 = "pgtbl (procs s i)" and ?t2 = "p_pgtbl (procs s i)"
  have sl: "space_list ?s0 ?t1 ?t2 = space_list s ?t1 ?t2" by (simp add: space_list_def del: rel_list.simps)
  have "free_list ?s0 ps" by (rule free_list_kstate[OF fl]) simp
  moreover have "releasable ?s0 (space_list ?s0 ?t1 ?t2)" using rel by (simp add: sl releasable_def)
  ultimately obtain s1 s2 fs where f: "free_pgtbl (P2K ?t1) FREE_PGTBL_DECREF ?s0 = Some s1"
    "free_pgtbl (P2K ?t2) 0 s1 = Some s2" "dropped ?s0 s2 (space_list ?s0 ?t1 ?t2) fs ps"
    "kmem.more s1 = kmem.more ?s0" "kmem.more s2 = kmem.more ?s0"
    using pg free_spaces[of ?s0 ps ?t1 ?t2] by metis
  note k = more_kstate[OF f(4)] more_kstate[OF f(5)]
  let ?s3 = "if kbd_proc s2 = Some i then s2\<lparr>kbd_proc := None\<rparr> else s2"
  have "clear_fd i fd ?s3 = Some ?s3" if "fd \<in> set [0..<64]" for fd
    using np that k unfolding clear_fd_def no_pipes_def by (auto simp: Let_def)
  then have l: "for_loop [0..<64] (clear_fd i) ?s3 = Some ?s3" by (rule for_loop_skip)
  define s' where "s' = (upd_proc i (\<lambda>_. zero_proc) (upd_proc i (\<lambda>p. p\<lparr>exit_val := 0\<rparr>) ?s3))
    \<lparr>fx_ctxs := (fx_ctxs ?s3)(i := zero_fx\<lparr>MXCSR := MXCSR_MASKALL\<rparr>)\<rparr>"
  have "clear_proc i s = Some s'"
    unfolding clear_proc_def Let_def using f(1,2) k l by (simp add: s'_def del: upt_rec_numeral)
  moreover have "cleared i s s'" using k by (auto simp: cleared_def s'_def)
  moreover have "dropped s s' (space_list s ?t1 ?t2) fs ps"
  proof -
    have "free_list s' (fs @ ps)"
      by (rule free_list_kstate[of s2]) (use f(3) in \<open>simp_all add: dropped_def s'_def kmem.truncate_def upd_proc_def\<close>)
    moreover have "pmem s' = pmem s2 \<and> page_infos s' = page_infos s2 \<and> k_pageinfo s' = k_pageinfo s2" by (simp add: s'_def)
    moreover have "page_ok s' = page_ok s2" by (rule ext) (simp add: s'_def page_ok_def PA2PGINFO_def upd_proc_def)
    moreover have "page_ok ?s0 = page_ok s" by (rule ext) simp
    ultimately show ?thesis using f(3) unfolding dropped_def sl by simp
  qed
  ultimately show thesis by (rule that)
qed

section \<open>Sibling chains\<close>

text \<open>The doubly linked list \<open>xs\<close> that starts at \<open>c\<close>, with \<open>prv\<close> before its first element.\<close>

fun sib_chain :: "(nat \<Rightarrow> proc) \<Rightarrow> nat option \<Rightarrow> nat option \<Rightarrow> nat list \<Rightarrow> bool" where
  "sib_chain P prv c [] \<longleftrightarrow> c = None"
| "sib_chain P prv c (x # xs) \<longleftrightarrow> c = Some x \<and> prev_sibling (P x) = prv \<and> sib_chain P (Some x) (next_sibling (P x)) xs"

definition living_children :: "(nat \<Rightarrow> proc) \<Rightarrow> nat \<Rightarrow> nat list \<Rightarrow> bool" where
  "living_children P par xs \<longleftrightarrow> sib_chain P None (living_child (P par)) xs \<and> distinct xs \<and> par \<notin> set xs"

lemma sib_chain_cong:
  "sib_chain P prv c xs \<Longrightarrow>
   (\<And>x. x \<in> set xs \<Longrightarrow> prev_sibling (Q x) = prev_sibling (P x) \<and> next_sibling (Q x) = next_sibling (P x)) \<Longrightarrow>
   sib_chain Q prv c xs"
  by (induction xs arbitrary: prv c) auto

lemma sib_chain_hd: "sib_chain P prv c xs \<Longrightarrow> c = (if xs = [] then None else Some (hd xs))"
  by (cases xs) auto

lemma sib_chain_mid:
  "sib_chain P prv c (ys @ i # zs) \<Longrightarrow>
   next_sibling (P i) = (if zs = [] then None else Some (hd zs)) \<and>
   prev_sibling (P i) = (if ys = [] then prv else Some (last ys))"
  by (induction ys arbitrary: prv c) (auto dest: sib_chain_hd split: if_splits)

definition unlinked :: "nat \<Rightarrow> (nat \<Rightarrow> proc) \<Rightarrow> (nat \<Rightarrow> proc) \<Rightarrow> bool" where
  "unlinked i P Q \<longleftrightarrow> (\<forall>x. x \<noteq> i \<longrightarrow>
     next_sibling (Q x) = (if prev_sibling (P i) = Some x then next_sibling (P i) else next_sibling (P x)) \<and>
     prev_sibling (Q x) = (if next_sibling (P i) = Some x then prev_sibling (P i) else prev_sibling (P x)))"

lemma sib_chain_unlink:
  assumes "sib_chain P prv c (ys @ i # zs)" and "distinct (ys @ i # zs)" and "prv \<notin> Some ` set (ys @ i # zs)"
    and "unlinked i P Q"
  shows "sib_chain Q prv (if ys = [] then next_sibling (P i) else c) (ys @ zs)"
  using assms(1,2,3)
proof (induction ys arbitrary: prv c)
  case Nil
  then show ?case
  proof (cases zs)
    case (Cons z zs')
    have q: "next_sibling (Q x) = next_sibling (P x) \<and>
        prev_sibling (Q x) = (if x = z then prv else prev_sibling (P x))" if "x \<in> set zs" for x
    proof -
      have "prv \<noteq> Some x" "x \<noteq> i" using that Nil.prems(2,3) by auto
      then show ?thesis using Nil.prems(1) Cons assms(4) by (auto simp: unlinked_def)
    qed
    have "sib_chain Q (Some z) (next_sibling (P z)) zs'"
      by (rule sib_chain_cong[of P]) (use Nil.prems Cons q in auto)
    then show ?thesis using Nil.prems Cons q[of z] by simp
  qed simp
next
  case (Cons y ys)
  note mid = sib_chain_mid[OF Cons.prems(1)]
  have "sib_chain Q (Some y) (if ys = [] then next_sibling (P i) else next_sibling (P y)) (ys @ zs)"
    using Cons.prems by (intro Cons.IH) auto
  moreover have "prev_sibling (P i) = Some y \<longleftrightarrow> ys = []"
    using mid Cons.prems(2) by (cases ys rule: rev_cases) auto
  moreover have "next_sibling (P i) \<noteq> Some y"
    using mid Cons.prems(2) by (cases zs) auto
  ultimately show ?case using Cons.prems assms(4) by (simp add: unlinked_def)
qed

lemma procs_upd_opt: "procs (upd_opt q f s) x = (if q = Some x then f (procs s x) else procs s x)"
  by (auto simp: upd_opt_def split: option.splits)

text \<open>Only the process table differs.\<close>

definition only_procs :: "'a kstate_scheme \<Rightarrow> 'a kstate_scheme \<Rightarrow> bool" where
  "only_procs s s' \<longleftrightarrow> (\<exists>P. s' = s\<lparr>procs := P\<rparr>)"

lemma only_procsI [intro]:
  "only_procs s s"
  "only_procs s t \<Longrightarrow> only_procs s (upd_proc q f t)"
  "only_procs s t \<Longrightarrow> only_procs s (upd_opt c f t)"
  "only_procs s t \<Longrightarrow> only_procs s u \<Longrightarrow> only_procs s (if b then t else u)"
  by (auto simp: only_procs_def upd_proc_def upd_opt_def split: option.splits
      intro: exI[of _ "procs s"])

lemma only_procs_frame:
  "only_procs s s' \<Longrightarrow> pmem s' = pmem s \<and> page_infos s' = page_infos s \<and> k_pageinfo s' = k_pageinfo s \<and> cr3 s' = cr3 s \<and>
     pipes s' = pipes s \<and> curproc s' = curproc s \<and> kbd_proc s' = kbd_proc s \<and> fx_ctxs s' = fx_ctxs s \<and>
     kmem.truncate s' = kmem.truncate s"
  by (auto simp: only_procs_def kmem.truncate_def)

lemma detach_only_procs: "only_procs s (detach_sibling i par s)"
  unfolding detach_sibling_def Let_def by (intro only_procsI)

lemma detach_sibling_ok:
  assumes "prev_sibling (procs s i) \<noteq> Some i" and "next_sibling (procs s i) \<noteq> Some i" and "i \<noteq> par"
    and "zombie_child (procs s par) \<noteq> Some i"
  shows "procs (detach_sibling i par s) x = (procs s x)
    \<lparr>next_sibling := (if prev_sibling (procs s i) = Some x then next_sibling (procs s i) else next_sibling (procs s x)),
     prev_sibling := (if next_sibling (procs s i) = Some x then prev_sibling (procs s i) else prev_sibling (procs s x)),
     living_child := (if x = par \<and> living_child (procs s par) = Some i then next_sibling (procs s i)
       else living_child (procs s x))\<rparr>"
proof -
  define s1 where "s1 = upd_opt (prev_sibling (procs s i)) (\<lambda>p. p\<lparr>next_sibling := next_sibling (procs s i)\<rparr>) s"
  define s2 where "s2 = upd_opt (next_sibling (procs s i)) (\<lambda>p. p\<lparr>prev_sibling := prev_sibling (procs s i)\<rparr>) s1"
  have 1: "procs s1 i = procs s i" using assms(1) by (simp add: s1_def procs_upd_opt)
  have 2: "procs s2 i = procs s i" using assms(2) 1 by (simp add: s2_def procs_upd_opt)
  have p2: "procs s2 x = (procs s x)
      \<lparr>next_sibling := (if prev_sibling (procs s i) = Some x then next_sibling (procs s i) else next_sibling (procs s x)),
       prev_sibling := (if next_sibling (procs s i) = Some x then prev_sibling (procs s i) else prev_sibling (procs s x))\<rparr>" for x
    by (simp add: s2_def s1_def procs_upd_opt)
  have lz: "living_child (procs s2 par) = living_child (procs s par)" "zombie_child (procs s2 par) = zombie_child (procs s par)"
    by (simp_all add: p2)
  have "detach_sibling i par s = (if living_child (procs s par) = Some i
      then upd_proc par (\<lambda>p. p\<lparr>living_child := next_sibling (procs s i)\<rparr>) s2 else s2)"
    using assms(3,4) lz 1 2 unfolding detach_sibling_def Let_def s1_def[symmetric] 1 s2_def[symmetric] 2 by (simp add: lz)
  then show ?thesis by (simp add: p2)
qed

lemma truncate_frame:
  fixes s :: "'a kmem_scheme" and t :: "'b kmem_scheme"
  assumes "kmem.truncate t = kmem.truncate s"
  shows "pmem t = pmem s" "page_infos t = page_infos s" "k_pageinfo t = k_pageinfo s" "page_ok t = page_ok s"
    "free_list t = free_list s" "space_list t = space_list s"
proof -
  have f: "pmem t = pmem s \<and> page_infos t = page_infos s \<and> k_pageinfo t = k_pageinfo s \<and> end_kmem t = end_kmem s \<and> max_addr t = max_addr s"
    using assms by (cases s; cases t) (simp add: kmem.truncate_def)
  then show "pmem t = pmem s" "page_infos t = page_infos s" "k_pageinfo t = k_pageinfo s" by simp_all
  show "page_ok t = page_ok s" by (rule ext) (use f in \<open>simp add: page_ok_def PA2PGINFO_def\<close>)
  show "free_list t = free_list s" using free_list_kstate[OF _ assms] free_list_kstate[OF _ assms[symmetric]] by blast
  show "space_list t = space_list s" by (intro ext) (use f in \<open>simp add: space_list_def PA2PGINFO_def del: rel_list.simps\<close>)
qed

lemma dropped_truncate:
  fixes s s' :: "'a kmem_scheme" and t t' :: "'b kmem_scheme"
  assumes "kmem.truncate t = kmem.truncate s" and "kmem.truncate t' = kmem.truncate s'"
  shows "dropped t t' qs fs ps = dropped s s' qs fs ps"
  unfolding dropped_def truncate_frame[OF assms(1)] truncate_frame[OF assms(2)] ..

section \<open>The children of a process that ends\<close>

definition space_of :: "'a kstate_scheme \<Rightarrow> nat \<Rightarrow> u64 list" where
  "space_of s x = space_list s (pgtbl (procs s x)) (p_pgtbl (procs s x))"

text \<open>A process that \<^verbatim>\<open>clear_proc\<close> can release: it has page tables and no pipes.\<close>

definition clearable :: "proc \<Rightarrow> bool" where
  "clearable p \<longleftrightarrow> is_page (pgtbl p) \<and> is_page (p_pgtbl p) \<and> no_pipes p"

text \<open>The chain of zombies; their \<^verbatim>\<open>prev_sibling\<close> is not maintained by the code.\<close>

fun next_chain :: "(nat \<Rightarrow> proc) \<Rightarrow> nat option \<Rightarrow> nat list \<Rightarrow> bool" where
  "next_chain P c [] \<longleftrightarrow> c = None"
| "next_chain P c (x # xs) \<longleftrightarrow> c = Some x \<and> next_chain P (next_sibling (P x)) xs"

definition zombies :: "(nat \<Rightarrow> proc) \<Rightarrow> nat \<Rightarrow> nat list \<Rightarrow> bool" where
  "zombies P i zs \<longleftrightarrow> next_chain P (zombie_child (P i)) zs \<and> distinct zs"

lemma next_chain_cong:
  "next_chain P c xs \<Longrightarrow> (\<And>x. x \<in> set xs \<Longrightarrow> next_sibling (Q x) = next_sibling (P x)) \<Longrightarrow> next_chain Q c xs"
  by (induction xs arbitrary: c) auto

text \<open>The processes \<open>Z\<close> are cleared, the others are as before.\<close>

definition reaped :: "nat set \<Rightarrow> 'a kstate_scheme \<Rightarrow> 'a kstate_scheme \<Rightarrow> bool" where
  "reaped Z s s' \<longleftrightarrow> procs s' = (\<lambda>x. if x \<in> Z then zero_proc else procs s x) \<and> pipes s' = pipes s \<and> curproc s' = curproc s \<and>
     fx_ctxs s' = (\<lambda>x. if x \<in> Z then zero_fx\<lparr>MXCSR := MXCSR_MASKALL\<rparr> else fx_ctxs s x)"

lemma cleared_reaped: "cleared i s s' \<Longrightarrow> reaped {i} s s'"
  by (auto simp: cleared_def reaped_def)

lemma reaped_trans: "reaped A s s1 \<Longrightarrow> reaped B s1 s2 \<Longrightarrow> reaped (A \<union> B) s s2"
  by (auto simp: reaped_def)

lemma clear_zombies_ok:
  fixes s :: "'a kstate_scheme"
  assumes "next_chain (procs s) c zs" and "distinct zs" and "free_list s ps" and "\<forall>z \<in> set zs. clearable (procs s z)"
    and "releasable s (concat (map (space_of s) zs))"
  shows "\<exists>s' fs. clear_zombies c s = Some s' \<and> reaped (set zs) s s' \<and> dropped s s' (concat (map (space_of s) zs)) fs ps"
  using assms
proof (induction zs arbitrary: c s ps)
  case Nil
  then show ?case by (auto simp: clear_zombies.simps reaped_def dropped_def intro!: exI[of _ "[]"])
next
  case (Cons z zs)
  let ?qs = "concat (map (space_of s) zs)"
  have rel: "releasable s (space_of s z @ ?qs)" using Cons.prems(5) by simp
  then have "releasable s (space_list s (pgtbl (procs s z)) (p_pgtbl (procs s z)))"
    using releasable_left[OF rel] by (simp add: space_of_def)
  with Cons.prems(3,4) obtain s1 fs1 where s1: "clear_proc z s = Some s1" "cleared z s s1" "dropped s s1 (space_of s z) fs1 ps"
    using clear_proc_ok[of s ps z] unfolding clearable_def space_of_def by (metis list.set_intros(1))
  have p1: "procs s1 x = procs s x" if "x \<in> set zs" for x using s1(2) that Cons.prems(2) by (auto simp: cleared_def)
  have "space_of s1 x = space_of s x" if "x \<in> set zs" for x
    using s1(3) p1[OF that] by (simp add: space_of_def space_list_def dropped_def PA2PGINFO_def del: rel_list.simps)
  then have sp: "concat (map (space_of s1) zs) = ?qs" by (simp cong: map_cong)
  have "next_chain (procs s1) (next_sibling (procs s z)) zs"
    by (rule next_chain_cong[of "procs s"]) (use Cons.prems(1) p1 in auto)
  moreover have "free_list s1 (fs1 @ ps)" using s1(3) by (simp add: dropped_def)
  moreover have "releasable s1 (concat (map (space_of s1) zs))" unfolding sp by (rule dropped_releasable(1)[OF s1(3) rel])
  ultimately obtain s' fs2 where s': "clear_zombies (next_sibling (procs s z)) s1 = Some s'" "reaped (set zs) s1 s'"
    "dropped s1 s' ?qs fs2 (fs1 @ ps)"
    using Cons.IH[of s1 "next_sibling (procs s z)" "fs1 @ ps"] Cons.prems(2,4) p1 unfolding sp by auto
  have "clear_zombies c s = Some s'"
    using Cons.prems(1) s1(1) s'(1) by (subst clear_zombies.simps) (simp add: Let_def)
  moreover have "reaped (set (z # zs)) s s'" using reaped_trans[OF cleared_reaped[OF s1(2)] s'(2)] by simp
  moreover have "dropped s s' (concat (map (space_of s) (z # zs))) (fs2 @ fs1) ps"
    using dropped_trans[OF s1(3) s'(3) rel] by simp
  ultimately show ?case by blast
qed

lemma orphan_chain:
  "sib_chain (procs s) prv c xs \<Longrightarrow> distinct xs \<Longrightarrow>
   orphan_children c s = Some (s\<lparr>procs := (\<lambda>x. if x \<in> set xs then (procs s x)\<lparr>parent := None\<rparr> else procs s x)\<rparr>)"
proof (induction xs arbitrary: prv c s)
  case Nil
  then show ?case by (simp add: orphan_children.simps)
next
  case (Cons x xs)
  let ?s = "upd_proc x (\<lambda>p. p\<lparr>parent := None\<rparr>) s"
  have "sib_chain (procs ?s) (Some x) (next_sibling (procs ?s x)) xs"
    by (rule sib_chain_cong[of "procs s"]) (use Cons.prems in auto)
  note IH = Cons.IH[OF this]
  have "orphan_children c s = orphan_children (next_sibling (procs ?s x)) ?s"
    using Cons.prems by (subst orphan_children.simps) (simp add: Let_def)
  also have "\<dots> = Some (?s\<lparr>procs := (\<lambda>y. if y \<in> set xs then (procs ?s y)\<lparr>parent := None\<rparr> else procs ?s y)\<rparr>)"
    using IH Cons.prems by simp
  also have "?s\<lparr>procs := (\<lambda>y. if y \<in> set xs then (procs ?s y)\<lparr>parent := None\<rparr> else procs ?s y)\<rparr> =
      s\<lparr>procs := (\<lambda>y. if y \<in> set (x # xs) then (procs s y)\<lparr>parent := None\<rparr> else procs s y)\<rparr>"
    using Cons.prems unfolding upd_proc_def
    by (simp, intro arg_cong[where f = "\<lambda>P. s\<lparr>procs := P\<rparr>"] ext) simp
  finally show ?case .
qed

text \<open>What \<^verbatim>\<open>exit_as_parent\<close> makes of the process table.\<close>

definition childless :: "nat list \<Rightarrow> nat list \<Rightarrow> (nat \<Rightarrow> proc) \<Rightarrow> nat \<Rightarrow> proc" where
  "childless xs zs P x = (if x \<in> set zs then zero_proc else if x \<in> set xs then (P x)\<lparr>parent := None\<rparr> else P x)"

lemma exit_as_parent_ok:
  fixes s :: "'a kstate_scheme"
  assumes "living_children (procs s) i xs" and "zombies (procs s) i zs" and "free_list s ps"
    and "\<forall>z \<in> set zs. clearable (procs s z)" and "releasable s (concat (map (space_of s) zs))"
  obtains s' fs where "exit_as_parent i s = Some s'" "procs s' = childless xs zs (procs s)"
    "dropped s s' (concat (map (space_of s) zs)) fs ps" "curproc s' = curproc s" "pipes s' = pipes s"
    "fx_ctxs s' = (\<lambda>x. if x \<in> set zs then zero_fx\<lparr>MXCSR := MXCSR_MASKALL\<rparr> else fx_ctxs s x)"
proof -
  define s1 where "s1 = s\<lparr>procs := (\<lambda>x. if x \<in> set xs then (procs s x)\<lparr>parent := None\<rparr> else procs s x)\<rparr>"
  have o: "orphan_children (living_child (procs s i)) s = Some s1"
    using assms(1) orphan_chain[of s None "living_child (procs s i)" xs] by (simp add: living_children_def s1_def)
  have tr: "kmem.truncate s1 = kmem.truncate s" by (simp add: s1_def kmem.truncate_def)
  note fr = truncate_frame[OF tr]
  have sp: "space_of s1 = space_of s" by (rule ext) (simp add: space_of_def fr(6), simp add: s1_def)
  have "next_chain (procs s1) (zombie_child (procs s i)) zs"
    by (rule next_chain_cong[of "procs s"]) (use assms(2) in \<open>auto simp: zombies_def s1_def\<close>)
  moreover have "\<forall>z \<in> set zs. clearable (procs s1 z)" using assms(4) by (simp add: clearable_def no_pipes_def s1_def)
  moreover have "releasable s1 (concat (map (space_of s1) zs))" using assms(5) by (simp add: releasable_def sp fr)
  ultimately obtain s' fs where s': "clear_zombies (zombie_child (procs s i)) s1 = Some s'" "reaped (set zs) s1 s'"
    "dropped s1 s' (concat (map (space_of s) zs)) fs ps"
    using clear_zombies_ok[of s1 "zombie_child (procs s i)" zs ps] assms(2,3) fr(5) unfolding sp zombies_def by auto
  show thesis
  proof (rule that)
    show "exit_as_parent i s = Some s'" using o s'(1) by (simp add: exit_as_parent_def Let_def)
    show "procs s' = childless xs zs (procs s)" using s'(2) by (auto simp: reaped_def childless_def s1_def)
    show "dropped s s' (concat (map (space_of s) zs)) fs ps" using s'(3) dropped_truncate[OF tr refl] by blast
  qed (use s'(2) in \<open>auto simp: reaped_def s1_def\<close>)
qed

section \<open>The status word\<close>

text \<open>The pages of the tables that \<^verbatim>\<open>free_pgtbl\<close> looks at.\<close>

fun table_pages :: "bytes \<Rightarrow> nat \<Rightarrow> nat \<Rightarrow> u64 \<Rightarrow> u64 set" where
  "table_pages m 0 n t = {t}"
| "table_pages m (Suc d) n t =
     insert t (\<Union>i \<in> {i. i < n \<and> present (ent m t i)}. table_pages m d 512 (sub (ent m t i)))"

lemma rel_list_agree:
  "agree (table_pages m d n t) m m' \<Longrightarrow> is_page t \<Longrightarrow> n \<le> 512 \<Longrightarrow> rel_list kpi m' dec d n t = rel_list kpi m dec d n t"
proof (induction m d n t rule: table_pages.induct)
  case (1 m n t)
  then have "ent m' t i = ent m t i" if "i < n" for i using that by (intro agree_ent[of "{t}"]) simp_all
  then show ?case by (auto intro!: arg_cong[where f = concat] map_cong)
next
  case (2 m d n t)
  have e: "ent m' t i = ent m t i" if "i < n" for i
    using 2(2-4) that by (intro agree_ent[of "table_pages m (Suc d) n t"]) simp_all
  have "rel_list kpi m' dec d 512 (sub (ent m t i)) = rel_list kpi m dec d 512 (sub (ent m t i))" if "i < n" "present (ent m t i)" for i
    by (rule 2(1)) (use that in \<open>auto intro!: agree_mono[OF 2(2)]\<close>)
  then show ?case using e by (auto intro!: arg_cong[where f = concat] map_cong)
qed

definition space_pages :: "bytes \<Rightarrow> proc \<Rightarrow> u64 set" where
  "space_pages m p = table_pages m 3 256 (pgtbl p) \<union> table_pages m 3 256 (p_pgtbl p)"

text \<open>Both page tables of the process map the user address \<open>va\<close> by the same entry, so that \<^verbatim>\<open>U2K\<close> makes no copy; \<open>ka\<close> is its kernel address.\<close>

definition private_word :: "bytes \<Rightarrow> proc \<Rightarrow> u64 \<Rightarrow> u64 \<Rightarrow> bool" where
  "private_word m p va ka \<longleftrightarrow> no_huge m (sub (pgtbl p)) (va_path va) \<and> no_huge m (sub (p_pgtbl p)) (va_path va) \<and>
     lookup m (sub (pgtbl p)) (va_indices va) = lookup m (sub (p_pgtbl p)) (va_indices va) \<and>
     lookup m (sub (pgtbl p)) (va_indices va) AND (PTE_P OR PTE_U) = PTE_P OR PTE_U \<and>
     ka = PAGEKADDR (lookup m (sub (pgtbl p)) (va_indices va)) OR (va AND PGMASK)"

lemma private_word_cong: "pgtbl q = pgtbl p \<Longrightarrow> p_pgtbl q = p_pgtbl p \<Longrightarrow> private_word m q = private_word m p"
  by (intro ext) (simp only: private_word_def)

lemma private_word_U2K:
  assumes "private_word (pmem s) (procs s i) va ka"
  shows "U2K i va w s = Some (ka, s)"
proof -
  let ?e = "lookup (pmem s) (sub (pgtbl (procs s i))) (va_indices va)"
  have p: "no_huge (pmem s) (sub (pgtbl (procs s i))) (va_path va)" "no_huge (pmem s) (sub (p_pgtbl (procs s i))) (va_path va)"
    "lookup (pmem s) (sub (p_pgtbl (procs s i))) (va_indices va) = ?e" "?e AND (PTE_P OR PTE_U) = PTE_P OR PTE_U"
    "ka = PAGEKADDR ?e OR (va AND PGMASK)" using assms unfolding private_word_def by metis+
  have "?e \<noteq> 0" using p(4) by (auto simp: PTE_P_def PTE_U_def)
  then show ?thesis unfolding p(5) using U2K_lookup[OF p(1,2) refl p(3,4) refl] by simp
qed

text \<open>
  The parent \<open>par\<close> asked for no status, or for one at a private word \<open>ka\<close> that is not part of the page
  tables of the child \<open>i\<close>; the memory after the status \<open>ev\<close> was stored.
\<close>

definition status_ok :: "'a kstate_scheme \<Rightarrow> nat \<Rightarrow> nat \<Rightarrow> u64 \<Rightarrow> bool" where
  "status_ok s i par ka \<longleftrightarrow> wait_status (procs s par) = 0 \<or>
     private_word (pmem s) (procs s par) (wait_status (procs s par)) ka \<and>
     (\<forall>x \<in> bytes8 (K2P ka). page_of x \<notin> space_pages (pmem s) (procs s i))"

definition told :: "nat \<Rightarrow> u64 \<Rightarrow> u64 \<Rightarrow> 'a kstate_scheme \<Rightarrow> 'a kstate_scheme" where
  "told par ka ev s = (if wait_status (procs s par) = 0 then s else kstore64 ka ev s)"

lemma told_frame:
  "page_infos (told par ka ev s) = page_infos s" "k_pageinfo (told par ka ev s) = k_pageinfo s"
  "page_ok (told par ka ev s) = page_ok s" "free_list (told par ka ev s) = free_list s" "kmem.more (told par ka ev s) = kmem.more s"
  by (auto simp: told_def kstore64_def page_ok_def[abs_def] PA2PGINFO_def)

lemma told_space:
  assumes "status_ok s i par ka" and "is_page (pgtbl (procs s i))" and "is_page (p_pgtbl (procs s i))"
  shows "space_list (told par ka ev s) (pgtbl (procs s i)) (p_pgtbl (procs s i)) = space_list s (pgtbl (procs s i)) (p_pgtbl (procs s i))"
proof (cases "wait_status (procs s par) = 0")
  case False
  then have "page_of x \<notin> space_pages (pmem s) (procs s i)" if "x \<in> bytes8 (K2P ka)" for x
    using assms(1) that by (auto simp: status_ok_def)
  then have "agree (space_pages (pmem s) (procs s i)) (pmem s) (store64 (pmem s) (K2P ka) ev)"
    unfolding agree_def by (metis store64_outside)
  then have "agree (table_pages (pmem s) 3 256 t) (pmem s) (store64 (pmem s) (K2P ka) ev)" if "t = pgtbl (procs s i) \<or> t = p_pgtbl (procs s i)" for t
    using that by (auto simp: space_pages_def elim: agree_mono simp del: table_pages.simps)
  then have "rel_list (k_pageinfo s) (store64 (pmem s) (K2P ka) ev) dec 3 256 t = rel_list (k_pageinfo s) (pmem s) dec 3 256 t"
    if "t = pgtbl (procs s i) \<or> t = p_pgtbl (procs s i)" for t dec
    using that assms(2,3) by (intro rel_list_agree) auto
  then show ?thesis using False by (simp add: told_def kstore64_def space_list_def PA2PGINFO_def del: rel_list.simps)
qed (simp add: told_def)

section \<open>The end of an awaited process\<close>

text \<open>A process without its links to other processes.\<close>

definition sans_links :: "proc \<Rightarrow> proc" where
  "sans_links p = p\<lparr>parent := None, prev_sibling := None, next_sibling := None, living_child := None\<rparr>"

text \<open>The parent \<open>p\<close> when it is woken by a child with the process id \<open>n\<close>.\<close>

definition woken :: "u64 \<Rightarrow> proc \<Rightarrow> proc" where
  "woken n p = p\<lparr>waiting := False, ctx := (ctx p)\<lparr>rax := n\<rparr>, state := READY\<rparr>"

text \<open>The part of \<^verbatim>\<open>exit_as_child\<close> for an awaited process, up to \<^verbatim>\<open>clear_proc\<close>.\<close>

lemma exit_awaited_eq:
  fixes s :: "'a kstate_scheme"
  assumes "parent (procs s i) = Some par" and "waiting (procs s par)" and "i \<noteq> par"
    and "wait_status (procs s par) \<noteq> 0 \<longrightarrow> private_word (pmem s) (procs s par) (wait_status (procs s par)) ka"
  shows "exit_as_child i ev s = clear_proc i (detach_sibling i par (upd_proc par (woken (pid (procs s i))) (told par ka ev s)))"
proof -
  let ?s = "upd_proc par (\<lambda>p. p\<lparr>waiting := False\<rparr>) s"
  have U: "U2K par (wait_status (procs ?s par)) True ?s = Some (ka, ?s)" if "wait_status (procs ?s par) \<noteq> 0"
    using assms(4) that private_word_cong[of "procs ?s par" "procs s par"] by (intro private_word_U2K) simp
  have w: "(if wait_status (procs ?s par) \<noteq> 0
      then do { (wstatus, s) \<leftarrow> U2K par (wait_status (procs ?s par)) True ?s; Some (kstore64 wstatus ev s) }
      else Some ?s) = Some (told par ka ev ?s)"
  proof (cases "wait_status (procs ?s par) = 0")
    case False
    then show ?thesis unfolding U[OF False] by (simp add: told_def)
  qed (simp add: told_def)
  have u: "upd_proc par (\<lambda>p. p\<lparr>ctx := (ctx p)\<lparr>rax := n\<rparr>, state := READY\<rparr>) (told par ka ev ?s) = upd_proc par (woken n) (told par ka ev s)" for n
    by (simp add: told_def kstore64_def upd_proc_def woken_def)
  have pi: "procs (told par ka ev ?s) i = procs s i" using assms(3) by (simp add: told_def kstore64_def)
  have "\<not> (\<not> waiting (procs s par))" using assms(2) by simp
  then show ?thesis unfolding exit_as_child_def Let_def assms(1) option.case w bind.simps u pi by (rule if_not_P)
qed

lemma exit_awaited_ok:
  fixes s :: "'a kstate_scheme"
  assumes "parent (procs s i) = Some par" and "waiting (procs s par)" and st: "status_ok s i par ka"
    and ch: "living_children (procs s) par (ys @ i # ws)" and "zombie_child (procs s par) \<noteq> Some i"
    and "free_list s ps" and cl: "clearable (procs s i)" and rel: "releasable s (space_of s i)"
  obtains s' fs where "exit_as_child i ev s = Some s'" "curproc s' = curproc s" "living_children (procs s') par (ys @ ws)"
    "procs s' i = zero_proc" "\<forall>x. x \<notin> insert par (set (ys @ i # ws)) \<longrightarrow> procs s' x = procs s x"
    "\<forall>x. x \<noteq> i \<longrightarrow> sans_links (procs s' x) = sans_links (if x = par then woken (pid (procs s i)) (procs s x) else procs s x)"
    "fx_ctxs s' = (fx_ctxs s)(i := zero_fx\<lparr>MXCSR := MXCSR_MASKALL\<rparr>)" "dropped (told par ka ev s) s' (space_of s i) fs ps"
proof -
  let ?t = "told par ka ev s"
  define s2 where "s2 = upd_proc par (woken (pid (procs s i))) ?t"
  define s3 where "s3 = detach_sibling i par s2"
  have ne: "i \<noteq> par" using ch by (auto simp: living_children_def)
  have pg: "is_page (pgtbl (procs s i))" "is_page (p_pgtbl (procs s i))" "no_pipes (procs s i)" using cl by (simp_all add: clearable_def)
  have eq: "exit_as_child i ev s = clear_proc i s3"
    unfolding s3_def s2_def by (rule exit_awaited_eq) (use assms(1,2) st ne in \<open>auto simp: status_ok_def\<close>)
  note more = more_kstate[OF told_frame(5), of par ka ev s]
  have p2: "procs s2 = (procs s)(par := woken (pid (procs s i)) (procs s par))" using more by (simp add: s2_def)
  have chain: "sib_chain (procs s) None (living_child (procs s par)) (ys @ i # ws)"
    and di: "distinct (ys @ i # ws)" "par \<notin> set (ys @ i # ws)"
    using ch by (auto simp: living_children_def)
  have same: "prev_sibling (procs s2 x) = prev_sibling (procs s x) \<and> next_sibling (procs s2 x) = next_sibling (procs s x) \<and>
      living_child (procs s2 x) = living_child (procs s x) \<and> zombie_child (procs s2 x) = zombie_child (procs s x)" for x
    by (simp add: p2 woken_def)
  note mid = sib_chain_mid[OF chain]
  have nself: "prev_sibling (procs s i) \<noteq> Some i" "next_sibling (procs s i) \<noteq> Some i"
    using mid di by (auto split: if_splits)
  have d: "procs s3 x = (procs s2 x)
    \<lparr>next_sibling := (if prev_sibling (procs s i) = Some x then next_sibling (procs s i) else next_sibling (procs s x)),
     prev_sibling := (if next_sibling (procs s i) = Some x then prev_sibling (procs s i) else prev_sibling (procs s x)),
     living_child := (if x = par \<and> living_child (procs s par) = Some i then next_sibling (procs s i)
       else living_child (procs s x))\<rparr>" for x
    using detach_sibling_ok[of s2 i par x] nself ne assms(5) same by (simp add: s3_def)
  have op: "only_procs s2 s3" unfolding s3_def by (rule detach_only_procs)
  have tr: "kmem.truncate s3 = kmem.truncate ?t" using only_procs_frame[OF op] by (simp add: s2_def)
  note fr = truncate_frame[OF tr]
  have tb: "pgtbl (procs s3 i) = pgtbl (procs s i)" "p_pgtbl (procs s3 i) = p_pgtbl (procs s i)" "no_pipes (procs s3 i)"
    using pg(3) ne by (simp_all add: d p2 no_pipes_def)
  have sp: "space_list s3 (pgtbl (procs s i)) (p_pgtbl (procs s i)) = space_of s i"
    unfolding fr(6) using told_space[OF st pg(1,2)] by (simp add: space_of_def)
  have "free_list s3 ps" using assms(6) by (simp add: fr(5) told_frame)
  moreover have "releasable s3 (space_of s i)" using rel by (simp add: releasable_def fr told_frame)
  ultimately obtain s' fs where s': "clear_proc i s3 = Some s'" "cleared i s3 s'" "dropped s3 s' (space_of s i) fs ps"
    using clear_proc_ok[of s3 ps i] pg(1,2) tb sp by metis
  have p': "procs s' = (procs s3)(i := zero_proc)" using s'(2) by (simp add: cleared_def)
  have "unlinked i (procs s) (procs s')" using ne by (auto simp: unlinked_def p' d)
  moreover have "living_child (procs s' par) = (if ys = [] then next_sibling (procs s i) else living_child (procs s par))"
    using sib_chain_hd[OF chain] ne di by (cases ys) (auto simp: p' d)
  ultimately have lv: "living_children (procs s') par (ys @ ws)"
    using sib_chain_unlink[OF chain di(1), of "procs s'"] di by (auto simp: living_children_def)
  have k3: "curproc s3 = curproc s" "fx_ctxs s3 = fx_ctxs s" using only_procs_frame[OF op] more by (simp_all add: s2_def)
  show thesis
  proof (rule that)
    show "exit_as_child i ev s = Some s'" using eq s'(1) by simp
    show "curproc s' = curproc s" "fx_ctxs s' = (fx_ctxs s)(i := zero_fx\<lparr>MXCSR := MXCSR_MASKALL\<rparr>)"
      using s'(2) k3 by (simp_all add: cleared_def)
    show "\<forall>x. x \<notin> insert par (set (ys @ i # ws)) \<longrightarrow> procs s' x = procs s x"
    proof (intro allI impI)
      fix x assume x: "x \<notin> insert par (set (ys @ i # ws))"
      have "prev_sibling (procs s i) \<noteq> Some x" "next_sibling (procs s i) \<noteq> Some x"
        using mid x by (cases ys rule: rev_cases; cases ws; force)+
      then show "procs s' x = procs s x" using x by (simp add: p' d p2)
    qed
    show "\<forall>x. x \<noteq> i \<longrightarrow> sans_links (procs s' x) = sans_links (if x = par then woken (pid (procs s i)) (procs s x) else procs s x)"
      by (simp add: p' d p2 sans_links_def)
    show "dropped ?t s' (space_of s i) fs ps" using s'(3) dropped_truncate[OF tr refl] by blast
  qed (use lv p' in simp_all)
qed

lemma sans_links_field: "sans_links p = sans_links q \<Longrightarrow> (\<And>r. f (sans_links r) = f r) \<Longrightarrow> f p = f q"
  by metis

lemma dropped_told:
  assumes "dropped s s1 qs fs ps" and "wait_status (procs s1 par) = wait_status (procs s par)"
  shows "dropped (told par ka ev s) (told par ka ev s1) qs fs ps"
proof -
  have "pmem (told par ka ev s1) = pmem (told par ka ev s)" using assms by (simp add: told_def kstore64_def dropped_def)
  then show ?thesis using assms(1) by (simp add: dropped_def told_frame)
qed

text \<open>
  What \<^verbatim>\<open>kill_proc\<close> does to the process \<open>i\<close> that its parent waits for: with the living children \<open>xs\<close> and the zombies \<open>zs\<close> of
  its own, between the siblings \<open>ys\<close> and \<open>ws\<close>.
\<close>

definition awaited :: "'a kstate_scheme \<Rightarrow> nat \<Rightarrow> nat \<Rightarrow> nat list \<Rightarrow> nat list \<Rightarrow> nat list \<Rightarrow> nat list \<Rightarrow> bool" where
  "awaited s i par ys ws xs zs \<longleftrightarrow> parent (procs s i) = Some par \<and> waiting (procs s par) \<and>
     living_children (procs s) par (ys @ i # ws) \<and> zombie_child (procs s par) \<noteq> Some i \<and>
     living_children (procs s) i xs \<and> zombies (procs s) i zs \<and> set zs \<inter> ({i, par} \<union> set ys \<union> set ws) = {} \<and>
     (\<forall>z \<in> set zs \<union> {i}. clearable (procs s z))"

lemma kill_awaited_ok:
  fixes s :: "'a kstate_scheme"
  assumes aw: "awaited s i par ys ws xs zs" and st: "status_ok s i par ka" and fl: "free_list s ps"
    and rel: "releasable s (concat (map (space_of s) (zs @ [i])))"
  obtains s' fs where "kill_proc i ev s = Some s'" "curproc s' = curproc s" "living_children (procs s') par (ys @ ws)"
    "\<forall>x \<in> set zs \<union> {i}. procs s' x = zero_proc"
    "\<forall>x. x \<notin> set zs \<union> {i} \<longrightarrow> sans_links (procs s' x) = sans_links (if x = par then woken (pid (procs s i)) (procs s x) else procs s x)"
    "\<forall>x. x \<notin> set zs \<union> {i} \<longrightarrow> fx_ctxs s' x = fx_ctxs s x"
    "dropped (told par ka ev s) s' (concat (map (space_of s) (zs @ [i]))) fs ps"
proof -
  let ?s0 = "upd_proc i (\<lambda>p. p\<lparr>exit_val := ev\<rparr>) s" and ?qz = "concat (map (space_of s) zs)"
  have a: "parent (procs s i) = Some par" "waiting (procs s par)" "living_children (procs s) par (ys @ i # ws)"
    "zombie_child (procs s par) \<noteq> Some i" "living_children (procs s) i xs" "zombies (procs s) i zs"
    "set zs \<inter> ({i, par} \<union> set ys \<union> set ws) = {}" "\<forall>z \<in> set zs \<union> {i}. clearable (procs s z)"
    using aw by (simp_all add: awaited_def)
  have rz: "releasable s (?qz @ space_of s i)" using rel by simp
  have tr: "kmem.truncate ?s0 = kmem.truncate s" by simp
  note fr = truncate_frame[OF tr]
  have sp0: "space_of ?s0 = space_of s" by (rule ext) (simp add: space_of_def fr(6))
  have l0: "living_children (procs ?s0) i xs"
    using a(5) sib_chain_cong[of "procs s" None "living_child (procs s i)" xs "procs ?s0"] by (simp add: living_children_def)
  have z0: "zombies (procs ?s0) i zs"
    using a(6) next_chain_cong[of "procs s" "zombie_child (procs s i)" zs "procs ?s0"] by (simp add: zombies_def)
  have c0: "\<forall>z \<in> set zs. clearable (procs ?s0 z)" using a(8) by (simp add: clearable_def no_pipes_def)
  have f0: "free_list ?s0 ps" using fl by (simp add: fr(5))
  have r0: "releasable ?s0 (concat (map (space_of ?s0) zs))" using releasable_left[OF rz] by (simp add: releasable_def sp0 fr)
  obtain s1 fs1 where s1: "exit_as_parent i ?s0 = Some s1" "procs s1 = childless xs zs (procs ?s0)"
    "dropped ?s0 s1 ?qz fs1 ps" "curproc s1 = curproc ?s0" "pipes s1 = pipes ?s0"
    "fx_ctxs s1 = (\<lambda>x. if x \<in> set zs then zero_fx\<lparr>MXCSR := MXCSR_MASKALL\<rparr> else fx_ctxs ?s0 x)"
    by (rule exit_as_parent_ok[OF l0 z0 f0 c0 r0, unfolded sp0])
  have d1: "dropped s s1 ?qz fs1 ps" using s1(3) dropped_truncate[OF tr refl] by blast
  have ni: "i \<notin> set xs" "i \<notin> set zs" "par \<notin> set zs" "i \<noteq> par" using a(3,5,7) by (auto simp: living_children_def)
  have p1: "sans_links (procs s1 x) = sans_links (procs ?s0 x)" "prev_sibling (procs s1 x) = prev_sibling (procs s x)"
    "next_sibling (procs s1 x) = next_sibling (procs s x)" "living_child (procs s1 x) = living_child (procs s x)"
    "wait_status (procs s1 x) = wait_status (procs s x)" "zombie_child (procs s1 x) = zombie_child (procs s x)"
    "waiting (procs s1 x) = waiting (procs s x)" "pgtbl (procs s1 x) = pgtbl (procs s x)" "p_pgtbl (procs s1 x) = p_pgtbl (procs s x)"
    if "x \<notin> set zs" for x using that by (simp_all add: s1(2) childless_def sans_links_def)
  have pi: "procs s1 i = procs ?s0 i" using ni by (simp add: s1(2) childless_def)
  have m1: "pmem s1 = pmem s" "k_pageinfo s1 = k_pageinfo s" using d1 by (simp_all add: dropped_def)
  have sp1: "space_of s1 i = space_of s i" using m1 pi by (simp add: space_of_def space_list_def PA2PGINFO_def del: rel_list.simps)
  have l1: "living_children (procs s1) par (ys @ i # ws)"
  proof -
    have "sib_chain (procs s1) None (living_child (procs s par)) (ys @ i # ws)"
      by (rule sib_chain_cong[of "procs s"]) (use a(3,7) p1(2,3) in \<open>auto simp: living_children_def\<close>)
    then show ?thesis using a(3) p1(4)[OF ni(3)] by (simp add: living_children_def)
  qed
  have t1: "status_ok s1 i par ka"
    using st m1(1) p1(5,8,9)[OF ni(3)] pi private_word_cong[of "procs s1 par" "procs s par"] by (simp add: status_ok_def space_pages_def del: table_pages.simps)
  have w1: "parent (procs s1 i) = Some par" "waiting (procs s1 par)" "zombie_child (procs s1 par) \<noteq> Some i" "pid (procs s1 i) = pid (procs s i)"
    using a(1,2,4) p1(6,7)[OF ni(3)] pi by simp_all
  have f1: "free_list s1 (fs1 @ ps)" using d1 by (simp add: dropped_def)
  have c1: "clearable (procs s1 i)" using a(8) pi by (simp add: clearable_def no_pipes_def)
  have r1: "releasable s1 (space_of s1 i)" unfolding sp1 by (rule dropped_releasable(1)[OF d1 rz])
  obtain s' fs2 where s': "exit_as_child i ev s1 = Some s'" "curproc s' = curproc s1" "living_children (procs s') par (ys @ ws)"
    "procs s' i = zero_proc" "\<forall>x. x \<notin> insert par (set (ys @ i # ws)) \<longrightarrow> procs s' x = procs s1 x"
    "\<forall>x. x \<noteq> i \<longrightarrow> sans_links (procs s' x) = sans_links (if x = par then woken (pid (procs s i)) (procs s1 x) else procs s1 x)"
    "fx_ctxs s' = (fx_ctxs s1)(i := zero_fx\<lparr>MXCSR := MXCSR_MASKALL\<rparr>)" "dropped (told par ka ev s1) s' (space_of s i) fs2 (fs1 @ ps)"
    by (rule exit_awaited_ok[OF w1(1,2) t1 l1 w1(3) f1 c1 r1, of ev, unfolded sp1 w1(4)])
  show thesis
  proof (rule that)
    show "kill_proc i ev s = Some s'" using s1(1) s'(1) by (simp add: kill_proc_def Let_def)
    show "curproc s' = curproc s" "living_children (procs s') par (ys @ ws)" using s'(2,3) s1(4) by simp_all
    show "\<forall>x \<in> set zs \<union> {i}. procs s' x = zero_proc"
    proof
      fix x assume x: "x \<in> set zs \<union> {i}"
      then have "x \<noteq> i \<Longrightarrow> x \<notin> insert par (set (ys @ i # ws))" using a(7) by auto
      then show "procs s' x = zero_proc" using x s'(4,5) by (cases "x = i") (auto simp: s1(2) childless_def)
    qed
    show "\<forall>x. x \<notin> set zs \<union> {i} \<longrightarrow> sans_links (procs s' x) = sans_links (if x = par then woken (pid (procs s i)) (procs s x) else procs s x)"
      using s'(6) pi by (simp add: s1(2) childless_def sans_links_def woken_def)
    show "\<forall>x. x \<notin> set zs \<union> {i} \<longrightarrow> fx_ctxs s' x = fx_ctxs s x" using s'(7) s1(6) by simp
    have "releasable (told par ka ev s) (?qz @ space_of s i)" using rz by (simp add: releasable_def told_frame)
    from dropped_trans[OF dropped_told[OF d1 p1(5)[OF ni(3)]] s'(8) this]
    show "dropped (told par ka ev s) s' (concat (map (space_of s) (zs @ [i]))) (fs2 @ fs1) ps" by simp
  qed
qed

section \<open>Properties\<close>

text \<open>
  C13: The end of a process without children and without open pipes whose parent waits for it, without asking for the status:
  \<^verbatim>\<open>kill_proc\<close> returns; the parent is ready again with the child's pid in rax and no longer
  waiting; the child is unlinked from the parent's chain of living children; its slot is free; one
  reference was dropped for each of its mappings and tables, and the pages without a reference left
  are on the free list.
\<close>
theorem kill_awaited_child:
  fixes s :: "'a kstate_scheme"
  assumes "parent (procs s i) = Some par" and "living_child (procs s i) = None" and "zombie_child (procs s i) = None"
    and "waiting (procs s par)" and "wait_status (procs s par) = 0"
    and ch: "living_children (procs s) par (ys @ i # zs)" and "zombie_child (procs s par) \<noteq> Some i"
    and "free_list s ps" and "is_page (pgtbl (procs s i))" and "is_page (p_pgtbl (procs s i))"
    and "releasable s (space_list s (pgtbl (procs s i)) (p_pgtbl (procs s i)))" and "no_pipes (procs s i)"
  shows "\<exists>s' fs. kill_proc i ev s = Some s' \<and> living_children (procs s') par (ys @ zs) \<and> procs s' i = zero_proc \<and>
    state (procs s' par) = READY \<and> rax (ctx (procs s' par)) = pid (procs s i) \<and> \<not> waiting (procs s' par) \<and>
    dropped s s' (space_list s (pgtbl (procs s i)) (p_pgtbl (procs s i))) fs ps"
proof -
  have a: "awaited s i par ys zs [] []" and st: "status_ok s i par 0" and r: "releasable s (concat (map (space_of s) ([] @ [i])))"
    using assms by (auto simp: awaited_def living_children_def zombies_def clearable_def status_ok_def space_of_def)
  have ne: "par \<noteq> i" using ch by (auto simp: living_children_def)
  obtain s' fs where k: "kill_proc i ev s = Some s'" "curproc s' = curproc s" "living_children (procs s') par (ys @ zs)"
    "\<forall>x \<in> set [] \<union> {i}. procs s' x = zero_proc"
    "\<forall>x. x \<notin> set [] \<union> {i} \<longrightarrow> sans_links (procs s' x) = sans_links (if x = par then woken (pid (procs s i)) (procs s x) else procs s x)"
    "\<forall>x. x \<notin> set [] \<union> {i} \<longrightarrow> fx_ctxs s' x = fx_ctxs s x"
    "dropped (told par 0 ev s) s' (concat (map (space_of s) ([] @ [i]))) fs ps"
    by (rule kill_awaited_ok[OF a st assms(8) r, of ev])
  have s': "sans_links (procs s' par) = sans_links (woken (pid (procs s i)) (procs s par))" using k(5) ne by simp
  have "state (procs s' par) = READY" "rax (ctx (procs s' par)) = pid (procs s i)" "\<not> waiting (procs s' par)"
    using sans_links_field[OF s', of state] sans_links_field[OF s', of ctx] sans_links_field[OF s', of waiting]
    by (simp_all add: sans_links_def woken_def)
  then show ?thesis using k(1,3,4,7) assms(5) by (auto simp: told_def space_of_def)
qed

text \<open>A parent 1 with the living children 2 and 3, both address spaces of 2 empty.\<close>

definition ex_family :: "bool \<Rightarrow> kstate" where
  "ex_family w = kmem.extend ex_kmem (kstate.fields (\<lambda>i.
       if i = 1 then zero_proc\<lparr>state := PENDING, living_child := Some 2, waiting := w\<rparr>
       else if i = 2 then zero_proc\<lparr>state := RUNNING, pid := 42, pgtbl := 0x206000, p_pgtbl := 0x207000, parent := Some 1, next_sibling := Some 3\<rparr>
       else if i = 3 then zero_proc\<lparr>state := READY, parent := Some 1, prev_sibling := Some 2\<rparr>
       else zero_proc)
     (\<lambda>_. zero_fx) (Some 2) None 0 (\<lambda>_. zero_pipe) (\<lambda>_. 0) 0 0)"

lemma ex_family_sel [simp]:
  "procs (ex_family w) = (\<lambda>i.
       if i = 1 then zero_proc\<lparr>state := PENDING, living_child := Some 2, waiting := w\<rparr>
       else if i = 2 then zero_proc\<lparr>state := RUNNING, pid := 42, pgtbl := 0x206000, p_pgtbl := 0x207000, parent := Some 1, next_sibling := Some 3\<rparr>
       else if i = 3 then zero_proc\<lparr>state := READY, parent := Some 1, prev_sibling := Some 2\<rparr>
       else zero_proc)"
  "pmem (ex_family w) = pmem ex_kmem" "page_infos (ex_family w) = page_infos ex_kmem"
  "k_pageinfo (ex_family w) = k_pageinfo ex_kmem" "kmem.truncate (ex_family w) = kmem.truncate ex_kmem"
  by (simp_all add: ex_family_def kmem.extend_def kstate.fields_def kmem.truncate_def)

lemma ex_family_chain: "living_children (procs (ex_family w)) 1 [2, 3]"
  by (simp add: living_children_def zero_proc_def)

lemma rel_list_zero: "(\<And>x. m x = 0) \<Longrightarrow> rel_list kpi m dec (Suc d) n t = []"
  by (simp add: load64_zero)

lemma ex_family_space:
  "space_list (ex_family w) 0x206000 0x207000 = [ex_pi 0x206, ex_pi 0x207]"
  "releasable (ex_family w) [ex_pi 0x206, ex_pi 0x207]"
proof -
  have "pmem ex_kmem x = 0" for x by (simp add: ex_kmem_def)
  then show "space_list (ex_family w) 0x206000 0x207000 = [ex_pi 0x206, ex_pi 0x207]"
    unfolding space_list_def numeral_3_eq_3
    by (simp add: rel_list_zero PA2PGINFO_def ex_kmem_def ex_pi_def del: rel_list.simps)
  have "page_ok (ex_family w) q = page_ok ex_space q" for q
    by (simp add: page_ok_def PA2PGINFO_def ex_family_def kmem.extend_def kstate.fields_def ex_space_def)
  then show "releasable (ex_family w) [ex_pi 0x206, ex_pi 0x207]"
    using ex_held by (simp add: releasable_def page_held_def PA2PGINFO_def ex_pi_def)
qed

theorem kill_awaited_child_witness:
  "\<exists>s'. kill_proc 2 0 (ex_family True) = Some s' \<and> living_children (procs s') 1 [3] \<and> rax (ctx (procs s' 1)) = 42"
proof -
  have "free_list (ex_family True) ex_free" by (rule free_list_kstate[OF ex_free_list]) simp
  moreover have "is_page 0x206000" "is_page 0x207000" by (simp_all add: is_page_def mask_eq_exp_minus_1)
  ultimately show ?thesis
    using kill_awaited_child[of "ex_family True" 2 1 "[]" "[3]" ex_free 0] ex_family_chain[of True] ex_family_space
    by (auto simp: zero_proc_def zero_fdesc_def no_pipes_def)
qed

text \<open>
  C16: On a process whose living children and whose zombies form proper chains, the zombies without open pipes and with
  enough references for all they release, both loops of \<^verbatim>\<open>exit_as_parent\<close> end.  The call empties the slot of exactly the
  zombies, clears the parent pointer of exactly the living children and changes no other process; it drops one
  reference for every mapping and table of a zombie, and the pages without a reference left are on the free list.
  A zombie that is still on the chain of living children, as the first one is, counts as a zombie.
\<close>
theorem exit_as_parent_clears:
  fixes s :: "'a kstate_scheme"
  assumes "living_children (procs s) i xs" and "zombies (procs s) i zs" and "free_list s ps"
    and "\<forall>z \<in> set zs. clearable (procs s z)" and "releasable s (concat (map (space_of s) zs))"
  shows "\<exists>s' fs. exit_as_parent i s = Some s' \<and>
    procs s' = (\<lambda>x. if x \<in> set zs then zero_proc else if x \<in> set xs then (procs s x)\<lparr>parent := None\<rparr> else procs s x) \<and>
    dropped s s' (concat (map (space_of s) zs)) fs ps"
  by (rule exit_as_parent_ok[OF assms]) (auto simp: childless_def)

text \<open>
  The process 2 runs, with the living child 5 and the zombie 4; its parent 1, whose page table is the one
  of the earlier examples, waits for it and wants the status at \<open>0x400010\<close>.  The tables of 2 and 4 are empty.
\<close>

definition ex_procs :: "nat \<Rightarrow> proc" where
  "ex_procs = (\<lambda>i.
     if i = 1 then zero_proc\<lparr>state := PENDING, pid := 41, pgtbl := 0x207000, p_pgtbl := 0x207000, living_child := Some 2, waiting := True, wait_status := 0x400010\<rparr>
     else if i = 2 then zero_proc\<lparr>state := RUNNING, pid := 42, pgtbl := 0x20B000, p_pgtbl := 0x20C000, parent := Some 1, next_sibling := Some 3, living_child := Some 5, zombie_child := Some 4\<rparr>
     else if i = 3 then zero_proc\<lparr>state := READY, pid := 43, parent := Some 1, prev_sibling := Some 2\<rparr>
     else if i = 4 then zero_proc\<lparr>state := ZOMBIE, pid := 44, pgtbl := 0x20D000, p_pgtbl := 0x20E000, parent := Some 2\<rparr>
     else if i = 5 then zero_proc\<lparr>state := READY, pid := 45, parent := Some 2\<rparr>
     else zero_proc)"

definition ex_infos :: kmem where
  "ex_infos = ex_space\<lparr>page_infos := (page_infos ex_kmem)
     (ex_pi 0x20B := \<lparr>paddr = 0x20B000, ref_next = 1\<rparr>, ex_pi 0x20C := \<lparr>paddr = 0x20C000, ref_next = 1\<rparr>,
      ex_pi 0x20D := \<lparr>paddr = 0x20D000, ref_next = 1\<rparr>, ex_pi 0x20E := \<lparr>paddr = 0x20E000, ref_next = 1\<rparr>)\<rparr>"

definition ex_tree :: kstate where
  "ex_tree = kmem.extend ex_infos
     (kstate.fields ex_procs (\<lambda>_. zero_fx) (Some 2) None 0 (\<lambda>_. zero_pipe) (\<lambda>_. 0) 0 0)"

lemma ex_tree_sel [simp]:
  "procs ex_tree = ex_procs" "pmem ex_tree = ex_tbl" "k_pageinfo ex_tree = 0xFFFF800000100000" "page_infos ex_tree = page_infos ex_infos"
  "kmem.truncate ex_tree = kmem.truncate ex_infos" "curproc ex_tree = Some 2" "fx_ctxs ex_tree = (\<lambda>_. zero_fx)"
  by (simp_all add: ex_tree_def ex_infos_def ex_space_def ex_kmem_def kmem.extend_def kstate.fields_def kmem.truncate_def)

lemma ex_tree_free: "free_list ex_tree ex_free"
proof -
  have "free_list ex_infos ex_free"
    by (simp add: ex_infos_def ex_space_def free_list_def page_ok_def ex_kmem_def ex_free_def ex_pi_def PA2PGINFO_def K2P_def MASK_def mask_eq_exp_minus_1)
  then show ?thesis by (rule free_list_kstate) simp
qed

lemma rel_list_empty: "(\<And>i. i < n \<Longrightarrow> ent m t i = 0) \<Longrightarrow> rel_list kpi m dec (Suc d) n t = [] \<and> table_pages m (Suc d) n t = {t}"
  by (auto simp: concat_eq_Nil_conv)

lemma ex_tree_empty:
  assumes "t \<in> {0x20B000, 0x20C000, 0x20D000, 0x20E000}"
  shows "is_page t" "rel_list kpi ex_tbl dec 3 256 t = []" "table_pages ex_tbl 3 256 t = {t}"
proof -
  show p: "is_page t" using assms by (auto simp: is_page_def mask_eq_exp_minus_1)
  have "ent ex_tbl t i = 0" if "i < 256" for i
    using assms that p by (auto simp: ex_tbl_def mem64.load_store slot_inj load64_zero)
  from rel_list_empty[OF this, where d = 2] show "rel_list kpi ex_tbl dec 3 256 t = []" "table_pages ex_tbl 3 256 t = {t}"
    by (simp_all add: numeral_3_eq_3 numeral_2_eq_2)
qed

lemma ex_tree_space:
  "space_of ex_tree 2 = [ex_pi 0x20B, ex_pi 0x20C]" "space_of ex_tree 4 = [ex_pi 0x20D, ex_pi 0x20E]"
  "releasable ex_tree [ex_pi 0x20D, ex_pi 0x20E, ex_pi 0x20B, ex_pi 0x20C]"
proof -
  show "space_of ex_tree 2 = [ex_pi 0x20B, ex_pi 0x20C]" "space_of ex_tree 4 = [ex_pi 0x20D, ex_pi 0x20E]"
    by (simp_all add: space_of_def space_list_def ex_procs_def ex_tree_empty PA2PGINFO_def ex_pi_def del: rel_list.simps)
  have "page_ok ex_tree q = page_ok ex_infos q" for q
    using truncate_frame(4)[of ex_tree ex_infos] by simp
  then show "releasable ex_tree [ex_pi 0x20D, ex_pi 0x20E, ex_pi 0x20B, ex_pi 0x20C]"
    by (simp add: releasable_def page_ok_def ex_infos_def ex_space_def ex_kmem_def ex_pi_def PA2PGINFO_def K2P_def MASK_def mask_eq_exp_minus_1 ref_def)
qed

lemma ex_tree_awaited: "awaited ex_tree 2 1 [] [3] [5] [4]"
proof -
  have "clearable (ex_procs 2)" "clearable (ex_procs 4)"
    using ex_tree_empty(1) by (simp_all add: clearable_def ex_procs_def no_pipes_def zero_proc_def zero_fdesc_def)
  moreover have "living_children ex_procs 1 [2, 3]" "living_children ex_procs 2 [5]" "zombies ex_procs 2 [4]"
    by (simp_all add: living_children_def zombies_def ex_procs_def zero_proc_def)
  ultimately show ?thesis by (simp add: awaited_def) (simp add: ex_procs_def zero_proc_def)
qed

lemma ex_tree_status: "status_ok ex_tree 2 1 0xFFFF800000206010"
proof -
  have va: "va_indices 0x400010 = [0, 0, 2, 0]" "va_path 0x400010 = [0, 0, 2]" "sub 0x207000 = 0x207000"
    by (simp_all add: va_indices_def va_path_def PML4_INDEX_def PDPT_INDEX_def PD_INDEX_def PT_INDEX_def
        PML4_OFFSET_def PDPT_OFFSET_def PD_OFFSET_def PT_OFFSET_def drop_bit_eq_div sub_def mask_eq_exp_minus_1)
  have c: "child 0x208007 = Some 0x208000" "child 0x209007 = Some 0x209000" "child 0x20A007 = Some 0x20A000"
    by (simp_all add: child_def PTE_P_def PDPTE_PS_def sub_def mask_eq_exp_minus_1)
  have "no_huge ex_tbl 0x207000 [0, 0, 2]" using c by (simp add: ex_tbl_ent PDPTE_PS_def)
  moreover have "PAGEKADDR 0x206007 OR (0x400010 AND PGMASK) = 0xFFFF800000206010"
    by (simp add: PAGEKADDR_def PAGEADDR_def KERNBASE_def PGMASK_eq mask_eq_exp_minus_1)
  moreover have "pgtbl (ex_procs 1) = 0x207000" "p_pgtbl (ex_procs 1) = 0x207000" by (simp_all add: ex_procs_def)
  ultimately have "private_word ex_tbl (ex_procs 1) 0x400010 0xFFFF800000206010"
    unfolding private_word_def va using ex_tbl_lookup by (simp add: va PTE_P_def PTE_U_def del: lookup.simps no_huge.simps)
  moreover have "space_pages ex_tbl (ex_procs 2) = {0x20B000, 0x20C000}"
    by (simp add: space_pages_def ex_procs_def ex_tree_empty insert_commute del: table_pages.simps)
  moreover have "\<forall>x \<in> bytes8 (K2P 0xFFFF800000206010). page_of x \<notin> {0x20B000, 0x20C000}"
    by (simp add: bytes8_def K2P_def MASK_def mask_eq_exp_minus_1)
  moreover have "wait_status (ex_procs 1) = 0x400010" by (simp add: ex_procs_def)
  ultimately show ?thesis by (simp add: status_ok_def)
qed

theorem exit_as_parent_clears_witness:
  "\<exists>s'. exit_as_parent 2 ex_tree = Some s' \<and> procs s' 4 = zero_proc \<and> parent (procs s' 5) = None \<and> procs s' 3 = ex_procs 3"
proof -
  have a: "living_children (procs ex_tree) 2 [5]" "zombies (procs ex_tree) 2 [4]" "\<forall>z \<in> set [4]. clearable (procs ex_tree z)"
    using ex_tree_awaited by (simp_all add: awaited_def)
  have "releasable ex_tree (concat (map (space_of ex_tree) [4]))"
    using releasable_left[of ex_tree "[ex_pi 0x20D, ex_pi 0x20E]" "[ex_pi 0x20B, ex_pi 0x20C]"] ex_tree_space by simp
  from exit_as_parent_clears[OF a(1,2) ex_tree_free a(3) this] show ?thesis by auto
qed

text \<open>
  C17: The first of the living children, if it dies while its parent does not wait and has no zombie yet, stays at the head of the parent's chain of
  living children, and that chain now ends with it: the next sibling \<open>z\<close> is no longer on any chain,
  and when the parent exits, \<open>z\<close> keeps its pointer to the parent's slot.
\<close>
theorem zombie_loses_siblings:
  assumes ch: "living_children (procs s) par (i # z # zs)" and "parent (procs s i) = Some par"
    and "\<not> waiting (procs s par)" and "zombie_child (procs s par) = None" and "parent (procs s z) = Some par"
  shows "\<exists>s' s''. exit_as_child i ev s = Some s' \<and> state (procs s' i) = ZOMBIE \<and> zombie_child (procs s' par) = Some i \<and>
    living_children (procs s') par [i] \<and>
    orphan_children (living_child (procs s' par)) s' = Some s'' \<and> parent (procs s'' z) = Some par"
proof -
  have ne: "i \<noteq> par" "z \<noteq> par" "z \<noteq> i" using ch by (auto simp: living_children_def)
  let ?s = "become_zombie i par ev s"
  have p: "procs ?s = (procs s)(par := (procs s par)\<lparr>zombie_child := Some i\<rparr>,
      i := (procs s i)\<lparr>prev_sibling := None, next_sibling := None, exit_val := ev, state := ZOMBIE\<rparr>)"
    using assms(4) ne by (simp add: become_zombie_def Let_def)
  have e: "exit_as_child i ev s = Some ?s" using assms by (simp add: exit_as_child_def)
  have "living_child (procs s par) = Some i" using ch by (simp add: living_children_def)
  then have c: "living_children (procs ?s) par [i]" using ne by (simp add: living_children_def p)
  then have "orphan_children (living_child (procs ?s par)) ?s =
      Some (?s\<lparr>procs := (\<lambda>x. if x \<in> {i} then (procs ?s x)\<lparr>parent := None\<rparr> else procs ?s x)\<rparr>)"
    using orphan_chain[of ?s None "living_child (procs ?s par)" "[i]"] by (simp add: living_children_def)
  then show ?thesis using e c ne assms(5) by (simp add: p)
qed

theorem zombie_loses_siblings_witness:
  "\<exists>s'. exit_as_child 2 7 (ex_family False) = Some s' \<and> living_children (procs s') 1 [2] \<and> state (procs s' 2) = ZOMBIE"
  using zombie_loses_siblings[of "ex_family False" 1 2 3 "[]" 7] ex_family_chain[of False] by (auto simp: zero_proc_def)

end
