(* ===== verification/Pipe.thy ===== *)
theory Pipe
  imports UBuf PgClear Ring
begin

text \<open>
  Pipes, \<^verbatim>\<open>kernel/fs/pipe.c\<close>.  A pipe is a ring buffer between a waiting reader and a waiting writer;
  the user buffers of both are reached through \<^verbatim>\<open>U2K\<close>.  \<^verbatim>\<open>pipe_read\<close> and \<^verbatim>\<open>pipe_write\<close> call each
  other; the recursion ends because \<^verbatim>\<open>pipe_read\<close> removes the reader.

  The lemmas show that a pipe is a first-in first-out queue: a write appends the next bytes of the
  writer's buffer, a read delivers the oldest bytes to the reader's.
\<close>

section \<open>Operations\<close>

definition PIPE_BUFLEN :: nat where "PIPE_BUFLEN = 4032"

definition next_pos :: "u32 \<Rightarrow> u32" where
  "next_pos j = (if unat (j + 1) = PIPE_BUFLEN then 0 else j + 1)"

lemma next_pos_dist:
  assumes "unat j < PIPE_BUFLEN" and "unat e < PIPE_BUFLEN" and "j \<noteq> e"
  shows "(PIPE_BUFLEN + unat e - unat (next_pos j)) mod PIPE_BUFLEN < (PIPE_BUFLEN + unat e - unat j) mod PIPE_BUFLEN"
proof -
  have s: "unat (j + 1) = unat j + 1" using assms(1) by (simp add: PIPE_BUFLEN_def unat_word_ariths)
  have ne: "unat j \<noteq> unat e" using assms(3) by (simp add: word_unat_eq_iff)
  show ?thesis
  proof (cases "unat j + 1 = PIPE_BUFLEN")
    case True
    then show ?thesis using assms ne s by (simp add: next_pos_def PIPE_BUFLEN_def)
  next
    case False
    then show ?thesis using assms ne s
      by (cases "unat e < unat j") (auto simp: next_pos_def mod_if PIPE_BUFLEN_def)
  qed
qed

text \<open>The copy loop of \<^verbatim>\<open>pipe_read\<close>: \<open>rb\<close> is the kernel address of the current page of the reader's buffer.\<close>

function pipe_read_loop ::
    "u64 \<Rightarrow> u32 \<Rightarrow> u32 \<Rightarrow> u64 \<Rightarrow> u32 \<Rightarrow> u32 \<Rightarrow> 'a kstate_scheme \<Rightarrow> 'a kstate_scheme option" where
  "pipe_read_loop pipe i ind rb j pipe_tail s =
     (if j = pipe_tail then Some s
      else if \<not> unat j < PIPE_BUFLEN \<or> \<not> unat pipe_tail < PIPE_BUFLEN then None
      else do {
        let s = s\<lparr>pmem := (pmem s)(K2P (rb + ucast ind) := p_buf (pipes s pipe) (unat j))\<rparr>;
        if (rbuf (pipes s pipe) + ucast (i + 1)) AND PGMASK \<noteq> 0
        then pipe_read_loop pipe (i + 1) (ind + 1) rb (next_pos j) pipe_tail s
        else do {
          rd \<leftarrow> reader (pipes s pipe);
          (rb, s) \<leftarrow> U2K rd (rbuf (pipes s pipe) + ucast (i + 1)) True s;
          pipe_read_loop pipe (i + 1) 0 rb (next_pos j) pipe_tail s
        }
      })"
  by pat_completeness auto
termination
  by (relation "measure (\<lambda>(p, i, ind, rb, j, e, s). (PIPE_BUFLEN + unat e - unat j) mod PIPE_BUFLEN)")
    (auto intro: next_pos_dist)

function pipe_write_loop ::
    "u64 \<Rightarrow> u32 \<Rightarrow> u32 \<Rightarrow> u64 \<Rightarrow> u32 \<Rightarrow> u32 \<Rightarrow> 'a kstate_scheme \<Rightarrow> 'a kstate_scheme option" where
  "pipe_write_loop pipe i ind wb j new_pipe_head s =
     (if j = new_pipe_head then Some s
      else if \<not> unat j < PIPE_BUFLEN \<or> \<not> unat new_pipe_head < PIPE_BUFLEN then None
      else do {
        let s = upd_pipe pipe (\<lambda>q. q\<lparr>p_buf := (p_buf q)(unat j := pmem s (K2P (wb + ucast ind)))\<rparr>) s;
        if (wbuf (pipes s pipe) + ucast (wptr (pipes s pipe)) + ucast (i + 1)) AND PGMASK \<noteq> 0
        then pipe_write_loop pipe (i + 1) (ind + 1) wb (next_pos j) new_pipe_head s
        else do {
          wr \<leftarrow> writer (pipes s pipe);
          (wb, s) \<leftarrow> U2K wr (wbuf (pipes s pipe) + ucast (wptr (pipes s pipe)) + ucast (i + 1)) False s;
          pipe_write_loop pipe (i + 1) 0 wb (next_pos j) new_pipe_head s
        }
      })"
  by pat_completeness auto
termination
  by (relation "measure (\<lambda>(p, i, ind, wb, j, e, s). (PIPE_BUFLEN + unat e - unat j) mod PIPE_BUFLEN)")
    (auto intro: next_pos_dist)

declare pipe_read_loop.simps [simp del] pipe_write_loop.simps [simp del]

text \<open>
  \<^verbatim>\<open>pipe_read\<close> and \<^verbatim>\<open>pipe_write\<close> up to the point where they wake the other side.  \<^verbatim>\<open>PIPE_BUFLEN\<close> is of
  the type of \<^verbatim>\<open>sizeof\<close>, 64 bits; \<^verbatim>\<open>size_t\<close> is a 32-bit type here.
\<close>

definition pipe_read_n :: "pipe \<Rightarrow> u32" where
  "pipe_read_n q = min (p_len q) (rsiz q)"

definition pipe_write_n :: "pipe \<Rightarrow> u32" where
  "pipe_write_n q = ucast (min (of_nat PIPE_BUFLEN - ucast (p_len q) - 1 :: u64) (ucast (wsiz q - wptr q)))"

definition pipe_read_copy :: "u64 \<Rightarrow> bool \<Rightarrow> 'a kstate_scheme \<Rightarrow> (u32 \<times> 'a kstate_scheme) option" where
  "pipe_read_copy pipe invoke s =
     (let n = pipe_read_n (pipes s pipe)
      in if n = 0 then Some (0, s)
         else do {
           rd \<leftarrow> reader (pipes s pipe);
           (rb, s) \<leftarrow> U2K rd (rbuf (pipes s pipe)) True s;
           let q = pipes s pipe;
           s \<leftarrow> pipe_read_loop pipe 0 0 rb (p_head q) (of_nat (unat (p_head q + n) mod PIPE_BUFLEN)) s;
           let s = upd_pipe pipe (\<lambda>q. q\<lparr>p_len := p_len q - n, p_head := p_head q + n\<rparr>) s;
           let s = upd_pipe pipe (\<lambda>q. if unat (p_head q) \<ge> PIPE_BUFLEN then q\<lparr>p_head := p_head q - of_nat PIPE_BUFLEN\<rparr> else q) s;
           let s = (if invoke then upd_proc rd (\<lambda>p. p\<lparr>ctx := (ctx p)\<lparr>rax := ucast n\<rparr>, state := READY\<rparr>) s else s);
           Some (n, upd_pipe pipe (\<lambda>q. q\<lparr>rbuf := 0, rsiz := 0, reader := None\<rparr>) s)
         })"

definition pipe_write_copy :: "u64 \<Rightarrow> bool \<Rightarrow> 'a kstate_scheme \<Rightarrow> (u32 \<times> 'a kstate_scheme) option" where
  "pipe_write_copy pipe invoke s =
     (let n = pipe_write_n (pipes s pipe)
      in if n = 0 then Some (0, s)
         else do {
           wr \<leftarrow> writer (pipes s pipe);
           (wb, s) \<leftarrow> U2K wr (wbuf (pipes s pipe) + ucast (wptr (pipes s pipe))) False s;
           let q = pipes s pipe;
           s \<leftarrow> pipe_write_loop pipe 0 0 wb (of_nat (unat (p_head q + p_len q) mod PIPE_BUFLEN))
                 (of_nat (unat (p_head q + p_len q + n) mod PIPE_BUFLEN)) s;
           let s = upd_pipe pipe (\<lambda>q. q\<lparr>wptr := wptr q + n, p_len := p_len q + n\<rparr>) s;
           let q = pipes s pipe;
           let s = (if invoke \<and> wptr q = wsiz q
                    then upd_proc wr (\<lambda>p. p\<lparr>ctx := (ctx p)\<lparr>rax := ucast (wsiz q)\<rparr>, state := READY\<rparr>) s else s);
           Some (n, if wptr q = wsiz q then upd_pipe pipe (\<lambda>q. q\<lparr>wbuf := 0, wptr := 0, wsiz := 0, writer := None\<rparr>) s else s)
         })"

lemma pipe_write_loop_frame:
  "pipe_write_loop pipe i ind wb j e s = Some s' \<Longrightarrow> \<exists>b. s' = upd_pipe pipe (\<lambda>q. q\<lparr>p_buf := b\<rparr>) s"
proof (induction pipe i ind wb j e s rule: pipe_write_loop.induct)
  case (1 pipe i ind wb j e s)
  let ?t = "upd_pipe pipe (\<lambda>q. q\<lparr>p_buf := (p_buf q)(unat j := pmem s (K2P (wb + ucast ind)))\<rparr>) s"
  let ?va = "wbuf (pipes s pipe) + ucast (wptr (pipes s pipe)) + ucast (i + 1)"
  have t: "wbuf (pipes ?t pipe) = wbuf (pipes s pipe)" "wptr (pipes ?t pipe) = wptr (pipes s pipe)"
    "writer (pipes ?t pipe) = writer (pipes s pipe)" by (simp_all add: upd_pipe_def)
  have step: "\<exists>b. s' = upd_pipe pipe (\<lambda>q. q\<lparr>p_buf := b\<rparr>) s" if "\<exists>b. s' = upd_pipe pipe (\<lambda>q. q\<lparr>p_buf := b\<rparr>) ?t"
    using that by (auto simp: upd_pipe_def)
  show ?case
  proof (cases "j = e")
    case True
    then have "s' = s" using 1(3) by (simp add: pipe_write_loop.simps)
    then show ?thesis by (intro exI[of _ "p_buf (pipes s pipe)"]) (simp add: upd_pipe_def)
  next
    case False
    then have lt: "unat j < PIPE_BUFLEN" "unat e < PIPE_BUFLEN"
      using 1(3) by (auto simp: pipe_write_loop.simps split: if_splits)
    show ?thesis
    proof (cases "?va AND PGMASK = 0")
      case no: False
      then have "pipe_write_loop pipe (i + 1) (ind + 1) wb (next_pos j) e ?t = Some s'"
        using 1(3) lt \<open>j \<noteq> e\<close> by (subst (asm) pipe_write_loop.simps) (simp add: Let_def t)
      then show ?thesis using 1(1)[of ?t] no lt \<open>j \<noteq> e\<close> by (intro step) (simp add: t)
    next
      case yes: True
      then obtain wr wb' u where u: "writer (pipes s pipe) = Some wr" "U2K wr ?va False ?t = Some (wb', u)"
        "pipe_write_loop pipe (i + 1) 0 wb' (next_pos j) e u = Some s'"
        using 1(3) lt \<open>j \<noteq> e\<close> by (subst (asm) pipe_write_loop.simps) (auto simp: Let_def t bind_eq_Some_conv)
      then show ?thesis using 1(2)[of ?t wr "(wb', u)" wb' u] yes lt \<open>j \<noteq> e\<close> U2K_ro[OF u(2)]
        by (intro step) (simp add: t)
    qed
  qed
qed

lemma pipe_read_copy_reader:
  assumes "pipe_read_copy pipe invoke s = Some (n, s')" and "n \<noteq> 0"
  shows "reader (pipes s pipe) \<noteq> None \<and> reader (pipes s' pipe) = None"
  using assms by (auto simp: pipe_read_copy_def Let_def bind_eq_Some_conv upd_pipe_def split: if_splits)

lemma pipe_write_copy_reader:
  assumes "pipe_write_copy pipe invoke s = Some (n, s')"
  shows "reader (pipes s' pipe) = reader (pipes s pipe)"
  using assms
  by (auto simp: pipe_write_copy_def Let_def bind_eq_Some_conv upd_pipe_def upd_proc_def split: if_splits
      dest!: pipe_write_loop_frame U2K_ro)

text \<open>
  The two functions: the wake-up of the other side is a call with \<^verbatim>\<open>invoke\<close> set.  \<^verbatim>\<open>pipe_read\<close>
  without a reader to read for dereferences NULL.
\<close>

function pipe_read :: "u64 \<Rightarrow> bool \<Rightarrow> 'a kstate_scheme \<Rightarrow> (u32 \<times> 'a kstate_scheme) option"
  and pipe_write :: "u64 \<Rightarrow> bool \<Rightarrow> 'a kstate_scheme \<Rightarrow> (u32 \<times> 'a kstate_scheme) option" where
  "pipe_read pipe invoke s =
     (case pipe_read_copy pipe invoke s of
        None \<Rightarrow> None
      | Some (n, s') \<Rightarrow>
          if n = 0 \<or> writer (pipes s' pipe) = None then Some (n, s')
          else map_option (\<lambda>(_, s''). (n, s'')) (pipe_write pipe True s'))"
| "pipe_write pipe invoke s =
     (case pipe_write_copy pipe invoke s of
        None \<Rightarrow> None
      | Some (n, s') \<Rightarrow>
          if n = 0 \<or> reader (pipes s' pipe) = None then Some (n, s')
          else map_option (\<lambda>(_, s''). (n, s'')) (pipe_read pipe True s'))"
  by pat_completeness auto
termination
  by (relation "measure (case_sum (\<lambda>(p, b, s). if reader (pipes s p) = None then 0 else 2)
        (\<lambda>(p, b, s). if reader (pipes s p) = None then 1 else 3))")
    (auto dest: pipe_read_copy_reader pipe_write_copy_reader)

declare pipe_read.simps [simp del] pipe_write.simps [simp del]

section \<open>A pipe is a queue\<close>

interpretation pipe_ring: fifo "ritems PIPE_BUFLEN" "rok PIPE_BUFLEN" PIPE_BUFLEN "rput PIPE_BUFLEN" "rfront PIPE_BUFLEN" "rpop PIPE_BUFLEN"
  by (rule ring_fifo) (simp add: PIPE_BUFLEN_def)

definition pipe_ring_of :: "pipe \<Rightarrow> u8 ring" where
  "pipe_ring_of q = (unat (p_head q), unat (p_len q), p_buf q)"

definition contents :: "pipe \<Rightarrow> u8 list" where
  "contents q = ritems PIPE_BUFLEN (pipe_ring_of q)"

definition pipe_ok :: "pipe \<Rightarrow> bool" where
  "pipe_ok q \<longleftrightarrow> unat (p_head q) < PIPE_BUFLEN \<and> unat (p_len q) < PIPE_BUFLEN"

lemma pipe_ok_ring: "pipe_ok q \<Longrightarrow> rok PIPE_BUFLEN (pipe_ring_of q)"
  by (simp add: pipe_ok_def rok_def pipe_ring_of_def)

lemma length_contents: "length (contents q) = unat (p_len q)"
  by (simp add: contents_def ritems_def pipe_ring_of_def)

abbreviation pos32 :: "nat \<Rightarrow> u32" where
  "pos32 x \<equiv> of_nat (x mod PIPE_BUFLEN)"

lemma unat_pos32: "unat (pos32 x) = x mod PIPE_BUFLEN"
proof -
  have "x mod PIPE_BUFLEN < 4032" by (simp add: PIPE_BUFLEN_def)
  then show ?thesis by (simp add: unat_of_nat)
qed

lemma next_pos32: "next_pos (pos32 x) = pos32 (Suc x)"
proof -
  have lt: "x mod PIPE_BUFLEN < 4032" by (simp add: PIPE_BUFLEN_def)
  have "unat (pos32 x + 1) = x mod PIPE_BUFLEN + 1"
    using lt unat_pos32[of x] by (simp add: unat_word_ariths)
  then show ?thesis using lt by (simp add: next_pos_def mod_Suc PIPE_BUFLEN_def)
qed

lemma pos32_eq: "pos32 x = pos32 y \<longleftrightarrow> x mod PIPE_BUFLEN = y mod PIPE_BUFLEN"
  by (metis unat_pos32)

text \<open>The bytes of the buffer of process \<open>w\<close>, and that the kernel can reach them.\<close>

definition ubyte :: "nat \<Rightarrow> u64 \<Rightarrow> 'a kstate_scheme \<Rightarrow> u8" where
  "ubyte w va s = (case U2K w va False s of None \<Rightarrow> 0 | Some (ka, _) \<Rightarrow> pmem s (K2P ka))"

definition ubytes :: "nat \<Rightarrow> u64 \<Rightarrow> nat \<Rightarrow> 'a kstate_scheme \<Rightarrow> u8 list" where
  "ubytes w va n s = map (\<lambda>k. ubyte w (va + of_nat k) s) [0..<n]"

text \<open>The copy loops also translate the address after the last byte, when it starts a page.\<close>

definition readable :: "nat \<Rightarrow> u64 \<Rightarrow> nat \<Rightarrow> 'a kstate_scheme \<Rightarrow> bool" where
  "readable w va n s \<longleftrightarrow>
     (\<forall>k \<le> n. k < n \<or> (va + of_nat k) AND PGMASK = 0 \<longrightarrow> U2K w (va + of_nat k) False s \<noteq> None)"

lemma readableD:
  assumes "readable w va n s" and "k < n \<or> k = n \<and> (va + of_nat k) AND PGMASK = 0"
  obtains ka where "U2K w (va + of_nat k) False s = Some (ka, s)"
proof -
  have "U2K w (va + of_nat k) False s \<noteq> None"
    using assms(1)[unfolded readable_def, rule_format, of k] assms(2) by auto
  then show thesis using that by (auto dest: U2K_ro)
qed

lemma upd_pipe_same [simp]:
  "pmem (upd_pipe p f s) = pmem s" "cr3 (upd_pipe p f s) = cr3 s" "procs (upd_pipe p f s) = procs s"
  "pipes (upd_pipe p f s) = (pipes s)(p := f (pipes s p))"
  by (simp_all add: upd_pipe_def)

lemma ubyte_upd_pipe [simp]: "ubyte w va (upd_pipe p f s) = ubyte w va s"
  unfolding ubyte_def U2K_False by (simp add: ro_entry_cong[of "upd_pipe p f s" s] split: option.splits)

lemma readable_upd_pipe [simp]: "readable w va n (upd_pipe p f s) = readable w va n s"
  unfolding readable_def U2K_False by (simp add: ro_entry_cong[of "upd_pipe p f s" s])

lemma ucast_of_nat_u32: "k < 2 ^ 32 \<Longrightarrow> ucast (of_nat k :: u32) = (of_nat k :: u64)"
  by (simp add: word_unat_eq_iff unat_of_nat)

lemma ucast_inc_u32: "unat (i :: u32) < 2 ^ 31 \<Longrightarrow> ucast (i + 1) = (ucast i + 1 :: u64)"
  by (rule ucast_inc[of i "2 ^ 31"]) (simp add: word_less_nat_alt)

text \<open>One iteration: the translation of the next byte, from the one of the current byte.\<close>

lemma next_ubyte:
  assumes "readable w va n s" and "k < n" and "U2K w (va + of_nat k) False s = Some (ka, s)"
  obtains ka' where "k + 1 < n \<or> (va + of_nat (k + 1)) AND PGMASK = 0 \<Longrightarrow> U2K w (va + of_nat (k + 1)) False s = Some (ka', s)"
    "(va + of_nat (k + 1)) AND PGMASK \<noteq> 0 \<Longrightarrow> ka' = ka + 1"
proof (cases "(va + of_nat (k + 1)) AND PGMASK = 0")
  case True
  then obtain ka' where "U2K w (va + of_nat (k + 1)) False s = Some (ka', s)"
    using assms(2) by (elim readableD[OF assms(1), of "k + 1", rotated]) auto
  then show thesis using that True by blast
next
  case False
  then show thesis using U2K_next[OF assms(3)] that[of "ka + 1"] by (simp add: add.assoc[symmetric] add.commute[of 1])
qed

lemma pipe_write_loop_ok:
  assumes "k \<le> n" and "n < PIPE_BUFLEN" and "unat ind \<le> k"
    and "readable w va n s" and "writer (pipes s pipe) = Some w"
    and "va = wbuf (pipes s pipe) + ucast (wptr (pipes s pipe))"
    and "k < n \<Longrightarrow> U2K w (va + of_nat k) False s = Some (wb + ucast ind, s)"
  shows "pipe_write_loop pipe (of_nat k) ind wb (pos32 (h + l + k)) (pos32 (h + l + n)) s =
    Some (upd_pipe pipe (\<lambda>q. q\<lparr>p_buf := snd (snd (pipe_ring.put_all (map (\<lambda>k. ubyte w (va + of_nat k) s) [k..<n]) (h, l + k, p_buf q)))\<rparr>) s)"
  using assms
proof (induction "n - k" arbitrary: k ind wb s)
  case 0
  then show ?case by (simp add: pipe_write_loop.simps upd_pipe_def)
next
  case (Suc d)
  then have kn: "k < n" by simp
  let ?x = "ubyte w (va + of_nat k) s"
  let ?t = "upd_pipe pipe (\<lambda>q. q\<lparr>p_buf := (p_buf q)((h + l + k) mod PIPE_BUFLEN := ?x)\<rparr>) s"
  have u: "U2K w (va + of_nat k) False s = Some (wb + ucast ind, s)" using Suc.prems(7) kn by simp
  then have x: "pmem s (K2P (wb + ucast ind)) = ?x" by (simp add: ubyte_def)
  have ne: "pos32 (h + l + k) \<noteq> pos32 (h + l + n)"
    using ring_index_inj[of k PIPE_BUFLEN n "h + l"] kn Suc.prems(2) by (auto simp: pos32_eq)
  have k1: "of_nat k + 1 = (of_nat (Suc k) :: u32)" by simp
  have k2: "ucast (of_nat (Suc k) :: u32) = (of_nat (Suc k) :: u64)"
    using kn Suc.prems(2) by (simp add: ucast_of_nat_u32 PIPE_BUFLEN_def del: of_nat_Suc)
  have i1: "ucast (ind + 1) = (ucast ind + 1 :: u64)" "unat (ind + 1) \<le> k + 1"
    using Suc.prems(2,3) kn by (auto intro: ucast_inc_u32 simp: PIPE_BUFLEN_def unat_word_ariths)
  from next_ubyte[OF Suc.prems(4) kn u] obtain ka' where ka':
    "k + 1 < n \<or> (va + of_nat (k + 1)) AND PGMASK = 0 \<Longrightarrow> U2K w (va + of_nat (k + 1)) False s = Some (ka', s)"
    "(va + of_nat (k + 1)) AND PGMASK \<noteq> 0 \<Longrightarrow> ka' = wb + ucast ind + 1" by blast
  then have ut: "k + 1 < n \<or> (va + of_nat (k + 1)) AND PGMASK = 0 \<Longrightarrow> U2K w (va + of_nat (k + 1)) False ?t = Some (ka', ?t)"
    by (blast intro: U2K_cong[of w _ s] upd_pipe_same fun_cong)
  have IH: "pipe_write_loop pipe (of_nat (k + 1)) ind' wb' (pos32 (h + l + (k + 1))) (pos32 (h + l + n)) ?t =
      Some (upd_pipe pipe (\<lambda>q. q\<lparr>p_buf := snd (snd (pipe_ring.put_all (map (\<lambda>k. ubyte w (va + of_nat k) s) [k + 1..<n])
        (h, l + (k + 1), p_buf q)))\<rparr>) ?t)"
    if "wb' + ucast ind' = ka'" "unat ind' \<le> k + 1" for ind' wb'
    using Suc.hyps(1)[of "k + 1" ind' ?t wb'] Suc.hyps(2) Suc.prems kn ut that by auto
  have res: "upd_pipe pipe (\<lambda>q. q\<lparr>p_buf := snd (snd (pipe_ring.put_all (map (\<lambda>k. ubyte w (va + of_nat k) s) [k + 1..<n])
        (h, l + (k + 1), p_buf q)))\<rparr>) ?t =
      upd_pipe pipe (\<lambda>q. q\<lparr>p_buf := snd (snd (pipe_ring.put_all (map (\<lambda>k. ubyte w (va + of_nat k) s) [k..<n]) (h, l + k, p_buf q)))\<rparr>) s"
    using kn by (simp add: upd_pipe_def upt_conv_Cons add.assoc)
  have lt: "unat (pos32 y) < PIPE_BUFLEN" for y using unat_pos32[of y] by (simp add: PIPE_BUFLEN_def)
  have nx: "next_pos (pos32 (h + l + k)) = pos32 (h + l + (k + 1))" by (simp add: next_pos32)
  show ?case
  proof (cases "(va + of_nat (k + 1)) AND PGMASK = 0")
    case True
    have "pipe_write_loop pipe (of_nat k) ind wb (pos32 (h + l + k)) (pos32 (h + l + n)) s =
        pipe_write_loop pipe (of_nat (k + 1)) 0 ka' (pos32 (h + l + (k + 1))) (pos32 (h + l + n)) ?t"
      using True ne lt Suc.prems(5,6) ut
      by (subst pipe_write_loop.simps) (simp add: x k1 k2 nx unat_pos32 Let_def del: of_nat_Suc)
    then show ?thesis using IH[of ka' 0] res by simp
  next
    case False
    have "pipe_write_loop pipe (of_nat k) ind wb (pos32 (h + l + k)) (pos32 (h + l + n)) s =
        pipe_write_loop pipe (of_nat (k + 1)) (ind + 1) wb (pos32 (h + l + (k + 1))) (pos32 (h + l + n)) ?t"
      using False ne lt Suc.prems(5,6)
      by (subst pipe_write_loop.simps) (simp add: x k1 k2 nx unat_pos32 Let_def del: of_nat_Suc)
    then show ?thesis using IH[of wb "ind + 1"] res ka'(2) False i1 by (simp add: add.assoc)
  qed
qed

lemma unat_pipe_write_n:
  assumes "pipe_ok q"
  shows "unat (pipe_write_n q) = min (PIPE_BUFLEN - 1 - unat (p_len q)) (unat (wsiz q - wptr q))"
proof -
  let ?a = "of_nat PIPE_BUFLEN - ucast (p_len q) - 1 :: u64" and ?b = "ucast (wsiz q - wptr q) :: u64"
  have l: "unat (p_len q) < 4032" using assms by (simp add: pipe_ok_def PIPE_BUFLEN_def)
  have "ucast (p_len q) \<le> (4031 :: u64)"
    using l by (simp add: word_le_nat_alt)
  then have a: "unat ?a = PIPE_BUFLEN - 1 - unat (p_len q)"
    using l by (simp add: PIPE_BUFLEN_def unat_sub)
  have "unat (min ?a ?b) = min (unat ?a) (unat ?b)" by (simp add: min_def word_le_nat_alt)
  moreover have "unat (min ?a ?b) < 2 ^ 32" using calculation a by (simp add: PIPE_BUFLEN_def)
  ultimately show ?thesis using a by (simp add: pipe_write_n_def unsigned_ucast_eq take_bit_nat_eq_self)
qed

lemma unat_pipe_read_n: "unat (pipe_read_n q) = min (unat (p_len q)) (unat (rsiz q))"
  by (simp add: pipe_read_n_def min_def word_le_nat_alt)

lemma put_all_fst: "pipe_ring.put_all xs (h, l, b) = (h, l + length xs, snd (snd (pipe_ring.put_all xs (h, l, b))))"
proof -
  have "\<exists>b'. pipe_ring.put_all xs (h, l, b) = (h, l + length xs, b')"
  proof (induction xs arbitrary: l b)
    case (Cons x xs)
    have "\<exists>b'. pipe_ring.put_all xs (h, Suc l, b((h + l) mod PIPE_BUFLEN := x)) = (h, Suc l + length xs, b')"
      by (rule Cons)
    then show ?case by simp
  qed simp
  then show ?thesis by auto
qed

lemma put_all_ring_of:
  assumes "pipe_ok q" and "unat (p_len q) + length xs < PIPE_BUFLEN"
  shows "contents (q\<lparr>p_len := p_len q + of_nat (length xs), p_buf := snd (snd (pipe_ring.put_all xs (pipe_ring_of q)))\<rparr>) =
    contents q @ xs"
proof -
  have "unat (p_len q + of_nat (length xs)) = unat (p_len q) + length xs"
    using assms(2) by (simp add: unat_word_ariths unat_of_nat PIPE_BUFLEN_def)
  then have "pipe_ring_of (q\<lparr>p_len := p_len q + of_nat (length xs), p_buf := snd (snd (pipe_ring.put_all xs (pipe_ring_of q)))\<rparr>) =
      pipe_ring.put_all xs (pipe_ring_of q)"
    using put_all_fst[of xs "unat (p_head q)" "unat (p_len q)" "p_buf q"] by (simp add: pipe_ring_of_def)
  then show ?thesis
    using pipe_ring.put_all_ok[OF pipe_ok_ring[OF assms(1)], of xs] assms(2) length_contents[of q]
    by (simp add: contents_def)
qed

text \<open>What \<^verbatim>\<open>pipe_write\<close> leaves of the pipe \<open>q\<close> after the bytes \<open>xs\<close>.\<close>

definition written :: "pipe \<Rightarrow> u8 list \<Rightarrow> pipe" where
  "written q xs =
     (let q = q\<lparr>p_buf := snd (snd (pipe_ring.put_all xs (pipe_ring_of q))),
                wptr := wptr q + of_nat (length xs), p_len := p_len q + of_nat (length xs)\<rparr>
      in if wptr q = wsiz q then q\<lparr>wbuf := 0, wptr := 0, wsiz := 0, writer := None\<rparr> else q)"

lemma pipe_write_copy_ok:
  fixes s :: "'a kstate_scheme" and pipe :: u64
  defines "q \<equiv> pipes s pipe" and "n \<equiv> pipe_write_n (pipes s pipe)"
  defines "va \<equiv> wbuf (pipes s pipe) + ucast (wptr (pipes s pipe))"
  assumes ok: "pipe_ok q" and w: "writer q = Some w" and n0: "n \<noteq> 0" and rd: "readable w va (unat n) s"
  shows "\<exists>s'. pipe_write_copy pipe invoke s = Some (n, s') \<and>
    pipes s' = (pipes s)(pipe := written q (ubytes w va (unat n) s)) \<and> pmem s' = pmem s \<and>
    procs s' = (if invoke \<and> wptr q + n = wsiz q
      then (procs s)(w := (procs s w)\<lparr>ctx := (ctx (procs s w))\<lparr>rax := ucast (wsiz q)\<rparr>, state := READY\<rparr>) else procs s)"
proof -
  let ?xs = "ubytes w va (unat n) s" and ?h = "unat (p_head q)" and ?l = "unat (p_len q)"
  have n: "unat n = min (PIPE_BUFLEN - 1 - ?l) (unat (wsiz q - wptr q))" using unat_pipe_write_n[OF ok] by (simp add: n_def q_def)
  have lt: "?h < 4032" "?l < 4032" "?l + unat n < 4032" using ok n by (auto simp: pipe_ok_def PIPE_BUFLEN_def)
  have hl: "unat (p_head q + p_len q) = ?h + ?l" "unat (p_head q + p_len q + n) = ?h + ?l + unat n"
    using lt by (simp_all add: unat_word_ariths)
  have "0 < unat n" using n0 by (simp add: unat_gt_0)
  then obtain wb where u: "U2K w va False s = Some (wb, s)" using readableD[OF rd, of 0] by auto
  have "pipe_write_loop pipe 0 0 wb (pos32 (?h + ?l)) (pos32 (?h + ?l + unat n)) s =
      Some (upd_pipe pipe (\<lambda>q. q\<lparr>p_buf := snd (snd (pipe_ring.put_all ?xs (?h, ?l, p_buf q)))\<rparr>) s)"
    using pipe_write_loop_ok[of 0 "unat n" 0 w va s pipe wb ?h ?l] lt u rd w
    by (simp add: va_def q_def ubytes_def PIPE_BUFLEN_def)
  then have l: "pipe_write_loop pipe 0 0 wb (pos32 (unat (p_head q + p_len q))) (pos32 (unat (p_head q + p_len q + n))) s =
      Some (upd_pipe pipe (\<lambda>q. q\<lparr>p_buf := snd (snd (pipe_ring.put_all ?xs (?h, ?l, p_buf q)))\<rparr>) s)"
    by (simp only: hl)
  have nn: "of_nat (length ?xs) = n" by (simp add: ubytes_def)
  note [simp] = u[unfolded va_def] w[unfolded q_def] n0[unfolded n_def] l[unfolded q_def n_def va_def]
  show ?thesis
    using nn unfolding written_def q_def n_def va_def
    by (cases "wptr (pipes s pipe) + pipe_write_n (pipes s pipe) = wsiz (pipes s pipe)")
      (simp_all add: pipe_write_copy_def Let_def pipe_ring_of_def upd_proc_def)
qed

section \<open>Reading\<close>

text \<open>
  A buffer of the reader \<open>r\<close> that is private to it: byte \<open>k\<close> is at the kernel address \<open>ka k\<close>, no two
  bytes share an address, no page is left to copy, and storing into the buffer changes no
  translation of it (the frames hold no page table).
\<close>

definition ubuf :: "nat \<Rightarrow> u64 \<Rightarrow> nat \<Rightarrow> (nat \<Rightarrow> u64) \<Rightarrow> 'a kstate_scheme \<Rightarrow> bool" where
  "ubuf r va n ka s \<longleftrightarrow> inj_on (\<lambda>k. K2P (ka k)) {..<n} \<and>
     (\<forall>k \<le> n. k < n \<or> (va + of_nat k) AND PGMASK = 0 \<longrightarrow>
       (\<forall>m. (\<forall>x. x \<notin> (\<lambda>k. K2P (ka k)) ` {..<n} \<longrightarrow> m x = pmem s x) \<longrightarrow>
         U2K r (va + of_nat k) True (s\<lparr>pmem := m\<rparr>) = Some (ka k, s\<lparr>pmem := m\<rparr>)))"

lemma ubufD:
  assumes "ubuf r va n ka s" and "k < n \<or> k = n \<and> (va + of_nat k) AND PGMASK = 0"
    and "\<And>x. x \<notin> (\<lambda>k. K2P (ka k)) ` {..<n} \<Longrightarrow> m x = pmem s x"
  shows "U2K r (va + of_nat k) True (s\<lparr>pmem := m\<rparr>) = Some (ka k, s\<lparr>pmem := m\<rparr>)"
proof -
  have "k \<le> n" "k < n \<or> (va + of_nat k) AND PGMASK = 0" using assms(2) by auto
  then show ?thesis using assms(1,3) unfolding ubuf_def by blast
qed

primrec stores :: "(nat \<Rightarrow> u64) \<Rightarrow> (nat \<Rightarrow> u8) \<Rightarrow> nat \<Rightarrow> bytes \<Rightarrow> bytes" where
  "stores ka f 0 m = m"
| "stores ka f (Suc k) m = (stores ka f k m)(K2P (ka k) := f k)"

lemma stores_outside: "x \<notin> (\<lambda>k. K2P (ka k)) ` {..<n} \<Longrightarrow> k \<le> n \<Longrightarrow> stores ka f k m x = m x"
  by (induction k) auto

lemma stores_inside: "inj_on (\<lambda>k. K2P (ka k)) {..<n} \<Longrightarrow> j < k \<Longrightarrow> k \<le> n \<Longrightarrow> stores ka f k m (K2P (ka j)) = f j"
proof (induction k)
  case (Suc k)
  then show ?case using inj_onD[of "\<lambda>k. K2P (ka k)" "{..<n}" k j] by (cases "j = k") auto
qed simp

lemma pipe_read_loop_ok:
  fixes s :: "'a kstate_scheme" and pipe :: u64 and h :: nat
  assumes ub: "ubuf r va n ka s" and n: "n < PIPE_BUFLEN" and r: "reader (pipes s pipe) = Some r" "rbuf (pipes s pipe) = va"
    and "k \<le> n" and "unat ind \<le> k" and "k < n \<Longrightarrow> rb + ucast ind = ka k"
  defines "f \<equiv> \<lambda>k. p_buf (pipes s pipe) ((h + k) mod PIPE_BUFLEN)"
  shows "pipe_read_loop pipe (of_nat k) ind rb (pos32 (h + k)) (pos32 (h + n)) (s\<lparr>pmem := stores ka f k (pmem s)\<rparr>) =
    Some (s\<lparr>pmem := stores ka f n (pmem s)\<rparr>)"
  using assms(5-7)
proof (induction "n - k" arbitrary: k ind rb)
  case 0
  then show ?case by (simp add: pipe_read_loop.simps)
next
  case (Suc d)
  then have kn: "k < n" by simp
  let ?s = "s\<lparr>pmem := stores ka f k (pmem s)\<rparr>" and ?t = "s\<lparr>pmem := stores ka f (Suc k) (pmem s)\<rparr>"
  have ne: "pos32 (h + k) \<noteq> pos32 (h + n)"
    using ring_index_inj[of k PIPE_BUFLEN n h] kn n by (auto simp: pos32_eq)
  have k1: "of_nat k + 1 = (of_nat (Suc k) :: u32)" by simp
  have k2: "ucast (of_nat (Suc k) :: u32) = (of_nat (Suc k) :: u64)"
    using kn n by (simp add: ucast_of_nat_u32 PIPE_BUFLEN_def del: of_nat_Suc)
  have i1: "ucast (ind + 1) = (ucast ind + 1 :: u64)" "unat (ind + 1) \<le> Suc k"
    using Suc.prems(2) kn n by (auto intro: ucast_inc_u32 simp: PIPE_BUFLEN_def unat_word_ariths)
  have t: "?s\<lparr>pmem := (pmem ?s)(K2P (rb + ucast ind) := p_buf (pipes ?s pipe) ((h + k) mod PIPE_BUFLEN))\<rparr> = ?t"
    using Suc.prems(3)[OF kn] by (simp add: f_def)
  have u: "U2K r (va + of_nat j) True ?t = Some (ka j, ?t)" if "j < n \<or> j = n \<and> (va + of_nat j) AND PGMASK = 0" for j
    using ubufD[OF ub that, of "stores ka f (Suc k) (pmem s)"] stores_outside[of _ ka n "Suc k" f "pmem s"] kn
    by (simp del: stores.simps)
  have lt: "unat (pos32 y) < PIPE_BUFLEN" for y using unat_pos32[of y] by (simp add: PIPE_BUFLEN_def)
  have nx: "next_pos (pos32 (h + k)) = pos32 (h + Suc k)" by (simp add: next_pos32)
  have IH: "pipe_read_loop pipe (of_nat (Suc k)) ind' rb' (pos32 (h + Suc k)) (pos32 (h + n)) ?t = Some (s\<lparr>pmem := stores ka f n (pmem s)\<rparr>)"
    if "unat ind' \<le> Suc k" "Suc k < n \<Longrightarrow> rb' + ucast ind' = ka (Suc k)" for ind' rb'
    using Suc.hyps(1)[of "Suc k" ind' rb'] Suc.hyps(2) kn that by (simp del: stores.simps)
  show ?case
  proof (cases "(va + of_nat (Suc k)) AND PGMASK = 0")
    case True
    then have "U2K r (va + of_nat (Suc k)) True ?t = Some (ka (Suc k), ?t)" using u[of "Suc k"] kn by linarith
    then have "pipe_read_loop pipe (of_nat k) ind rb (pos32 (h + k)) (pos32 (h + n)) ?s =
        pipe_read_loop pipe (of_nat (Suc k)) 0 (ka (Suc k)) (pos32 (h + Suc k)) (pos32 (h + n)) ?t"
      using True ne lt r
      by (subst pipe_read_loop.simps) (simp add: k1 k2 nx unat_pos32 t[simplified] Let_def del: of_nat_Suc)
    then show ?thesis using IH[of 0 "ka (Suc k)"] by simp
  next
    case False
    then have "ka (Suc k) = ka k + 1" if "Suc k < n"
      using U2K_next[OF u[of k]] u[of "Suc k"] kn that by (simp add: add.assoc[symmetric] add.commute[of 1])
    moreover have "pipe_read_loop pipe (of_nat k) ind rb (pos32 (h + k)) (pos32 (h + n)) ?s =
        pipe_read_loop pipe (of_nat (Suc k)) (ind + 1) rb (pos32 (h + Suc k)) (pos32 (h + n)) ?t"
      using False ne lt r
      by (subst pipe_read_loop.simps) (simp add: k1 k2 nx unat_pos32 t[simplified] Let_def del: of_nat_Suc)
    ultimately show ?thesis using IH[of "ind + 1" rb] i1 Suc.prems(3) kn by (simp add: add.assoc)
  qed
qed

text \<open>What \<^verbatim>\<open>pipe_read\<close> leaves of the pipe \<open>q\<close> after \<open>n\<close> bytes.\<close>

definition consumed :: "pipe \<Rightarrow> u32 \<Rightarrow> pipe" where
  "consumed q n =
     (let q = q\<lparr>p_len := p_len q - n, p_head := p_head q + n\<rparr>;
          q = (if unat (p_head q) \<ge> PIPE_BUFLEN then q\<lparr>p_head := p_head q - of_nat PIPE_BUFLEN\<rparr> else q)
      in q\<lparr>rbuf := 0, rsiz := 0, reader := None\<rparr>)"

lemma consumed_contents:
  assumes ok: "pipe_ok q" and n: "unat n \<le> unat (p_len q)"
  shows "contents (consumed q n) = drop (unat n) (contents q) \<and> pipe_ok (consumed q n)"
proof -
  let ?h = "unat (p_head q)" and ?l = "unat (p_len q)"
  have lt: "?h < 4032" "?l < 4032" using ok by (auto simp: pipe_ok_def PIPE_BUFLEN_def)
  have h: "unat (p_head q + n) = ?h + unat n" using lt n by (simp add: unat_word_ariths)
  have h2: "unat (p_head (consumed q n)) = (?h + unat n) mod PIPE_BUFLEN"
  proof (cases "?h + unat n < 4032")
    case True
    then show ?thesis by (simp add: consumed_def Let_def h PIPE_BUFLEN_def)
  next
    case False
    then have "4032 \<le> p_head q + n" using h by (simp add: word_le_nat_alt)
    then have "unat (p_head q + n - 4032) = ?h + unat n - 4032" using h by (simp add: unat_sub)
    moreover have "(?h + unat n) mod 4032 = ?h + unat n - 4032" using False lt n by (simp add: mod_if)
    ultimately show ?thesis using False by (simp add: consumed_def Let_def h PIPE_BUFLEN_def)
  qed
  have l2: "unat (p_len (consumed q n)) = ?l - unat n"
    using n by (simp add: consumed_def Let_def unat_sub word_le_nat_alt)
  have "p_buf (consumed q n) = p_buf q" by (simp add: consumed_def Let_def)
  then have "contents (consumed q n) = ring_list PIPE_BUFLEN ((?h + unat n) mod PIPE_BUFLEN) (?l - unat n) (p_buf q)"
    by (simp add: contents_def pipe_ring_of_def h2 l2)
  then show ?thesis
    using ring_list_drop[OF n, of PIPE_BUFLEN ?h "p_buf q"] h2 l2 lt
    by (auto simp: ring_list_mod_h contents_def pipe_ring_of_def pipe_ok_def PIPE_BUFLEN_def)
qed

lemma pipe_read_copy_ok:
  fixes s :: "'a kstate_scheme" and pipe :: u64
  defines "q \<equiv> pipes s pipe" and "n \<equiv> pipe_read_n (pipes s pipe)"
  assumes ok: "pipe_ok q" and r: "reader q = Some r" and n0: "n \<noteq> 0" and ub: "ubuf r (rbuf q) (unat n) ka s"
  shows "\<exists>s'. pipe_read_copy pipe invoke s = Some (n, s') \<and> pipes s' = (pipes s)(pipe := consumed q n) \<and>
    (\<forall>k < unat n. pmem s' (K2P (ka k)) = contents q ! k) \<and>
    (\<forall>x. x \<notin> (\<lambda>k. K2P (ka k)) ` {..<unat n} \<longrightarrow> pmem s' x = pmem s x) \<and>
    procs s' = (if invoke then (procs s)(r := (procs s r)\<lparr>ctx := (ctx (procs s r))\<lparr>rax := ucast n\<rparr>, state := READY\<rparr>) else procs s)"
proof -
  let ?h = "unat (p_head q)"
  define f where "f k = p_buf q ((?h + k) mod PIPE_BUFLEN)" for k
  have n: "unat n \<le> unat (p_len q)" using unat_pipe_read_n[of q] by (simp add: n_def q_def)
  have lt: "?h < 4032" "unat (p_len q) < 4032" using ok by (auto simp: pipe_ok_def PIPE_BUFLEN_def)
  have hn: "unat (p_head q + n) = ?h + unat n" using lt n by (simp add: unat_word_ariths)
  have "0 < unat n" using n0 by (simp add: unat_gt_0)
  then have u: "U2K r (rbuf q) True s = Some (ka 0, s)"
    using ubufD[OF ub, of 0 "pmem s"] by simp
  have h: "p_head q = pos32 ?h" using lt by (simp add: PIPE_BUFLEN_def)
  have "pipe_read_loop pipe 0 0 (ka 0) (pos32 ?h) (pos32 (?h + unat n)) s = Some (s\<lparr>pmem := stores ka f (unat n) (pmem s)\<rparr>)"
    using pipe_read_loop_ok[OF ub _ r[unfolded q_def], of 0 0 "ka 0" ?h] n lt
    by (simp add: q_def f_def[abs_def] PIPE_BUFLEN_def)
  then have l: "pipe_read_loop pipe 0 0 (ka 0) (p_head q) (of_nat (unat (p_head q + n) mod PIPE_BUFLEN)) s =
      Some (s\<lparr>pmem := stores ka f (unat n) (pmem s)\<rparr>)" using h hn by simp
  note [simp] = u[unfolded q_def] r[unfolded q_def] n0[unfolded n_def] l[unfolded q_def n_def]
  have inj: "inj_on (\<lambda>k. K2P (ka k)) {..<unat n}" using ub by (simp add: ubuf_def)
  have "contents q ! k = f k" if "k < unat n" for k
    using that n by (simp add: contents_def pipe_ring_of_def f_def ring_list_nth)
  moreover have "\<exists>s'. pipe_read_copy pipe invoke s = Some (n, s') \<and> pipes s' = (pipes s)(pipe := consumed q n) \<and>
      pmem s' = stores ka f (unat n) (pmem s) \<and>
      procs s' = (if invoke then (procs s)(r := (procs s r)\<lparr>ctx := (ctx (procs s r))\<lparr>rax := ucast n\<rparr>, state := READY\<rparr>) else procs s)"
    unfolding q_def n_def by (simp add: pipe_read_copy_def consumed_def Let_def upd_proc_def)
  ultimately show ?thesis using stores_inside[OF inj] stores_outside[of _ ka "unat n" "unat n" f "pmem s"] by fastforce
qed

section \<open>Properties\<close>

text \<open>
  C11: With nobody waiting to read, \<^verbatim>\<open>pipe_write\<close> appends the next \<open>n\<close> bytes of the writer's buffer to
  the contents of the pipe, where \<open>n\<close> is what fits and what is left to write, returns \<open>n\<close> and
  keeps the pipe well-formed; a writer that is done is removed and, when it was waiting, woken with
  the size it asked for.
\<close>
theorem pipe_write_appends:
  fixes s :: "'a kstate_scheme"
  assumes "pipe_ok (pipes s pipe)" and "writer (pipes s pipe) = Some w" and "reader (pipes s pipe) = None"
    and "wptr (pipes s pipe) \<noteq> wsiz (pipes s pipe)" and "unat (p_len (pipes s pipe)) + 1 < PIPE_BUFLEN"
    and "n = min (PIPE_BUFLEN - 1 - unat (p_len (pipes s pipe))) (unat (wsiz (pipes s pipe) - wptr (pipes s pipe)))"
    and "va = wbuf (pipes s pipe) + ucast (wptr (pipes s pipe))" and "readable w va n s"
  shows "\<exists>s'. pipe_write pipe invoke s = Some (of_nat n, s') \<and> pipe_ok (pipes s' pipe) \<and>
    contents (pipes s' pipe) = contents (pipes s pipe) @ ubytes w va n s \<and> pmem s' = pmem s \<and>
    (if n = unat (wsiz (pipes s pipe) - wptr (pipes s pipe))
     then writer (pipes s' pipe) = None \<and>
       (invoke \<longrightarrow> state (procs s' w) = READY \<and> rax (ctx (procs s' w)) = ucast (wsiz (pipes s pipe)))
     else writer (pipes s' pipe) = Some w \<and> wptr (pipes s' pipe) = wptr (pipes s pipe) + of_nat n \<and> procs s' = procs s)"
proof -
  define q where "q = pipes s pipe"
  note a = assms(1-5)[folded q_def]
  have n: "unat (pipe_write_n q) = n" using unat_pipe_write_n[OF a(1)] assms(6) by (simp add: q_def)
  have "0 < unat (wsiz q - wptr q)" using a(4) by (simp add: unat_gt_0)
  then have n1: "0 < n" "n + unat (p_len q) < PIPE_BUFLEN" using assms(6)[folded q_def] a(5) by (auto simp: min_def)
  then have n0: "pipe_write_n q \<noteq> 0" using n by auto
  have nw: "pipe_write_n q = of_nat n" unfolding n[symmetric] by simp
  let ?xs = "ubytes w va n s"
  have len: "length ?xs = n" by (simp add: ubytes_def)
  obtain s' where s': "pipe_write_copy pipe invoke s = Some (of_nat n, s')" "pipes s' = (pipes s)(pipe := written q ?xs)"
    "pmem s' = pmem s" "procs s' = (if invoke \<and> wptr q + of_nat n = wsiz q
      then (procs s)(w := (procs s w)\<lparr>ctx := (ctx (procs s w))\<lparr>rax := ucast (wsiz q)\<rparr>, state := READY\<rparr>) else procs s)"
    using pipe_write_copy_ok[of s pipe w invoke] a n0 assms(7,8) unfolding q_def[symmetric] nw n[unfolded nw] by auto
  have "reader (pipes s' pipe) = None" using pipe_write_copy_reader[OF s'(1)] assms(3) by simp
  then have e: "pipe_write pipe invoke s = Some (of_nat n, s')"
    using s'(1) by (simp add: pipe_write.simps)
  have c: "contents (written q ?xs) = contents q @ ?xs"
    using put_all_ring_of[OF a(1), of ?xs] n1 len
    by (simp add: written_def contents_def pipe_ring_of_def Let_def add.commute)
  have "unat (p_len q + of_nat n) = unat (p_len q) + n"
    using n1 by (simp add: unat_word_ariths unat_of_nat PIPE_BUFLEN_def)
  then have o: "pipe_ok (written q ?xs)" using a(1) n1 len by (simp add: pipe_ok_def written_def Let_def)
  have fin: "wptr q + of_nat n = wsiz q \<longleftrightarrow> n = unat (wsiz q - wptr q)"
  proof -
    have "wptr q + of_nat n = wsiz q \<longleftrightarrow> of_nat n = wsiz q - wptr q" by (auto simp: algebra_simps)
    then show ?thesis unfolding n[symmetric] by (simp add: word_unat_eq_iff)
  qed
  show ?thesis
    using e c o s' a(2) len fin unfolding q_def[symmetric]
    by (intro exI[of _ s']) (auto simp: written_def Let_def q_def[symmetric])
qed

text \<open>
  C12: With nobody waiting to write, \<^verbatim>\<open>pipe_read\<close> moves the oldest bytes of the pipe, as many as there are
  and the reader asked for, to the reader's buffer in order, changes no other byte of memory, and
  removes the reader, waking it with the count when it was waiting.
\<close>
theorem pipe_read_delivers:
  fixes s :: "'a kstate_scheme"
  assumes "pipe_ok (pipes s pipe)" and "reader (pipes s pipe) = Some r" and "writer (pipes s pipe) = None"
    and "n = min (length (contents (pipes s pipe))) (unat (rsiz (pipes s pipe)))" and "0 < n"
    and "ubuf r (rbuf (pipes s pipe)) n ka s"
  shows "\<exists>s'. pipe_read pipe invoke s = Some (of_nat n, s') \<and> pipe_ok (pipes s' pipe) \<and>
    contents (pipes s' pipe) = drop n (contents (pipes s pipe)) \<and>
    map (\<lambda>k. pmem s' (K2P (ka k))) [0..<n] = take n (contents (pipes s pipe)) \<and>
    (\<forall>x. x \<notin> (\<lambda>k. K2P (ka k)) ` {..<n} \<longrightarrow> pmem s' x = pmem s x) \<and>
    reader (pipes s' pipe) = None \<and>
    (invoke \<longrightarrow> state (procs s' r) = READY \<and> rax (ctx (procs s' r)) = of_nat n)"
proof -
  define q where "q = pipes s pipe"
  note a = assms(1-3)[folded q_def]
  have n: "unat (pipe_read_n q) = n" using unat_pipe_read_n[of q] assms(4) by (simp add: q_def length_contents)
  then have n0: "pipe_read_n q \<noteq> 0" using assms(5) by auto
  have nw: "pipe_read_n q = of_nat n" unfolding n[symmetric] by simp
  have nl: "n \<le> unat (p_len q)" using n unat_pipe_read_n[of q] by simp
  obtain s' where s': "pipe_read_copy pipe invoke s = Some (of_nat n, s')" "pipes s' = (pipes s)(pipe := consumed q (of_nat n))"
    "\<forall>k < n. pmem s' (K2P (ka k)) = contents q ! k" "\<forall>x. x \<notin> (\<lambda>k. K2P (ka k)) ` {..<n} \<longrightarrow> pmem s' x = pmem s x"
    "procs s' = (if invoke then (procs s)(r := (procs s r)\<lparr>ctx := (ctx (procs s r))\<lparr>rax := ucast (of_nat n :: u32)\<rparr>, state := READY\<rparr>) else procs s)"
    using pipe_read_copy_ok[of s pipe r ka invoke] a n0 assms(6) unfolding q_def[symmetric] nw n[unfolded nw] by auto
  have wn: "writer (consumed q (of_nat n)) = None" using a(3) by (simp add: consumed_def Let_def)
  then have e: "pipe_read pipe invoke s = Some (of_nat n, s')"
    using s'(1,2) by (simp add: pipe_read.simps)
  have "n < 2 ^ 32" using nl unsigned_less[of "p_len q", where ?'a = nat] by simp
  then have u: "ucast (of_nat n :: u32) = (of_nat n :: u64)" "unat (of_nat n :: u32) = n"
    by (simp_all add: ucast_of_nat_u32 unat_of_nat)
  have "map (\<lambda>k. pmem s' (K2P (ka k))) [0..<n] = take n (contents q)"
    using s'(3) nl by (intro nth_equalityI) (simp_all add: length_contents)
  moreover have "reader (consumed q (of_nat n)) = None" by (simp add: consumed_def Let_def)
  ultimately show ?thesis
    using e s'(2,4,5) consumed_contents[OF a(1), of "of_nat n"] nl u unfolding q_def[symmetric]
    by (intro exI[of _ s']) auto
qed

section \<open>Witnesses\<close>

text \<open>Process 5 with the three bytes 65, 66, 67 at 0x400010, in the frame 0x206000.\<close>

definition ex_bytes :: bytes where
  "ex_bytes = ex_tbl(0x206010 := 65, 0x206011 := 66, 0x206012 := 67)"

definition ex_pipe :: "pipe \<Rightarrow> kstate" where
  "ex_pipe q = kmem.extend (ex_kmem\<lparr>pmem := ex_bytes\<rparr>) (kstate.fields (\<lambda>_. zero_proc\<lparr>pgtbl := 0x207000, p_pgtbl := 0x207000\<rparr>)
     (\<lambda>_. zero_fx) None None 0 (\<lambda>_. q) (\<lambda>_. 0) 0 0)"

lemma ex_pipe_sel [simp]:
  "pmem (ex_pipe q) = ex_bytes" "pipes (ex_pipe q) = (\<lambda>_. q)" "pgtbl (procs (ex_pipe q) i) = 0x207000" "p_pgtbl (procs (ex_pipe q) i) = 0x207000"
  by (simp_all add: ex_pipe_def kmem.extend_def kstate.fields_def zero_proc_def)

lemma ex_pipe_U2K:
  assumes "\<And>x. page_of x \<noteq> 0x206000 \<Longrightarrow> m x = ex_tbl x"
  shows "U2K i 0x400010 w ((ex_pipe q)\<lparr>pmem := m\<rparr>) = Some (0xFFFF800000206010, (ex_pipe q)\<lparr>pmem := m\<rparr>)"
proof -
  let ?s = "(ex_pipe q)\<lparr>pmem := m\<rparr>"
  have va: "va_path 0x400010 = [0, 0, 2]" "va_indices 0x400010 = [0, 0, 2, 0]"
    by (simp_all add: va_indices_def va_path_def PML4_INDEX_def PDPT_INDEX_def PD_INDEX_def PT_INDEX_def
        PML4_OFFSET_def PDPT_OFFSET_def PD_OFFSET_def PT_OFFSET_def drop_bit_eq_div)
  have t: "sub 0x207000 = 0x207000" by (simp add: sub_def mask_eq_exp_minus_1)
  have "ent m t j = ent ex_tbl t j" if "t \<in> {0x207000, 0x208000, 0x209000, 0x20A000}" "j < 512" for t j
    by (rule agree_ent[of "{0x207000, 0x208000, 0x209000, 0x20A000}"])
      (use that assms in \<open>auto simp: agree_def is_page_def mask_eq_exp_minus_1\<close>)
  then have e: "ent m 0x207000 0 = 0x208007" "ent m 0x208000 0 = 0x209007" "ent m 0x209000 2 = 0x20A007" "ent m 0x20A000 0 = 0x206007"
    by (simp_all add: ex_tbl_ent)
  have c: "child 0x208007 = Some 0x208000" "child 0x209007 = Some 0x209000" "child 0x20A007 = Some 0x20A000"
    by (simp_all add: child_def PTE_P_def PDPTE_PS_def sub_def mask_eq_exp_minus_1)
  have n: "no_huge m 0x207000 [0, 0, 2]" by (simp add: e c PDPTE_PS_def)
  have l: "lookup m 0x207000 [0, 0, 2, 0] = 0x206007" by (simp add: e c)
  have "U2K i 0x400010 w ?s = Some (PAGEKADDR 0x206007 OR (0x400010 AND PGMASK), ?s)"
    by (rule U2K_lookup[where ?e2.0 = "0x206007"]) (simp_all add: va t n l PTE_P_def PTE_U_def del: lookup.simps no_huge.simps)
  then show ?thesis
    by (simp add: PAGEKADDR_def PAGEADDR_def KERNBASE_def PGMASK_eq mask_eq_exp_minus_1)
qed

lemma ex_pipe_chain:
  assumes "\<And>x. page_of x \<noteq> 0x206000 \<Longrightarrow> m x = ex_tbl x" and "k < 3"
  shows "U2K i (0x400010 + of_nat k) w ((ex_pipe q)\<lparr>pmem := m\<rparr>) = Some (0xFFFF800000206010 + of_nat k, (ex_pipe q)\<lparr>pmem := m\<rparr>)"
proof -
  note 0 = ex_pipe_U2K[OF assms(1), of i w q]
  note 1 = U2K_next[OF 0, simplified PGMASK_eq mask_eq_exp_minus_1, simplified]
  note 2 = U2K_next[OF 1, simplified PGMASK_eq mask_eq_exp_minus_1, simplified]
  have "k = 0 \<or> k = 1 \<or> k = 2" using assms(2) by auto
  then show ?thesis using 0 1 2 by auto
qed

lemma ex_bytes_tbl: "page_of x \<noteq> 0x206000 \<Longrightarrow> ex_bytes x = ex_tbl x"
  by (auto simp: ex_bytes_def mask_eq_exp_minus_1)

lemma ex_pipe_pmem: "(ex_pipe q)\<lparr>pmem := ex_bytes\<rparr> = ex_pipe q"
  by (simp add: ex_pipe_def kmem.extend_def kstate.fields_def)

theorem pipe_write_appends_witness:
  "\<exists>s'. pipe_write 0 True (ex_pipe (zero_pipe\<lparr>writer := Some 5, wbuf := 0x400010, wsiz := 3\<rparr>)) = Some (3, s') \<and>
     contents (pipes s' 0) = [65, 66, 67] \<and> rax (ctx (procs s' 5)) = 3"
proof -
  let ?q = "zero_pipe\<lparr>writer := Some 5, wbuf := 0x400010, wsiz := 3\<rparr>"
  let ?s = "ex_pipe ?q"
  have u: "U2K 5 (0x400010 + of_nat k) False ?s = Some (0xFFFF800000206010 + of_nat k, ?s)" if "k < 3" for k
    using ex_pipe_chain[of ex_bytes k 5 False ?q] ex_bytes_tbl that unfolding ex_pipe_pmem by blast
  have r: "readable 5 0x400010 3 ?s"
    unfolding readable_def
  proof (intro allI impI)
    fix k :: nat assume "k \<le> 3" "k < 3 \<or> (0x400010 + of_nat k) AND PGMASK = 0"
    moreover have "(0x400010 + of_nat 3) AND PGMASK \<noteq> 0" by (simp add: PGMASK_eq mask_eq_exp_minus_1)
    ultimately have "k < 3" by (cases "k = 3") auto
    then show "U2K 5 (0x400010 + of_nat k) False ?s \<noteq> None" using u by simp
  qed
  have "ubyte 5 (0x400010 + of_nat k) ?s = ex_bytes (K2P (0xFFFF800000206010 + of_nat k))" if "k < 3" for k
    using u[OF that] by (simp add: ubyte_def)
  from this[of 0] this[of 1] this[of 2] have "ubytes 5 0x400010 3 ?s = [65, 66, 67]"
    by (simp add: ubytes_def upt_rec K2P_def MASK_def mask_eq_exp_minus_1 ex_bytes_def)
  moreover have "contents ?q = []" by (simp add: contents_def pipe_ring_of_def zero_pipe_def)
  ultimately show ?thesis
    using pipe_write_appends[of ?s 0 5 3 "0x400010" True] r
    by (auto simp: zero_pipe_def pipe_ok_def PIPE_BUFLEN_def)
qed

theorem pipe_read_delivers_witness:
  "\<exists>s'. pipe_read 0 True (ex_pipe (zero_pipe\<lparr>reader := Some 5, rbuf := 0x400010, rsiz := 2, p_len := 3, p_head := 4031,
       p_buf := (\<lambda>j. if j = 4031 then 7 else if j = 0 then 8 else 9)\<rparr>)) = Some (2, s') \<and>
     contents (pipes s' 0) = [9] \<and> pmem s' 0x206010 = 7 \<and> pmem s' 0x206011 = 8"
proof -
  let ?q = "zero_pipe\<lparr>reader := Some 5, rbuf := 0x400010, rsiz := 2, p_len := 3, p_head := 4031,
       p_buf := (\<lambda>j. if j = 4031 then 7 else if j = 0 then 8 else 9)\<rparr>"
  let ?s = "ex_pipe ?q" and ?ka = "\<lambda>k. 0xFFFF800000206010 + of_nat k :: u64"
  have ka: "K2P (?ka 0) = 0x206010" "K2P (?ka 1) = 0x206011" by (simp_all add: K2P_def MASK_def mask_eq_exp_minus_1)
  have img: "(\<lambda>k. K2P (?ka k)) ` {..<2} = {0x206010, 0x206011}"
    using ka by (auto simp add: numeral_2_eq_2 lessThan_Suc)
  have "ubuf 5 0x400010 2 ?ka ?s"
    unfolding ubuf_def img
  proof (intro conjI allI impI)
    show "inj_on (\<lambda>k. K2P (?ka k)) {..<2}" using ka by (simp add: numeral_2_eq_2 lessThan_Suc)
    fix k m assume k: "k \<le> (2 :: nat)" "k < 2 \<or> (0x400010 + of_nat k) AND PGMASK = 0"
      and m: "\<forall>x. x \<notin> {0x206010, 0x206011} \<longrightarrow> m x = pmem ?s x"
    have "(0x400010 + of_nat 2) AND PGMASK \<noteq> 0" by (simp add: PGMASK_eq mask_eq_exp_minus_1)
    with k have "k < 3" by auto
    moreover have "m x = ex_tbl x" if "page_of x \<noteq> 0x206000" for x
    proof -
      have "x \<notin> {0x206010, 0x206011}" using that by (auto simp: mask_eq_exp_minus_1)
      then show ?thesis using m that by (simp add: ex_bytes_tbl)
    qed
    ultimately show "U2K 5 (0x400010 + of_nat k) True (?s\<lparr>pmem := m\<rparr>) = Some (?ka k, ?s\<lparr>pmem := m\<rparr>)"
      using ex_pipe_chain[of m k 5 True ?q] by simp
  qed
  moreover have c: "contents ?q = [7, 8, 9]"
  proof -
    have "[0..<3] = [0, 1, 2 :: nat]" by (simp add: upt_rec)
    then show ?thesis by (simp add: contents_def pipe_ring_of_def ring_list_def zero_pipe_def PIPE_BUFLEN_def)
  qed
  ultimately have ub: "ubuf 5 (rbuf (pipes ?s 0)) 2 ?ka ?s" by simp
  have "pipe_ok (pipes ?s 0)" "reader (pipes ?s 0) = Some 5" "writer (pipes ?s 0) = None"
    "2 = min (length (contents (pipes ?s 0))) (unat (rsiz (pipes ?s 0)))" "(0 :: nat) < 2"
    using c by (simp_all add: pipe_ok_def PIPE_BUFLEN_def) (simp add: zero_pipe_def)
  from pipe_read_delivers[OF this ub, of True] obtain s' where s': "pipe_read 0 True ?s = Some (of_nat 2, s')"
    "contents (pipes s' 0) = drop 2 (contents ?q)" "map (\<lambda>k. pmem s' (K2P (?ka k))) [0..<2] = take 2 (contents ?q)" by auto
  moreover have "[0..<2] = [0, 1 :: nat]" by (simp add: upt_rec)
  ultimately show ?thesis using ka by (simp add: c)
qed

end
