(* ===== verification/Fmt.thy ===== *)
theory Fmt
  imports Errno
begin

text \<open>
  Formatted output, \<^verbatim>\<open>lib/printfmt.c\<close> and \<^verbatim>\<open>lib/printf.c\<close>.  The effect of a formatting function is the
  sequence of characters it passes to \<^verbatim>\<open>putch\<close>; that sequence is its result.  \<^term>\<open>None\<close> stands for
  behaviour C does not define: reading an argument that is not there, reading past the end of the
  format, or writing past a buffer.

  An argument is a 64-bit slot, a string, or the 64 bits of a double, whose arithmetic is that of
  IEEE 754 with rounding to nearest.  Also undefined is the negation of the least signed number, and
  the conversion of a double to an integer type that cannot hold it.

  The lemmas show that \<^verbatim>\<open>printint\<close> prints the positional representation, that the in-place reversal
  it uses is list reversal, and that reading the digits back gives the number.
\<close>

section \<open>Numbers\<close>

text \<open>The loop over the digits, least significant first; a base below 2 would not end or divide by zero.\<close>

function digit_loop :: "u64 \<Rightarrow> u64 \<Rightarrow> string" where
  "digit_loop base n =
     (if n = 0 \<or> base < 2 then []
      else (if n mod base > 9 then char_of (unat (n mod base - 10 + 97)) else char_of (unat (n mod base + 48)))
           # digit_loop base (n div base))"
  by pat_completeness auto
termination
proof (relation "measure (\<lambda>(base, n). unat n)", simp, clarsimp)
  fix base n :: u64 assume "n \<noteq> 0" "\<not> base < 2"
  then have "2 \<le> unat base" "0 < unat n" by (simp_all add: word_less_nat_alt unat_gt_0 not_less word_le_nat_alt)
  then show "unat (n div base) < unat n" by (simp add: unat_div div_less_dividend)
qed

declare digit_loop.simps [simp del]

text \<open>\<^verbatim>\<open>for (i = 0; i < len - 1 - i; ++i)\<close> swap \<^verbatim>\<open>buf[i]\<close> and \<^verbatim>\<open>buf[len - 1 - i]\<close>\<close>

function swap_loop :: "nat \<Rightarrow> 'x list \<Rightarrow> 'x list" where
  "swap_loop i buf =
     (if 2 * i + 1 < length buf
      then swap_loop (Suc i) (buf[i := buf ! (length buf - 1 - i), length buf - 1 - i := buf ! i])
      else buf)"
  by pat_completeness auto
termination by (relation "measure (\<lambda>(i, buf). length buf - i)") auto

declare swap_loop.simps [simp del]

definition printint :: "u64 \<Rightarrow> u64 \<Rightarrow> int \<Rightarrow> char \<Rightarrow> string option" where
  "printint n base width padc =
     (if base < 2 then None
      else let buf = (if n = 0 then ''0'' else swap_loop 0 (digit_loop base n))
           in if length buf > 31 then None
              else Some (replicate (nat (width - int (length buf))) padc @ buf))"

function prec_loop :: "u64 \<Rightarrow> u64 \<Rightarrow> int" where
  "prec_loop base n = (if n = 0 \<or> base < 2 then 0 else prec_loop base (n div base) + 1)"
  by pat_completeness auto
termination
proof (relation "measure (\<lambda>(base, n). unat n)", simp, clarsimp)
  fix base n :: u64 assume "n \<noteq> 0" "\<not> base < 2"
  then have "2 \<le> unat base" "0 < unat n" by (simp_all add: word_less_nat_alt unat_gt_0 not_less word_le_nat_alt)
  then show "unat (n div base) < unat n" by (simp add: unat_div div_less_dividend)
qed

declare prec_loop.simps [simp del]

text \<open>The negation of the least 64-bit number overflows.\<close>

definition get_precision :: "u64 \<Rightarrow> u64 \<Rightarrow> bool \<Rightarrow> int option" where
  "get_precision n base sign =
     (if sign \<and> sint n = - (2 ^ 63) then None
      else let n = (if sign \<and> sint n < 0 then - n else n) in Some (if n = 0 then 1 else prec_loop base n))"

section \<open>Doubles\<close>

text \<open>A finite double: its sign, and the integers \<open>m\<close> and \<open>e\<close> of its absolute value \<open>m * 2 ^ e\<close>.\<close>

type_synonym dbl = "bool \<times> nat \<times> int"

definition dbl_of_bits :: "u64 \<Rightarrow> dbl option" where
  "dbl_of_bits b =
     (let f = unat (take_bit 52 b); ex = unat (take_bit 11 (drop_bit 52 b)); neg = bit b 63
      in if ex = 2047 then None
         else if ex = 0 then Some (neg, f, - 1074)
         else Some (neg, 2 ^ 52 + f, int ex - 1075))"

text \<open>The conversion to \<^verbatim>\<open>u64\<close> drops the fraction; it is undefined when what is left does not fit.\<close>

definition dbl_to_u64 :: "dbl \<Rightarrow> u64 option" where
  "dbl_to_u64 = (\<lambda>(neg, m, e).
     let n = (if 0 \<le> e then m * 2 ^ nat e else m div 2 ^ nat (- e))
     in if n < 2 ^ 64 \<and> (neg \<longrightarrow> n = 0) then Some (of_nat n) else None)"

text \<open>\<^verbatim>\<open>flt -= num\<close> where \<^verbatim>\<open>num\<close> is the integral part of \<^verbatim>\<open>flt\<close>; both the conversion and the difference are exact.\<close>

definition dbl_frac :: "dbl \<Rightarrow> dbl" where
  "dbl_frac = (\<lambda>(neg, m, e). (neg, if 0 \<le> e then 0 else m mod 2 ^ nat (- e), e))"

text \<open>Rounding of an integer to 53 significant bits, to the nearest and to the even one of two.\<close>

fun round_shift :: "nat \<Rightarrow> nat" where
  "round_shift a = (if a < 2 ^ 53 then 0 else Suc (round_shift (a div 2)))"

declare round_shift.simps [simp del]

definition round53 :: "nat \<Rightarrow> nat" where
  "round53 a =
     (let sh = round_shift a; q = a div 2 ^ sh; r = a mod 2 ^ sh
      in if 2 * r > 2 ^ sh \<or> 2 * r = 2 ^ sh \<and> odd q then (q + 1) * 2 ^ sh else q * 2 ^ sh)"

text \<open>The product with an integer.  A product below the normal range is rounded further, but is 0 as an integer either way.\<close>

definition dbl_mul :: "dbl \<Rightarrow> nat \<Rightarrow> dbl" where
  "dbl_mul = (\<lambda>(neg, m, e) c. (neg, round53 (m * c), e))"

section \<open>Formats\<close>

datatype varg = Slot u64 | StrArg string | Dbl u64

fun arg_u64 :: "varg list \<Rightarrow> (u64 \<times> varg list) option" where
  "arg_u64 (Slot w # ap) = Some (w, ap)"
| "arg_u64 ap = None"

definition arg_u32 :: "varg list \<Rightarrow> (u64 \<times> varg list) option" where
  "arg_u32 ap = map_option (\<lambda>(w, ap). (ucast (ucast w :: u32), ap)) (arg_u64 ap)"

definition arg_i32 :: "varg list \<Rightarrow> (u64 \<times> varg list) option" where
  "arg_i32 ap = map_option (\<lambda>(w, ap). (scast (ucast w :: u32), ap)) (arg_u64 ap)"

fun arg_str :: "varg list \<Rightarrow> (string \<times> varg list) option" where
  "arg_str (StrArg t # ap) = Some (t, ap)"
| "arg_str ap = None"

fun arg_dbl :: "varg list \<Rightarrow> (dbl \<times> varg list) option" where
  "arg_dbl (Dbl b # ap) = map_option (\<lambda>d. (d, ap)) (dbl_of_bits b)"
| "arg_dbl ap = None"

text \<open>\<^verbatim>\<open>while (num % 10 == 0) num /= 10;\<close> for a number that is not 0\<close>

function strip_zeros :: "u64 \<Rightarrow> u64" where
  "strip_zeros n = (if n \<noteq> 0 \<and> n mod 10 = 0 then strip_zeros (n div 10) else n)"
  by pat_completeness auto
termination
proof (relation "measure unat", simp, clarsimp)
  fix n :: u64 assume "n \<noteq> 0"
  then have "0 < unat n" by (simp add: unat_gt_0)
  then show "unat (n div 10) < unat n" by (simp add: unat_div div_less_dividend)
qed

declare strip_zeros.simps [simp del]

definition fmt_d :: "bool \<Rightarrow> char \<Rightarrow> varg list \<Rightarrow> (string \<times> varg list) option" where
  "fmt_d long padc ap = do {
     (sgn_num, ap) \<leftarrow> (if long then arg_u64 ap else arg_i32 ap);
     width \<leftarrow> get_precision sgn_num 10 True;
     if sint sgn_num < 0
     then do { t \<leftarrow> printint (- sgn_num) 10 (width - 1) padc; Some (CHR ''-'' # t, ap) }
     else do { t \<leftarrow> printint sgn_num 10 width padc; Some (t, ap) }
   }"

definition fmt_ux :: "u64 \<Rightarrow> bool \<Rightarrow> char \<Rightarrow> varg list \<Rightarrow> (string \<times> varg list) option" where
  "fmt_ux base long padc ap = do {
     (num, ap) \<leftarrow> (if long then arg_u64 ap else arg_u32 ap);
     width \<leftarrow> get_precision num base False;
     t \<leftarrow> printint num base width padc;
     Some (t, ap)
   }"

definition fmt_e :: "varg list \<Rightarrow> (string \<times> varg list) option" where
  "fmt_e ap = do {
     (w, ap) \<leftarrow> arg_i32 ap;
     let num = - w;
     let num = (if num \<le> 0 \<or> num \<ge> of_int EMAX then 0 else num);
     Some (error_msg ! unat num, ap)
   }"

text \<open>The width is set by the integral part; the second test for -1 never holds.\<close>

definition fmt_f :: "char \<Rightarrow> varg list \<Rightarrow> (string \<times> varg list) option" where
  "fmt_f padc ap = do {
     (flt, ap) \<leftarrow> arg_dbl ap;
     num \<leftarrow> dbl_to_u64 flt;
     width \<leftarrow> get_precision num 10 False;
     t \<leftarrow> printint num 10 width padc;
     let flt = dbl_frac flt;
     num \<leftarrow> dbl_to_u64 (dbl_mul flt 1000000);
     if num = 0 then Some (t, ap)
     else do {
       let num = strip_zeros num;
       t' \<leftarrow> printint num 10 width padc;
       Some (t @ CHR ''.'' # t', ap)
     }
   }"

text \<open>The switch at \<^verbatim>\<open>movein\<close>, on the rest of the format after the percent sign.\<close>

fun fmt_conv :: "bool \<Rightarrow> char \<Rightarrow> string \<Rightarrow> varg list \<Rightarrow> (string \<times> string \<times> varg list) option" where
  "fmt_conv long padc [] ap = None"
| "fmt_conv long padc (c # fmt) ap =
     (if c = CHR ''0'' then fmt_conv long (CHR ''0'') fmt ap
      else if c = CHR ''l'' then fmt_conv True padc fmt ap
      else do {
        (t, ap) \<leftarrow>
          (if c = CHR ''c'' then map_option (\<lambda>(w, ap). ([char_of (unat w)], ap)) (arg_u32 ap)
           else if c = CHR ''d'' then fmt_d long padc ap
           else if c = CHR ''u'' then fmt_ux 10 long padc ap
           else if c = CHR ''x'' then fmt_ux 16 long padc ap
           else if c = CHR ''p'' then map_option (\<lambda>(t, ap). (''0x'' @ t, ap)) (fmt_ux 16 True padc ap)
           else if c = CHR ''s'' then arg_str ap
           else if c = CHR ''%'' then Some (''%'', ap)
           else if c = CHR ''e'' then fmt_e ap
           else if c = CHR ''f'' then fmt_f padc ap
           else Some ([CHR ''%'', c], ap));
        Some (t, fmt, ap)
      })"

lemma fmt_conv_length: "fmt_conv long padc fmt ap = Some (t, fmt', ap') \<Longrightarrow> length fmt' < length fmt"
  by (induction long padc fmt ap rule: fmt_conv.induct)
    (auto simp: bind_eq_Some_conv split: if_splits)

function vprintfmt :: "string \<Rightarrow> varg list \<Rightarrow> string option" where
  "vprintfmt fmt ap =
     (case fmt of
        [] \<Rightarrow> Some []
      | c # rest \<Rightarrow>
          if c = CHR ''%''
          then (case fmt_conv False (CHR '' '') rest ap of
                  None \<Rightarrow> None
                | Some (t, rest', ap') \<Rightarrow> map_option (\<lambda>r. t @ r) (vprintfmt rest' ap'))
          else map_option (\<lambda>r. c # r) (vprintfmt rest ap))"
  by pat_completeness auto
termination
  by (relation "measure (\<lambda>(fmt, ap). length fmt)") (auto dest: fmt_conv_length)

declare vprintfmt.simps [simp del]

section \<open>Buffered output of user programs\<close>

text \<open>
  \<^verbatim>\<open>putch\<close> of \<^verbatim>\<open>lib/printf.c\<close>: the state is the buffered text; the second component is what was passed to
  \<^verbatim>\<open>sys_write\<close>.  After storing a character the code stores a NUL behind it, in \<^verbatim>\<open>buf[len]\<close>.
\<close>

definition putch :: "char \<Rightarrow> string \<times> string list \<Rightarrow> (string \<times> string list) option" where
  "putch c = (\<lambda>(buf, out).
     let (buf, out) = (if length buf = 4096 then ([], out @ [buf]) else (buf, out));
         buf = buf @ [c]
     in if length buf < 4096 then Some (buf, out) else None)"

fun putchs :: "string \<Rightarrow> string \<times> string list \<Rightarrow> (string \<times> string list) option" where
  "putchs [] st = Some st"
| "putchs (c # cs) st = do { st \<leftarrow> putch c st; putchs cs st }"

definition printf :: "string \<Rightarrow> varg list \<Rightarrow> string list option" where
  "printf fmt ap = do {
     t \<leftarrow> vprintfmt fmt ap;
     (buf, out) \<leftarrow> putchs t ([], []);
     Some (if length buf > 0 then out @ [buf] else out)
   }"

section \<open>The in-place reversal\<close>

definition half_rev :: "nat \<Rightarrow> 'x list \<Rightarrow> 'x list \<Rightarrow> bool" where
  "half_rev i buf xs \<longleftrightarrow> length buf = length xs \<and>
     (\<forall>k < length xs. buf ! k = (if k < i \<or> length xs - i \<le> k then xs ! (length xs - 1 - k) else xs ! k))"

lemma swap_loop_half: "half_rev i buf xs \<Longrightarrow> swap_loop i buf = rev xs"
proof (induction i buf rule: swap_loop.induct)
  case (1 i buf)
  let ?n = "length xs"
  have len: "length buf = ?n" and nth: "\<And>k. k < ?n \<Longrightarrow>
      buf ! k = (if k < i \<or> ?n - i \<le> k then xs ! (?n - 1 - k) else xs ! k)"
    using 1(2) by (auto simp: half_rev_def)
  show ?case
  proof (cases "2 * i + 1 < ?n")
    case True
    let ?b = "buf[i := buf ! (?n - 1 - i), ?n - 1 - i := buf ! i]"
    have "buf ! (?n - 1 - i) = xs ! (?n - 1 - i)" "buf ! i = xs ! i" using nth[of "?n - 1 - i"] nth[of i] True by auto
    then have "?b ! k = (if k < Suc i \<or> ?n - Suc i \<le> k then xs ! (?n - 1 - k) else xs ! k)" if "k < ?n" for k
      using nth[OF that] that True len by (cases "k = i"; cases "k = ?n - 1 - i") (auto simp: nth_list_update)
    then have "half_rev (Suc i) ?b xs" using len by (simp add: half_rev_def)
    then show ?thesis using 1(1) True len by (simp add: swap_loop.simps[of i buf])
  next
    case False
    have "buf ! k = rev xs ! k" if "k < ?n" for k
    proof (cases "k < i \<or> ?n - i \<le> k")
      case True
      then show ?thesis using nth[OF that] that by (simp add: rev_nth)
    next
      case mid: False
      then have "k = ?n - 1 - k" using False that by linarith
      then show ?thesis using nth[OF that] that mid by (simp add: rev_nth)
    qed
    then have "buf = rev xs" using len by (intro nth_equalityI) auto
    then show ?thesis using False len by (simp add: swap_loop.simps[of i "rev xs"])
  qed
qed

lemma swap_loop_eq: "swap_loop 0 xs = rev xs"
  by (rule swap_loop_half) (simp add: half_rev_def)

section \<open>Digits\<close>

definition digit_val :: "char \<Rightarrow> nat" where
  "digit_val c = (if of_char c \<ge> (97 :: nat) then of_char c - 87 else of_char c - 48)"

definition from_digits :: "nat \<Rightarrow> string \<Rightarrow> nat" where
  "from_digits b = foldl (\<lambda>a c. a * b + digit_val c) 0"

lemma from_digits_snoc: "from_digits b (xs @ [c]) = from_digits b xs * b + digit_val c"
  by (simp add: from_digits_def)

lemma from_digits_single: "from_digits b [c] = digit_val c"
  by (simp add: from_digits_def)

definition digit_char :: "nat \<Rightarrow> char" where
  "digit_char d = (if d > 9 then char_of (d + 87) else char_of (d + 48))"

lemma digit_val_char: "d < 36 \<Longrightarrow> digit_val (digit_char d) = d"
  by (auto simp: digit_val_def digit_char_def of_char_of)

lemma digit_loop_eq:
  assumes "2 \<le> base" and "base \<le> 36"
  shows "digit_loop base n = (if n = 0 then [] else digit_char (unat n mod unat base) # digit_loop base (n div base))"
proof -
  let ?d = "n mod base"
  have b: "unat base \<le> 36" "0 < unat base" using assms by (auto simp: word_le_nat_alt unat_gt_0)
  then have d: "unat ?d < 36" by (metis unat_mod mod_less_divisor less_le_trans)
  have "unat (?d - 10 + 97) = unat ?d + 87" if "?d > 9"
  proof -
    have "?d - 10 + 97 = ?d + 87" by simp
    then show ?thesis using d by (simp add: unat_word_ariths)
  qed
  moreover have "unat (?d + 48) = unat ?d + 48" using d by (simp add: unat_word_ariths)
  moreover have "?d > 9 \<longleftrightarrow> unat ?d > 9" by (simp add: word_less_nat_alt)
  ultimately show ?thesis
    using assms by (subst digit_loop.simps) (auto simp: digit_char_def unat_mod not_less[symmetric])
qed

lemma digit_loop_spec:
  assumes "2 \<le> base" and "base \<le> 36"
  shows "from_digits (unat base) (rev (digit_loop base n)) = unat n \<and>
    (n \<noteq> 0 \<longrightarrow> digit_loop base n \<noteq> [] \<and> digit_val (last (digit_loop base n)) \<noteq> 0) \<and>
    int (length (digit_loop base n)) = prec_loop base n"
  using assms
proof (induction base n rule: digit_loop.induct)
  case (1 base n)
  show ?case
  proof (cases "n = 0")
    case True
    then show ?thesis by (simp add: digit_loop_eq[OF 1(2,3)] from_digits_def prec_loop.simps)
  next
    case False
    have nb: "\<not> base < 2" using 1(2) by (simp add: not_less)
    have b: "unat base \<le> 36" "0 < unat base" using 1(2,3) by (auto simp: word_le_nat_alt unat_gt_0)
    then have d: "unat n mod unat base < 36" by (meson mod_less_divisor less_le_trans)
    note IH = 1(1)[OF _ 1(2,3)]
    have q: "n div base = 0 \<Longrightarrow> unat n mod unat base = unat n"
      using b by (metis unat_div unat_0 div_eq_0_iff mod_less less_irrefl)
    have un: "unat n \<noteq> 0" using False by (simp add: unat_eq_zero)
    show ?thesis
      using IH False nb digit_val_char[OF d] q un
      by (cases "n div base = 0")
        (simp_all add: digit_loop_eq[OF 1(2,3), of n] digit_loop_eq[OF 1(2,3), of 0] from_digits_snoc from_digits_single unat_div prec_loop.simps[of base n] prec_loop.simps[of base 0])
  qed
qed

lemma digit_loop_length:
  assumes "2 \<le> base" and "base \<le> 36"
  shows "unat n < unat base ^ k \<Longrightarrow> length (digit_loop base n) \<le> k"
proof (induction k arbitrary: n)
  case 0
  then have "n = 0" by (simp add: unat_eq_zero)
  then show ?case by (simp add: digit_loop_eq[OF assms])
next
  case (Suc k)
  have "0 < unat base" using assms(1) by (auto simp: word_le_nat_alt unat_gt_0)
  then have "unat (n div base) < unat base ^ k"
    using Suc.prems by (simp add: unat_div less_mult_imp_div_less mult.commute)
  then show ?case using Suc.IH by (simp add: digit_loop_eq[OF assms, of n])
qed

lemma printint_digits:
  assumes "10 \<le> base" and "base \<le> 36"
  obtains ds where "\<And>width padc. printint n base width padc = Some (replicate (nat (width - int (length ds))) padc @ ds)"
    "from_digits (unat base) ds = unat n" "ds \<noteq> []" "digit_val (hd ds) = 0 \<longrightarrow> n = 0"
    "get_precision n base False = Some (int (length ds))"
proof -
  have b: "2 \<le> base" using assms(1) by (rule order_trans[rotated]) simp
  have u: "10 \<le> unat base" using assms(1) by (simp add: word_le_nat_alt)
  define ds where "ds = (if n = 0 then ''0'' else rev (digit_loop base n))"
  note sp = digit_loop_spec[OF b assms(2), of n]
  have "unat n < 2 ^ 64" using unsigned_less[of n, where ?'a = nat] by simp
  also have "(2 :: nat) ^ 64 \<le> 10 ^ 20" by simp
  also have "(10 :: nat) ^ 20 \<le> unat base ^ 20" using u by (rule power_mono) simp
  finally have "length (digit_loop base n) \<le> 20" by (rule digit_loop_length[OF b assms(2)])
  then have l: "length ds \<le> 31" by (simp add: ds_def)
  have p: "printint n base width padc = Some (replicate (nat (width - int (length ds))) padc @ ds)" for width padc
    using b l by (cases "n = 0") (simp_all add: printint_def swap_loop_eq ds_def Let_def not_less[symmetric])
  have z: "digit_val (CHR ''0'') = 0" by (simp add: digit_val_def)
  show thesis
    by (rule that[of ds])
      (use p sp z in \<open>auto simp: ds_def from_digits_single get_precision_def hd_rev\<close>)
qed

lemma unat_abs_sint: "int (unat (if sint w < 0 then - w else w)) = \<bar>sint (w :: u64)\<bar>"
proof -
  have u: "0 \<le> uint w" "uint w < 2 ^ 64" using unsigned_less[of w, where ?'a = int] by simp_all
  have s: "sint w = (if bit w 63 then uint w - 2 ^ 64 else uint w)"
    using u unfolding sint_uint signed_take_bit_eq_take_bit_minus
    by (simp add: take_bit_int_eq_self bit_uint_iff)
  show ?thesis
  proof (cases "bit w 63")
    case True
    then have "w \<noteq> 0" by auto
    then have "uint (- w) = 2 ^ 64 - uint w"
      using u by (simp add: uint_word_ariths zmod_zminus1_eq_if unsigned_eq_0_iff)
    then show ?thesis using s u True by simp
  next
    case False
    then show ?thesis using s u by simp
  qed
qed

section \<open>Properties\<close>

text \<open>
  C20: \<^verbatim>\<open>printint\<close> in a base from 10 to 36 stays inside its buffer and prints padding followed by the
  positional representation of the number without leading zeros: reading the digits back gives the
  number, and the padding fills up to the width.
\<close>
theorem printint_roundtrip:
  assumes "10 \<le> base" and "base \<le> 36"
  shows "\<exists>ds. printint n base width padc = Some (replicate (nat (width - int (length ds))) padc @ ds) \<and>
    from_digits (unat base) ds = unat n \<and> ds \<noteq> [] \<and> (digit_val (hd ds) = 0 \<longrightarrow> n = 0)"
  using printint_digits[OF assms, of n] by metis

theorem printint_roundtrip_witness:
  "\<exists>ds. printint 0xBEEF 16 6 (CHR '' '') = Some (replicate (nat (6 - int (length ds))) (CHR '' '') @ ds) \<and>
    from_digits 16 ds = 48879"
  using printint_roundtrip[of 16 "0xBEEF" 6 "CHR '' ''"] by auto

text \<open>
  C21: \<^verbatim>\<open>%ld\<close> prints a signed 64-bit number in decimal: a minus sign exactly for the negative ones,
  then the digits of the absolute value, and nothing else.  Only for the least number, which cannot
  be negated, is the behaviour undefined.
\<close>
theorem fmt_ld_decimal:
  "\<exists>ds. vprintfmt ''%ld'' [Slot w] = (if sint w = - (2 ^ 63) then None else Some (if sint w < 0 then CHR ''-'' # ds else ds)) \<and>
    int (from_digits 10 ds) = \<bar>sint w\<bar> \<and> (digit_val (hd ds) = 0 \<longrightarrow> w = 0)"
proof -
  let ?n = "if sint w < 0 then - w else w"
  obtain ds where ds: "\<And>width padc. printint ?n 10 width padc = Some (replicate (nat (width - int (length ds))) padc @ ds)"
    "from_digits 10 ds = unat ?n" "ds \<noteq> []" "digit_val (hd ds) = 0 \<longrightarrow> ?n = 0" "get_precision ?n 10 False = Some (int (length ds))"
    by (rule printint_digits[of 10 ?n]) auto
  have pr: "get_precision w 10 True = (if sint w = - (2 ^ 63) then None else Some (int (length ds)))"
    using ds(5) by (simp add: get_precision_def)
  have f: "fmt_d True (CHR '' '') [Slot w] = (if sint w = - (2 ^ 63) then None else Some (if sint w < 0 then CHR ''-'' # ds else ds, []))"
    using ds(1)[of "int (length ds) - 1" "CHR '' ''"] ds(1)[of "int (length ds)" "CHR '' ''"]
    by (cases "sint w < 0") (simp_all add: fmt_d_def pr)
  have "vprintfmt ''%ld'' [Slot w] = (if sint w = - (2 ^ 63) then None else Some (if sint w < 0 then CHR ''-'' # ds else ds))"
    using f by (subst vprintfmt.simps) (simp add: vprintfmt.simps[of "[]"])
  moreover have "int (unat ?n) = \<bar>sint w\<bar>" by (rule unat_abs_sint)
  ultimately show ?thesis using ds by (intro exI[of _ ds]) (auto split: if_splits)
qed

theorem fmt_ld_decimal_witness:
  "\<exists>ds. vprintfmt ''%ld'' [Slot (- 42)] = Some (CHR ''-'' # ds) \<and> from_digits 10 ds = 42"
  using fmt_ld_decimal[of "- 42"] by auto

lemma putchs_short:
  "length buf + length t < 4096 \<Longrightarrow> putchs t (buf, out) = Some (buf @ t, out)"
  by (induction t arbitrary: buf) (simp_all add: putch_def)

lemma putchs_long:
  "length buf < 4096 \<Longrightarrow> 4096 \<le> length buf + length t \<Longrightarrow> putchs t (buf, out) = None"
proof (induction t arbitrary: buf)
  case (Cons c t)
  then show ?case by (cases "length buf + 1 < 4096") (simp_all add: putch_def)
qed simp

text \<open>
  C23: A call of \<^verbatim>\<open>printf\<close> that prints fewer than 4096 characters passes exactly its output to
  \<^verbatim>\<open>sys_write\<close>; one that prints 4096 or more stores a NUL behind the end of its buffer, because
  \<^verbatim>\<open>putch\<close> flushes only when the next character comes.
\<close>
theorem printf_bounds:
  assumes "vprintfmt fmt ap = Some t"
  shows "printf fmt ap = (if length t < 4096 then Some (if t = [] then [] else [t]) else None)"
  using assms putchs_short[of "[]" t "[]"] putchs_long[of "[]" t "[]"]
  by (simp add: printf_def)

theorem printf_bounds_witness:
  "printf ''%s'' [StrArg ''hello''] = Some [''hello''] \<and> printf ''%s'' [StrArg (replicate 4096 CHR ''x'')] = None"
proof -
  have "vprintfmt ''%s'' [StrArg t] = Some t" for t by (simp add: vprintfmt.simps)
  from printf_bounds[OF this] show ?thesis by simp
qed

end
