(* ===== verification/FmtDbl.thy ===== *)
theory FmtDbl
  imports Fmt Complex_Main
begin

text \<open>
  What \<^verbatim>\<open>%f\<close> prints of a double, against the real number the double stands for.
\<close>

section \<open>Doubles as real numbers\<close>

definition dbl_val :: "dbl \<Rightarrow> real" where
  "dbl_val = (\<lambda>(neg, m, e). (if neg then - 1 else 1) * (if 0 \<le> e then real m * 2 ^ nat e else real m / 2 ^ nat (- e)))"

lemma round_shift_bound: "round_shift a = 0 \<or> 2 ^ (52 + round_shift a) \<le> a"
proof (induction a rule: round_shift.induct)
  case (1 a)
  show ?case
  proof (cases "a < 2 ^ 53")
    case True
    then show ?thesis by (simp add: round_shift.simps[of a])
  next
    case False
    then have sh: "round_shift a = Suc (round_shift (a div 2))" by (simp add: round_shift.simps[of a])
    show ?thesis
    proof (cases "round_shift (a div 2) = 0")
      case True
      then show ?thesis using sh False by simp
    next
      case nz: False
      then have "2 ^ (52 + round_shift (a div 2)) \<le> a div 2" using 1[OF False] nz by blast
      then have "2 * 2 ^ (52 + round_shift (a div 2)) \<le> a" by linarith
      then show ?thesis by (simp add: sh power_add)
    qed
  qed
qed

text \<open>Rounding to 53 bits changes a number by at most a part in \<open>2 ^ 53\<close>.\<close>

lemma round53_error: "\<bar>real (round53 a) - real a\<bar> \<le> real a / 2 ^ 53"
proof -
  define sh q r where "sh = round_shift a" and "q = a div 2 ^ sh" and "r = a mod 2 ^ sh"
  have a: "a = q * 2 ^ sh + r" unfolding q_def r_def by (simp only: div_mult_mod_eq)
  have r: "r < 2 ^ sh" by (simp add: r_def)
  have rd: "round53 a = (if 2 * r > 2 ^ sh \<or> 2 * r = 2 ^ sh \<and> odd q then (q + 1) * 2 ^ sh else q * 2 ^ sh)"
    by (simp add: round53_def Let_def sh_def q_def r_def)
  show ?thesis
  proof (cases "sh = 0")
    case True
    then have "round53 a = a" using rd a r by simp
    then show ?thesis by simp
  next
    case False
    then have "2 ^ (52 + sh) \<le> a" using round_shift_bound[of a] by (simp add: sh_def)
    then have "real (2 ^ (52 + sh)) \<le> real a" by (rule of_nat_mono)
    then have big: "2 ^ sh / 2 \<le> real a / 2 ^ 53" by (simp add: power_add field_simps)
    have re: "real a = real q * 2 ^ sh + real r" using arg_cong[OF a, of real] by simp
    have "\<bar>real (round53 a) - real a\<bar> \<le> 2 ^ sh / 2"
    proof (cases "2 * r > 2 ^ sh \<or> 2 * r = 2 ^ sh \<and> odd q")
      case True
      then have "real (2 ^ sh) \<le> real (2 * r)" by (intro of_nat_mono) auto
      moreover have "real r < real (2 ^ sh)" using r by (rule of_nat_less_iff[THEN iffD2])
      ultimately show ?thesis using True by (simp add: rd re algebra_simps)
    next
      case False
      then have "real (2 * r) \<le> real (2 ^ sh)" by (intro of_nat_mono) auto
      then show ?thesis unfolding rd if_not_P[OF False] re by simp
    qed
    then show ?thesis using big by linarith
  qed
qed

lemma floor_frac_div:
  fixes m k :: nat
  shows "\<lfloor>real m / 2 ^ k\<rfloor> = int (m div 2 ^ k)" "frac (real m / 2 ^ k) = real (m mod 2 ^ k) / 2 ^ k"
proof -
  show f: "\<lfloor>real m / 2 ^ k\<rfloor> = int (m div 2 ^ k)"
    using floor_divide_of_nat_eq[of m "2 ^ k", where ?'a = real] by simp
  have "real m = real (m div 2 ^ k * 2 ^ k + m mod 2 ^ k)" by (simp only: div_mult_mod_eq)
  then have "real m = real (m div 2 ^ k) * 2 ^ k + real (m mod 2 ^ k)" by (simp only: of_nat_add of_nat_mult of_nat_power of_nat_numeral)
  then show "frac (real m / 2 ^ k) = real (m mod 2 ^ k) / 2 ^ k" unfolding frac_def f by (simp add: field_simps)
qed

text \<open>The two conversions of \<^verbatim>\<open>%f\<close>: the integral part, and the first six decimals up to the rounding of the product.\<close>

lemma dbl_parts:
  assumes "v = dbl_val (False, m, e)" and "v < 2 ^ 64"
  obtains num fr where "dbl_to_u64 (False, m, e) = Some num" "int (unat num) = \<lfloor>v\<rfloor>"
    "dbl_to_u64 (dbl_mul (dbl_frac (False, m, e)) 1000000) = Some fr"
    "real (unat fr) \<le> 10 ^ 6 * frac v + 1 / 10 ^ 9" "10 ^ 6 * frac v - 1 / 10 ^ 9 < real (unat fr) + 1"
proof (cases "0 \<le> e")
  case True
  then have v: "v = real (m * 2 ^ nat e)" using assms(1) by (simp add: dbl_val_def)
  then have "real (m * 2 ^ nat e) < real (2 ^ 64)" using assms(2) by simp
  then have lt: "m * 2 ^ nat e < 2 ^ 64" by (simp only: of_nat_less_iff)
  have z: "round53 0 = 0" by (simp add: round53_def round_shift.simps)
  have fr: "frac v = 0" "\<lfloor>v\<rfloor> = int (m * 2 ^ nat e)" unfolding v frac_def by (simp_all only: floor_of_nat of_int_of_nat_eq diff_self)
  show thesis
  proof (rule that)
    show "dbl_to_u64 (False, m, e) = Some (of_nat (m * 2 ^ nat e))" using True lt by (simp add: dbl_to_u64_def)
    show "int (unat (of_nat (m * 2 ^ nat e) :: u64)) = \<lfloor>v\<rfloor>"
      unfolding fr(2) unat_of_nat using lt by (subst mod_less) simp_all
    show "dbl_to_u64 (dbl_mul (dbl_frac (False, m, e)) 1000000) = Some 0" using True z by (simp add: dbl_to_u64_def dbl_frac_def dbl_mul_def)
  qed (simp_all add: fr)
next
  case False
  define k where "k = nat (- e)"
  define r where "r = round53 (m mod 2 ^ k * 1000000)"
  have v: "v = real m / 2 ^ k" using assms(1) False by (simp add: dbl_val_def k_def)
  note ff = floor_frac_div[of m k, folded v]
  have "real_of_int \<lfloor>v\<rfloor> < 2 ^ 64" using assms(2) of_int_floor_le[of v] by linarith
  then have "real (m div 2 ^ k) < real (2 ^ 64)" unfolding ff(1) by simp
  then have lt: "m div 2 ^ k < 2 ^ 64" by (simp only: of_nat_less_iff)
  have fr1: "frac v < 1" "0 \<le> frac v" by (simp_all add: frac_lt_1)
  have p: "real (m mod 2 ^ k * 1000000) / 2 ^ k = 10 ^ 6 * frac v" by (simp add: ff(2))
  have "\<bar>real r - real (m mod 2 ^ k * 1000000)\<bar> / 2 ^ k \<le> real (m mod 2 ^ k * 1000000) / 2 ^ 53 / 2 ^ k"
    unfolding r_def by (intro divide_right_mono round53_error) simp
  also have "\<dots> = (10 ^ 6 * frac v) / 2 ^ 53" unfolding p[symmetric] by simp
  also have "\<dots> \<le> 1 / 10 ^ 9" using fr1 by simp
  finally have "\<bar>real r / 2 ^ k - 10 ^ 6 * frac v\<bar> \<le> 1 / 10 ^ 9" unfolding p[symmetric] by (simp add: diff_divide_distrib[symmetric])
  then have err: "real r / 2 ^ k \<le> 10 ^ 6 * frac v + 1 / 10 ^ 9" "10 ^ 6 * frac v - 1 / 10 ^ 9 \<le> real r / 2 ^ k" by linarith+
  have fl: "real (r div 2 ^ k) \<le> real r / 2 ^ k" "real r / 2 ^ k < real (r div 2 ^ k) + 1"
    using floor_frac_div(1)[of r k] of_int_floor_le[of "real r / 2 ^ k"] floor_correct[of "real r / 2 ^ k"] by simp_all
  have "real (r div 2 ^ k) < real (2 ^ 64)" using fl(1) err(1) fr1 by simp
  then have lt2: "r div 2 ^ k < 2 ^ 64" by (simp only: of_nat_less_iff)
  show thesis
  proof (rule that)
    show "dbl_to_u64 (False, m, e) = Some (of_nat (m div 2 ^ k))" using False lt by (simp add: dbl_to_u64_def k_def)
    show "dbl_to_u64 (dbl_mul (dbl_frac (False, m, e)) 1000000) = Some (of_nat (r div 2 ^ k))"
      using False lt2 by (simp add: dbl_to_u64_def dbl_frac_def dbl_mul_def r_def k_def)
    show "int (unat (of_nat (m div 2 ^ k) :: u64)) = \<lfloor>v\<rfloor>" using lt by (simp add: ff(1) unat_of_nat take_bit_nat_eq_self)
    have u: "unat (of_nat (r div 2 ^ k) :: u64) = r div 2 ^ k" using lt2 by (simp add: unat_of_nat take_bit_nat_eq_self)
    show "real (unat (of_nat (r div 2 ^ k) :: u64)) \<le> 10 ^ 6 * frac v + 1 / 10 ^ 9" unfolding u using fl(1) err(1) by linarith
    show "10 ^ 6 * frac v - 1 / 10 ^ 9 < real (unat (of_nat (r div 2 ^ k) :: u64)) + 1" unfolding u using fl(2) err(2) by linarith
  qed
qed

lemma strip_zeros_spec:
  "n \<noteq> 0 \<Longrightarrow> strip_zeros n \<noteq> 0 \<and> unat (strip_zeros n) mod 10 \<noteq> 0 \<and> (\<exists>j. unat n = unat (strip_zeros n) * 10 ^ j)"
proof (induction n rule: strip_zeros.induct)
  case (1 n)
  show ?case
  proof (cases "n mod 10 = 0")
    case True
    then have m: "unat n mod 10 = 0" by (simp add: word_unat_eq_iff unat_mod)
    then have q: "unat n = unat (n div 10) * 10" using div_mult_mod_eq[of "unat n" 10] by (simp add: unat_div)
    then have nz: "n div 10 \<noteq> 0" using 1(2) by (auto simp: unat_eq_zero)
    have eq: "strip_zeros n = strip_zeros (n div 10)" using True 1(2) by (simp add: strip_zeros.simps[of n])
    from 1(1) nz True 1(2) obtain j where j: "strip_zeros (n div 10) \<noteq> 0" "unat (strip_zeros (n div 10)) mod 10 \<noteq> 0"
      "unat (n div 10) = unat (strip_zeros (n div 10)) * 10 ^ j" by blast
    have "unat n = unat (strip_zeros (n div 10)) * 10 ^ Suc j" using q j(3) by simp
    then show ?thesis unfolding eq using j(1,2) by blast
  next
    case False
    then have "strip_zeros n = n" by (subst strip_zeros.simps) simp
    moreover have "unat n mod 10 \<noteq> 0" using False by (simp add: word_unat_eq_iff unat_mod)
    ultimately show ?thesis using 1(2) by (auto intro: exI[of _ 0])
  qed
qed

lemma from_digits_last: "ds \<noteq> [] \<Longrightarrow> from_digits b ds mod b \<noteq> 0 \<Longrightarrow> digit_val (last ds) \<noteq> 0"
  by (cases ds rule: rev_cases) (auto simp: from_digits_snoc intro!: gr0I)

section \<open>Properties\<close>

text \<open>
  C22: \<^verbatim>\<open>%f\<close> on a double \<open>v\<close> that is not negative and fits in 64 bits.  It prints the digits of the integral part.
  Let \<open>fr\<close> be the first six decimals of \<open>v\<close> as a number, up to an error of less than \<open>10 ^ -9\<close> of the product before it is cut off.
  If \<open>fr\<close> is 0 nothing follows; otherwise a point, blanks up to the width of the integral part, and \<open>fr\<close> without the zeros at its end
  \<^emph>\<open>and without those in front\<close>: the first digit behind the point is never 0, so that 1.05 is printed as 1.5 is.
\<close>
theorem fmt_f_decimals:
  assumes "dbl_of_bits b = Some (False, m, e)" and "v = dbl_val (False, m, e)" and "v < 2 ^ 64"
  shows "\<exists>ds fr es. vprintfmt ''%f'' [Dbl b] =
      Some (if fr = 0 then ds else ds @ ''.'' @ replicate (length ds - length es) (CHR '' '') @ es) \<and>
    int (from_digits 10 ds) = \<lfloor>v\<rfloor> \<and> (digit_val (hd ds) = 0 \<longrightarrow> \<lfloor>v\<rfloor> = 0) \<and>
    real fr \<le> 10 ^ 6 * frac v + 1 / 10 ^ 9 \<and> 10 ^ 6 * frac v - 1 / 10 ^ 9 < real fr + 1 \<and>
    (fr \<noteq> 0 \<longrightarrow> es \<noteq> [] \<and> digit_val (hd es) \<noteq> 0 \<and> digit_val (last es) \<noteq> 0 \<and> (\<exists>j. fr = from_digits 10 es * 10 ^ j))"
proof -
  from dbl_parts[OF assms(2,3)] obtain num fr where nf: "dbl_to_u64 (False, m, e) = Some num" "int (unat num) = \<lfloor>v\<rfloor>"
    "dbl_to_u64 (dbl_mul (dbl_frac (False, m, e)) 1000000) = Some fr"
    "real (unat fr) \<le> 10 ^ 6 * frac v + 1 / 10 ^ 9" "10 ^ 6 * frac v - 1 / 10 ^ 9 < real (unat fr) + 1" .
  obtain ds where ds: "\<And>width padc. printint num 10 width padc = Some (replicate (nat (width - int (length ds))) padc @ ds)"
    "from_digits 10 ds = unat num" "ds \<noteq> []" "digit_val (hd ds) = 0 \<longrightarrow> num = 0" "get_precision num 10 False = Some (int (length ds))"
    by (rule printint_digits[of 10 num]) auto
  obtain es where es: "\<And>width padc. printint (strip_zeros fr) 10 width padc = Some (replicate (nat (width - int (length es))) padc @ es)"
    "from_digits 10 es = unat (strip_zeros fr)" "es \<noteq> []" "digit_val (hd es) = 0 \<longrightarrow> strip_zeros fr = 0"
    by (rule printint_digits[of 10 "strip_zeros fr"]) auto
  have "nat (int (length ds) - int (length es)) = length ds - length es" by simp
  then have "fmt_f (CHR '' '') [Dbl b] =
      Some (if fr = 0 then ds else ds @ ''.'' @ replicate (length ds - length es) (CHR '' '') @ es, [])"
    using ds(1)[of "int (length ds)" "CHR '' ''"] es(1)[of "int (length ds)" "CHR '' ''"] assms(1) nf(1,3) ds(5)
    by (simp add: fmt_f_def Let_def)
  then have "vprintfmt ''%f'' [Dbl b] =
      Some (if unat fr = 0 then ds else ds @ ''.'' @ replicate (length ds - length es) (CHR '' '') @ es)"
    by (subst vprintfmt.simps) (simp add: vprintfmt.simps[of "[]"] unat_eq_zero)
  moreover have "digit_val (hd es) \<noteq> 0 \<and> digit_val (last es) \<noteq> 0 \<and> (\<exists>j. unat fr = from_digits 10 es * 10 ^ j)" if "unat fr \<noteq> 0"
    using strip_zeros_spec[of fr] that es(2-4) from_digits_last[of es 10] by (auto simp: unat_eq_zero)
  moreover have "digit_val (hd ds) = 0 \<longrightarrow> \<lfloor>v\<rfloor> = 0" using ds(4) nf(2) by auto
  ultimately show ?thesis using ds(2) es(3) nf(2,4,5) by (intro exI[of _ ds] exI[of _ "unat fr"] exI[of _ es]) simp
qed

text \<open>1.0078125 is printed as 1.7812.\<close>

theorem fmt_f_decimals_witness:
  "\<exists>ds es. vprintfmt ''%f'' [Dbl 0x3FF0200000000000] = Some (ds @ ''.'' @ replicate (length ds - length es) (CHR '' '') @ es) \<and>
     from_digits 10 ds = 1 \<and> from_digits 10 es = 7812"
proof -
  have b: "dbl_of_bits 0x3FF0200000000000 = Some (False, 0x10200000000000, - 52)"
    by (simp add: dbl_of_bits_def take_bit_eq_mod drop_bit_eq_div bit_iff_odd Let_def)
  have v: "1 + 1 / 128 = dbl_val (False, 0x10200000000000, - 52)" by (simp add: dbl_val_def)
  have fl: "\<lfloor>1 + 1 / 128 :: real\<rfloor> = 1" by (rule floor_unique) simp_all
  then have fc: "frac (1 + 1 / 128 :: real) = 1 / 128" by (simp add: frac_def)
  have lt: "1 + 1 / 128 < (2 :: real) ^ 64" by simp
  from fmt_f_decimals[OF b v lt] obtain ds fr es where p: "vprintfmt ''%f'' [Dbl 0x3FF0200000000000] =
      Some (if fr = 0 then ds else ds @ ''.'' @ replicate (length ds - length es) (CHR '' '') @ es)"
    "int (from_digits 10 ds) = 1" "real fr \<le> 10 ^ 6 * (1 / 128) + 1 / 10 ^ 9" "10 ^ 6 * (1 / 128) - 1 / 10 ^ 9 < real fr + 1"
    "fr \<noteq> 0 \<longrightarrow> (\<exists>j. fr = from_digits 10 es * 10 ^ j)" unfolding fl fc by blast
  have "real fr < real 7813" "real 7811 < real fr" using p(3,4) by simp_all
  then have fr: "fr = 7812" by (simp only: of_nat_less_iff)
  then obtain j where j: "7812 = from_digits 10 es * 10 ^ j" using p(5) by auto
  have "j = 0"
  proof (rule ccontr)
    assume "j \<noteq> 0"
    then have "(10 :: nat) dvd 10 ^ j" by simp
    then have "(10 :: nat) dvd 7812" unfolding j by (rule dvd_mult)
    then show False by simp
  qed
  then show ?thesis using p(1,2) fr j by auto
qed

end
