(* ===== verification/Kbd.thy ===== *)
theory Kbd
  imports UMem Ring PgClear
begin

text \<open>
  The keyboard, \<^verbatim>\<open>kernel/kbd.c\<close>: the translation of scan codes and the ring buffer of typed characters
  that the interrupt handler fills and \<^verbatim>\<open>sys_read\<close> drains.  \<^verbatim>\<open>kbd_getch\<close> reads the status port and, when
  data is there, the data port; both bytes are arguments here, and the static \<^verbatim>\<open>shift\<close> is threaded.

  The lemmas show how modifier keys act and that the buffer is a first-in first-out queue.
\<close>

section \<open>Tables\<close>

definition KEY_HOME :: u8 where "KEY_HOME = 0xE0"
definition KEY_END :: u8 where "KEY_END = 0xE1"
definition KEY_UP :: u8 where "KEY_UP = 0xE2"
definition KEY_DN :: u8 where "KEY_DN = 0xE3"
definition KEY_LF :: u8 where "KEY_LF = 0xE4"
definition KEY_RT :: u8 where "KEY_RT = 0xE5"
definition KEY_PGUP :: u8 where "KEY_PGUP = 0xE6"
definition KEY_PGDN :: u8 where "KEY_PGDN = 0xE7"
definition KEY_INS :: u8 where "KEY_INS = 0xE8"
definition KEY_DEL :: u8 where "KEY_DEL = 0xE9"

definition KBS_DIB :: u8 where "KBS_DIB = 0x01"
definition KBS_TERR :: u8 where "KBS_TERR = 0x20"

definition SHIFT :: u8 where "SHIFT = 1"
definition CTL :: u8 where "CTL = 2"
definition ALT :: u8 where "ALT = 4"
definition CAPSLOCK :: u8 where "CAPSLOCK = 8"
definition NUMLOCK :: u8 where "NUMLOCK = 16"
definition SCROLLLOCK :: u8 where "SCROLLLOCK = 32"
definition E0ESC :: u8 where "E0ESC = 64"

lemmas shift_defs = SHIFT_def CTL_def ALT_def CAPSLOCK_def NUMLOCK_def SCROLLLOCK_def E0ESC_def

definition bs :: "string \<Rightarrow> u8 list" where "bs = map of_char"

text \<open>An array initialised with a list and designators for single elements, zero elsewhere.\<close>

definition table :: "u8 list \<Rightarrow> (nat \<times> u8) list \<Rightarrow> u8 \<Rightarrow> u8" where
  "table xs ds i =
     (case map_of ds (unat i) of Some v \<Rightarrow> v | None \<Rightarrow> if unat i < length xs then xs ! unat i else 0)"

definition shiftcode :: "u8 \<Rightarrow> u8" where
  "shiftcode = table [] [(0x1D, CTL), (0x2A, SHIFT), (0x36, SHIFT), (0x38, ALT), (0x9D, CTL), (0xB8, ALT)]"

definition togglecode :: "u8 \<Rightarrow> u8" where
  "togglecode = table [] [(0x3A, CAPSLOCK), (0x45, NUMLOCK), (0x46, SCROLLLOCK)]"

definition normalmap :: "u8 \<Rightarrow> u8" where
  "normalmap = table
     ([0, 0x1B] @ bs ''1234567890-='' @ [8, 9] @ bs ''qwertyuiop[]'' @ [10, 0] @ bs ''asdfghjkl;'' @ [39, 96, 0, 92] @
      bs ''zxcvbnm,./'' @ [0] @ bs ''*'' @ [0, 32] @ replicate 13 0 @ bs ''789-456+1230.'' @ replicate 4 0)
     [(0xC7, KEY_HOME), (0x9C, 10), (0xB5, 47), (0xC8, KEY_UP), (0xC9, KEY_PGUP), (0xCB, KEY_LF), (0xCD, KEY_RT),
      (0xCF, KEY_END), (0xD0, KEY_DN), (0xD1, KEY_PGDN), (0xD2, KEY_INS), (0xD3, KEY_DEL)]"

definition shiftmap :: "u8 \<Rightarrow> u8" where
  "shiftmap = table
     ([0, 0x1B] @ bs ''!@#$%^&*()_+'' @ [8, 9] @ bs ''QWERTYUIOP{}'' @ [10, 0] @ bs ''ASDFGHJKL:'' @ [34, 126, 0, 124] @
      bs ''ZXCVBNM<>?'' @ [0] @ bs ''*'' @ [0, 32] @ replicate 13 0 @ bs ''789-456+1230.'' @ replicate 4 0)
     [(0xC7, KEY_HOME), (0x9C, 10), (0xB5, 47), (0xC8, KEY_UP), (0xC9, KEY_PGUP), (0xCB, KEY_LF), (0xCD, KEY_RT),
      (0xCF, KEY_END), (0xD0, KEY_DN), (0xD1, KEY_PGDN), (0xD2, KEY_INS), (0xD3, KEY_DEL)]"

text \<open>\<^verbatim>\<open>C(x)\<close> is \<^verbatim>\<open>x - '@'\<close>, stored in a byte.\<close>

definition ctl :: "string \<Rightarrow> u8 list" where "ctl = map (\<lambda>c. of_char c - 64)"

definition ctlmap :: "u8 \<Rightarrow> u8" where
  "ctlmap = table
     (replicate 16 0 @ ctl ''QWERTYUIOP'' @ [0, 0, 13, 0] @ ctl ''ASDFGHJKL'' @ replicate 4 0 @ [92 - 64] @
      ctl ''ZXCVBNM'' @ [0, 0, 47 - 64, 0, 0])
     [(0x97, KEY_HOME), (0xB5, 47 - 64), (0xC8, KEY_UP), (0xC9, KEY_PGUP), (0xCB, KEY_LF), (0xCD, KEY_RT),
      (0xCF, KEY_END), (0xD0, KEY_DN), (0xD1, KEY_PGDN), (0xD2, KEY_INS), (0xD3, KEY_DEL)]"

definition charcode :: "u32 \<Rightarrow> u8 \<Rightarrow> u8" where
  "charcode m = (if m = 0 then normalmap else if m = 1 then shiftmap else ctlmap)"

section \<open>Scan codes\<close>

text \<open>The result of \<^verbatim>\<open>kbd_getch\<close>, the new \<^verbatim>\<open>shift\<close>, and whether it reset the machine.\<close>

definition kbd_getch :: "u8 \<Rightarrow> u8 \<Rightarrow> u32 \<Rightarrow> int \<times> u32 \<times> bool" where
  "kbd_getch stat data shift =
     (if stat AND KBS_DIB = 0 then (- 1, shift, False)
      else if stat AND KBS_TERR \<noteq> 0 then (- 1, shift, False)
      else if data = 0xE0 then (0, shift OR ucast E0ESC, False)
      else if data AND 0x80 \<noteq> 0
      then let data = (if shift AND ucast E0ESC \<noteq> 0 then data else data AND 0x7F)
           in (0, shift AND NOT (ucast (shiftcode data OR E0ESC)), False)
      else let (data, shift) = (if shift AND ucast E0ESC \<noteq> 0 then (data OR 0x80, shift AND NOT (ucast E0ESC))
                                else (data, shift));
               shift = shift OR ucast (shiftcode data);
               shift = shift XOR ucast (togglecode data);
               c = uint (charcode (shift AND ucast (CTL OR SHIFT)) data);
               c = (if shift AND ucast CAPSLOCK \<noteq> 0
                    then if 97 \<le> c \<and> c \<le> 122 then c + (65 - 97)
                         else if 65 \<le> c \<and> c \<le> 90 then c + (97 - 65) else c
                    else c)
           in (c, shift, NOT shift AND ucast (CTL OR ALT) = 0 \<and> c = uint KEY_DEL))"

section \<open>The buffer\<close>

definition kbd_put :: "u8 \<Rightarrow> 'a kstate_scheme \<Rightarrow> 'a kstate_scheme" where
  "kbd_put c s =
     s\<lparr>kbd_buffer := (kbd_buffer s)((kbd_buf_beg s + kbd_buf_siz s) mod 4096 := c), kbd_buf_siz := kbd_buf_siz s + 1\<rparr>"

text \<open>The loop that copies \<open>r\<close> characters to user space, one iteration per character.\<close>

definition kbd_take :: "u64 \<Rightarrow> nat \<Rightarrow> 'a kstate_scheme \<Rightarrow> 'a kstate_scheme option" where
  "kbd_take dst i s = do {
     s \<leftarrow> vstore8 (dst + of_nat i) (kbd_buffer s (kbd_buf_beg s)) s;
     let s = s\<lparr>kbd_buf_beg := kbd_buf_beg s + 1\<rparr>;
     let s = (if kbd_buf_beg s = 4096 then s\<lparr>kbd_buf_beg := 0\<rparr> else s);
     Some (s\<lparr>kbd_buf_siz := kbd_buf_siz s - 1\<rparr>)
   }"

definition kbd_copy :: "u64 \<Rightarrow> nat \<Rightarrow> 'a kstate_scheme \<Rightarrow> 'a kstate_scheme option" where
  "kbd_copy dst r = for_loop [0..<r] (kbd_take dst)"

section \<open>The buffer is a queue\<close>

interpretation kbd_ring: fifo "ritems 4096" "rok 4096" 4096 "rput 4096" "rfront 4096" "rpop 4096"
  by (rule ring_fifo) simp

definition kbd_ring_of :: "'a kstate_scheme \<Rightarrow> u8 ring" where
  "kbd_ring_of s = (kbd_buf_beg s, kbd_buf_siz s, kbd_buffer s)"

definition typed :: "'a kstate_scheme \<Rightarrow> u8 list" where
  "typed s = ritems 4096 (kbd_ring_of s)"

definition kbd_ok :: "'a kstate_scheme \<Rightarrow> bool" where
  "kbd_ok s \<longleftrightarrow> rok 4096 (kbd_ring_of s)"

primrec vstores :: "u64 \<Rightarrow> u8 list \<Rightarrow> 'a kmem_scheme \<Rightarrow> 'a kmem_scheme option" where
  "vstores dst [] s = Some s"
| "vstores dst (x # xs) s = do { s \<leftarrow> vstore8 dst x s; vstores (dst + 1) xs s }"

lemma kbd_ring_put: "kbd_ring_of (kbd_put c s) = rput 4096 c (kbd_ring_of s)"
  by (simp add: kbd_ring_of_def kbd_put_def)

abbreviation set_kbd :: "nat \<Rightarrow> nat \<Rightarrow> 'a kstate_scheme \<Rightarrow> 'a kstate_scheme" where
  "set_kbd h n s \<equiv> s\<lparr>kbd_buf_beg := h, kbd_buf_siz := n\<rparr>"

lemma vstore8_set_kbd: "vstore8 va x (set_kbd h n s) = map_option (set_kbd h n) (vstore8 va x s)"
  by (cases "translate (pmem s) (cr3 s) va") (simp_all add: vstore8_def)

lemma vstores_set_kbd: "vstores dst xs (set_kbd h n s) = map_option (set_kbd h n) (vstores dst xs s)"
proof (induction xs arbitrary: dst s)
  case (Cons x xs)
  then show ?case by (cases "vstore8 dst x s") (simp_all add: vstore8_set_kbd)
qed simp

lemma vstore8_kbd:
  "vstore8 va x s = Some (t :: 'a kstate_scheme) \<Longrightarrow>
   kbd_buffer t = kbd_buffer s \<and> kbd_buf_beg t = kbd_buf_beg s \<and> kbd_buf_siz t = kbd_buf_siz s"
  by (drule vstore8_more, drule more_kstate) simp

lemma kbd_take_ring:
  assumes "kbd_buf_beg s < 4096"
  shows "kbd_take dst i s = (case rpop 4096 (kbd_ring_of s) of (h, n, _) \<Rightarrow>
    map_option (set_kbd h n) (vstore8 (dst + of_nat i) (rfront 4096 (kbd_ring_of s)) s))"
proof (cases "vstore8 (dst + of_nat i) (kbd_buffer s (kbd_buf_beg s)) s")
  case None
  then show ?thesis using assms by (simp add: kbd_take_def kbd_ring_of_def)
next
  case (Some t)
  note k = vstore8_kbd[OF Some]
  show ?thesis
    using assms Some k by (cases "kbd_buf_beg s + 1 = 4096") (simp_all add: kbd_take_def kbd_ring_of_def Let_def)
qed

lemma kbd_copy_ring:
  assumes "kbd_buf_beg s < 4096"
  shows "for_loop [i..<i + r] (kbd_take dst) s = (case kbd_ring.get_all r (kbd_ring_of s) of (xs, h, n, _) \<Rightarrow>
    map_option (set_kbd h n) (vstores (dst + of_nat i) xs s))"
  using assms
proof (induction r arbitrary: i s)
  case 0
  then show ?case by (simp add: kbd_ring_of_def)
next
  case (Suc r)
  let ?x = "rfront 4096 (kbd_ring_of s)"
  obtain h n where hn: "rpop 4096 (kbd_ring_of s) = (h, n, kbd_buffer s)" "h < 4096"
    by (simp add: kbd_ring_of_def)
  have up: "[i..<i + Suc r] = i # [Suc i..<Suc i + r]" by (simp add: upt_conv_Cons del: upt_Suc)
  have k: "kbd_take dst i s = map_option (set_kbd h n) (vstore8 (dst + of_nat i) ?x s)"
    using kbd_take_ring[OF Suc.prems, of dst i] hn by simp
  show ?case
  proof (cases "vstore8 (dst + of_nat i) ?x s")
    case None
    then show ?thesis using k unfolding up by (simp add: split_beta del: upt_Suc)
  next
    case (Some t)
    have "kbd_ring_of (set_kbd h n t) = (h, n, kbd_buffer s)"
      using vstore8_kbd[OF Some] by (simp add: kbd_ring_of_def)
    then show ?thesis
      using k Some Suc.IH[of "set_kbd h n t" "Suc i"] hn unfolding up
      by (simp add: vstores_set_kbd add.assoc[symmetric] add.commute[of _ 1] split_beta option.map_comp comp_def del: upt_Suc)
  qed
qed

lemma get_all_buffer: "snd (snd (snd (kbd_ring.get_all r q))) = snd (snd q)"
proof (induction r arbitrary: q)
  case (Suc r)
  then show ?case by (cases q) (simp add: split_beta)
qed simp

lemma vstores_kbd:
  "vstores va xs s = Some (t :: 'a kstate_scheme) \<Longrightarrow>
   kbd_buffer t = kbd_buffer s \<and> kbd_buf_beg t = kbd_buf_beg s \<and> kbd_buf_siz t = kbd_buf_siz s"
proof (induction xs arbitrary: va s)
  case (Cons x xs)
  then obtain u where "vstore8 va x s = Some u" "vstores (va + 1) xs u = Some t" by (auto split: bind_splits)
  then show ?case using Cons.IH[of "va + 1" u] vstore8_kbd[of va x s u] by simp
qed simp

text \<open>
  C18: Reading \<open>r\<close> typed characters stores exactly the oldest \<open>r\<close> of them, in order, at the reader's
  address and leaves the rest in the buffer; characters that arrive are queued behind.
\<close>
theorem kbd_queue:
  assumes "kbd_ok s" and "r \<le> length (typed s)"
  shows "(case kbd_copy dst r s of
      None \<Rightarrow> vstores dst (take r (typed s)) s = None
    | Some s' \<Rightarrow> vstores dst (take r (typed s)) s = Some (set_kbd (kbd_buf_beg s) (kbd_buf_siz s) s') \<and>
        typed s' = drop r (typed s) \<and> kbd_ok s') \<and>
    (length (typed s) < 4096 \<longrightarrow> typed (kbd_put c s) = typed s @ [c] \<and> kbd_ok (kbd_put c s))"
proof -
  have beg: "kbd_buf_beg s < 4096" using assms(1) by (simp add: kbd_ok_def rok_def kbd_ring_of_def)
  obtain xs h n b where g: "kbd_ring.get_all r (kbd_ring_of s) = (xs, h, n, b)" by (metis prod.exhaust)
  have ok: "rok 4096 (kbd_ring_of s)" "r \<le> length (ritems 4096 (kbd_ring_of s))"
    using assms by (simp_all add: kbd_ok_def typed_def)
  from kbd_ring.get_all_ok[OF ok] g have gx: "xs = take r (typed s)" "rok 4096 (h, n, b)" "ritems 4096 (h, n, b) = drop r (typed s)"
    by (simp_all add: typed_def)
  have b: "b = kbd_buffer s"
    using get_all_buffer[of r "kbd_ring_of s"] g by (simp add: kbd_ring_of_def)
  have c: "kbd_copy dst r s = map_option (set_kbd h n) (vstores dst (take r (typed s)) s)"
    using kbd_copy_ring[OF beg, of 0 r dst] g gx(1) by (simp add: kbd_copy_def)
  have p: "typed (kbd_put c s) = typed s @ [c] \<and> kbd_ok (kbd_put c s)" if "length (typed s) < 4096"
    using kbd_ring.put_ok[of "kbd_ring_of s" c] that assms(1) by (simp add: typed_def kbd_ok_def kbd_ring_put)
  show ?thesis
  proof (cases "vstores dst (take r (typed s)) s")
    case None
    then show ?thesis using c p by simp
  next
    case (Some t)
    note k = vstores_kbd[OF Some]
    have "kbd_ring_of (set_kbd h n t) = (h, n, b)" using k b by (simp add: kbd_ring_of_def)
    then show ?thesis using Some c p gx k by (simp add: typed_def kbd_ok_def)
  qed
qed

definition ex_kbd :: kstate where
  "ex_kbd = kmem.extend (ex_kmem\<lparr>pmem := ex_tbl, cr3 := 0x207000\<rparr>) (kstate.fields (\<lambda>_. zero_proc) (\<lambda>_. zero_fx)
     None None 0 (\<lambda>_. zero_pipe) (\<lambda>i. of_nat i) 4095 3)"

lemma ex_kbd_sel [simp]:
  "kbd_buffer ex_kbd = (\<lambda>i. of_nat i)" "kbd_buf_beg ex_kbd = 4095" "kbd_buf_siz ex_kbd = 3"
  "pmem ex_kbd = ex_tbl" "cr3 ex_kbd = 0x207000"
  by (simp_all add: ex_kbd_def kmem.extend_def kstate.fields_def)

lemma ex_tbl_translate: "translate ex_tbl 0x207000 0x400010 = Some 0x206010"
proof -
  have "load64 ex_tbl 0x207000 = 0x208007" "load64 ex_tbl 0x208000 = 0x209007"
    "load64 ex_tbl 0x209010 = 0x20A007" "load64 ex_tbl 0x20A000 = 0x206007"
    using ex_tbl_ent(1)[of 0] ex_tbl_ent(2)[of 0] ex_tbl_ent(3)[of 2] ex_tbl_ent(4)[of 0] by (simp_all add: slot_def)
  then show ?thesis
    by (simp add: translate_def canonical_def mmu_entry_def PHYS_MASK_def KERNBASE_def PML4_INDEX_def PML4_OFFSET_def
        PDPT_INDEX_def PDPT_OFFSET_def PD_INDEX_def PD_OFFSET_def PT_INDEX_def PT_OFFSET_def PTE_P_def PDPTE_PS_def
        mask_eq_exp_minus_1)
qed

theorem kbd_queue_witness:
  "\<exists>s'. kbd_copy 0x400010 1 ex_kbd = Some s' \<and> typed s' = [0, 1] \<and> pmem s' 0x206010 = 255"
proof -
  have t: "typed ex_kbd = [255, 0, 1]" by (simp add: typed_def kbd_ring_of_def ring_list_def upt_rec)
  have "kbd_ok ex_kbd" by (simp add: kbd_ok_def kbd_ring_of_def rok_def)
  note q = kbd_queue[OF this, of 1 "0x400010" 0, simplified t]
  have v: "vstore8 0x400010 255 ex_kbd = Some (ex_kbd\<lparr>pmem := ex_tbl(0x206010 := 255)\<rparr>)"
    by (simp add: vstore8_def ex_tbl_translate)
  from q v obtain s' where s': "kbd_copy 0x400010 1 ex_kbd = Some s'" by (cases "kbd_copy 0x400010 1 ex_kbd") simp_all
  with q v have "pmem (set_kbd 4095 3 s') = pmem (ex_kbd\<lparr>pmem := ex_tbl(0x206010 := 255)\<rparr>)" by simp
  then show ?thesis using q s' by simp
qed

section \<open>Modifier keys\<close>

lemma shiftcode_cases: "shiftcode d \<in> {0, SHIFT, CTL, ALT}"
  by (auto simp: shiftcode_def table_def)

lemma togglecode_cases: "togglecode d \<in> {0, CAPSLOCK, NUMLOCK, SCROLLLOCK}"
  by (auto simp: togglecode_def table_def)

lemma set_clear:
  assumes "x AND (a OR e) = 0" and "b AND (a OR e) = (0 :: 'w :: len word)"
  shows "((x OR a) XOR b) AND NOT (a OR e) = x XOR b"
proof (rule bit_eqI)
  fix n
  have "\<not> bit (x AND (a OR e)) n" "\<not> bit (b AND (a OR e)) n" using assms by simp_all
  then show "bit (((x OR a) XOR b) AND NOT (a OR e)) n = bit (x XOR b) n" if "possible_bit TYPE('w word) n"
    using that by (auto simp: bit_simps)
qed

lemma break_code:
  assumes "d < (0x80 :: u8)"
  shows "d AND 0x80 = 0" "(d OR 0x80) AND 0x7F = d" "(d OR 0x80) AND 0x80 = 0x80" "d OR 0x80 = 0xE0 \<Longrightarrow> d = 0x60" "d \<noteq> 0xE0"
proof -
  have "take_bit 7 d = d"
    using assms by (simp add: word_unat_eq_iff take_bit_eq_mod unat_mod word_less_nat_alt)
  then have t: "d AND 0x7F = d" by (simp add: take_bit_eq_mask mask_eq_exp_minus_1)
  have "d AND 0x80 = (d AND 0x7F) AND 0x80" by (simp add: t)
  then show 0: "d AND 0x80 = 0" by (simp only: and.assoc) simp
  show 1: "(d OR 0x80) AND 0x7F = d" using t by (simp add: bit.conj_disj_distrib2)
  show "(d OR 0x80) AND 0x80 = 0x80" using 0 by (simp add: bit.conj_disj_distrib2)
  show "d = 0x60" if "d OR 0x80 = 0xE0" using 1 that by simp
  show "d \<noteq> 0xE0" using 0 by auto
qed

text \<open>
  C19: Pressing a key and releasing it leaves exactly the lock keys changed: from a state in which the key's
  modifier is up and no escape byte is pending, the shift state after the make code \<open>d\<close> and the break code
  \<open>d OR 0x80\<close> is the old one with the key's toggle bit flipped, and the break code yields no character.
\<close>
theorem kbd_press_release:
  assumes "d < 0x80" and "d \<noteq> 0x60" and "shift AND (ucast (shiftcode d) OR ucast E0ESC) = 0"
  shows "let s1 = fst (snd (kbd_getch 1 d shift)); (c, s2, r) = kbd_getch 1 (d OR 0x80) s1
         in c = 0 \<and> s2 = shift XOR ucast (togglecode d) \<and> \<not> r"
proof -
  let ?a = "ucast (shiftcode d) :: u32" and ?b = "ucast (togglecode d) :: u32" and ?e = "ucast E0ESC :: u32"
  have d: "d AND 0x80 = 0" "d OR 0x80 \<noteq> 0xE0" "(d OR 0x80) AND 0x7F = d" "(d OR 0x80) AND 0x80 \<noteq> 0" "d \<noteq> 0xE0"
    using break_code[OF assms(1)] assms(2) by auto
  have e: "shift AND ?e = 0" using assms(3) by (simp add: bit.conj_disj_distrib or_eq_0_iff)
  have b: "?b AND (?a OR ?e) = 0"
    using shiftcode_cases[of d] togglecode_cases[of d] by (auto simp: shift_defs)
  have s1: "((shift OR ?a) XOR ?b) AND ?e = 0"
    using shiftcode_cases[of d] togglecode_cases[of d] e by (auto simp: shift_defs bit.conj_disj_distrib2 bit.conj_xor_distrib2)
  have "kbd_getch 1 d shift = (fst (kbd_getch 1 d shift), (shift OR ?a) XOR ?b, snd (snd (kbd_getch 1 d shift)))"
    using d e by (simp add: kbd_getch_def Let_def KBS_DIB_def KBS_TERR_def)
  then have 1: "fst (snd (kbd_getch 1 d shift)) = (shift OR ?a) XOR ?b" by (metis fst_conv snd_conv)
  have "ucast (shiftcode d OR E0ESC) = ?a OR ?e" by (simp add: unsigned_or_eq)
  then show ?thesis
    unfolding 1 using d s1 set_clear[OF assms(3) b] by (simp add: kbd_getch_def Let_def KBS_DIB_def KBS_TERR_def)
qed

theorem kbd_press_release_witness:
  "kbd_getch 1 0xBA (fst (snd (kbd_getch 1 0x3A 1))) = (0, 9, False)"
  using kbd_press_release[of "0x3A" 1]
  by (simp add: Let_def split_beta prod_eq_iff shiftcode_def togglecode_def table_def shift_defs)

end
