(* ===== verification/Console.thy ===== *)
theory Console
  imports Fmt "HOL-Library.Signed_Division"
begin

text \<open>
  The text console of \<^verbatim>\<open>kernel/console.c\<close> and \<^verbatim>\<open>printk\<close>.  The static variables of the file are the
  fields of a record; the frame buffer \<^verbatim>\<open>pixelbuf\<close> and the font are arrays.  An index outside \<^verbatim>\<open>cbuf\<close>
  and a division by \<^verbatim>\<open>cols = 0\<close> have no defined behaviour and are \<^term>\<open>None\<close>.

  The last part proves that the console is a text terminal: with every character \<^verbatim>\<open>console_putch\<close> does
  to the text on the screen what \<open>term_putch\<close> says, and the pixels always show that text.
\<close>

record console =
  ind :: u32
  rows :: u32
  cols :: u32
  height :: u32
  width :: u32
  hpixel :: u32
  vpixel :: u32
  bytes_per_glyph :: u32
  cbuf :: "nat \<Rightarrow> u8"
  pixelbuf :: "nat \<Rightarrow> u32"
  font :: "nat \<Rightarrow> u8"

definition TAB_SIZE :: u32 where "TAB_SIZE = 4"
definition CBUF_SIZE :: nat where "CBUF_SIZE = 1920 * 1080"

definition glyph_at :: "u8 \<Rightarrow> nat \<Rightarrow> nat \<Rightarrow> console \<Rightarrow> bool" where
  "glyph_at ch i j c =
     (let n = sint (of_nat i * ((hpixel c + 7) div 8) * 8 + of_nat j :: u32);
          ind = n sdiv 8;
          off = n smod 8
      in bit (font c (unat (ucast ch * bytes_per_glyph c + of_int ind))) (nat (7 - off)))"

definition ischar :: "int \<Rightarrow> bool" where
  "ischar ch \<longleftrightarrow> 0x20 \<le> ch \<and> ch < 0x7F"

definition print_font_at :: "u8 \<Rightarrow> u32 \<Rightarrow> console \<Rightarrow> console option" where
  "print_font_at ch pos c =
     (if sint pos < 0 \<or> unat pos \<ge> CBUF_SIZE \<or> cols c = 0 then None
      else let c = c\<lparr>cbuf := (cbuf c)(unat pos := ch)\<rparr>;
               r = pos div cols c * vpixel c;
               cl = pos mod cols c * hpixel c
           in for_loop [0..<unat (vpixel c)] (\<lambda>i. for_loop [0..<unat (hpixel c)] (\<lambda>j c.
                let ch = (if \<not> ischar (sint ch) then 63 else ch);
                    k = unat ((r + of_nat i) * width c + cl + of_nat j);
                    v = (if glyph_at ch i j c then 0x00FFFFFF else 0)
                in Some (c\<lparr>pixelbuf := (pixelbuf c)(k := v)\<rparr>))) c)"

definition scroll_line :: "nat \<Rightarrow> console \<Rightarrow> console option" where
  "scroll_line i c =
     (let k = unat (of_nat i + cols c)
      in if i \<ge> CBUF_SIZE \<or> k \<ge> CBUF_SIZE then None
         else if cbuf c i \<noteq> cbuf c k then print_font_at (cbuf c k) (of_nat i) c else Some c)"

definition blank_line :: "nat \<Rightarrow> console \<Rightarrow> console option" where
  "blank_line i c =
     (if i \<ge> CBUF_SIZE then None else if cbuf c i \<noteq> 32 then print_font_at 32 (of_nat i) c else Some c)"

definition scroll :: "console \<Rightarrow> console option" where
  "scroll c = do {
     let a = unat ((rows c - 1) * cols c);
     let b = unat (rows c * cols c);
     c \<leftarrow> for_loop [0..<a] scroll_line c;
     c \<leftarrow> for_loop [a..<b] blank_line c;
     Some (c\<lparr>ind := ind c - cols c\<rparr>)
   }"

text \<open>\<^verbatim>\<open>do { print_font_at(' ', ind); ++ind; } while (ind % m);\<close>\<close>

function blank_to :: "u32 \<Rightarrow> console \<Rightarrow> console option" where
  "blank_to m c =
     (if unat (ind c) \<ge> CBUF_SIZE \<or> m = 0 then None
      else do {
        d \<leftarrow> print_font_at 32 (ind c) c;
        let k = ind c + 1;
        if k mod m \<noteq> 0 then blank_to m (d\<lparr>ind := k\<rparr>) else Some (d\<lparr>ind := k\<rparr>)
      })"
  by pat_completeness auto
termination
proof (relation "measure (\<lambda>(m, c). CBUF_SIZE - unat (ind c))", simp, clarsimp)
  fix c :: console assume "\<not> CBUF_SIZE \<le> unat (ind c)"
  then have "unat (ind c) < 2073600" by (simp add: CBUF_SIZE_def)
  then have "unat (ind c + 1) = unat (ind c) + 1" by (simp add: unat_word_ariths)
  then show "CBUF_SIZE - unat (ind c + 1) < CBUF_SIZE - unat (ind c)"
    using \<open>\<not> CBUF_SIZE \<le> unat (ind c)\<close> by simp
qed

declare blank_to.simps [simp del]

definition console_putch :: "u8 \<Rightarrow> console \<Rightarrow> console option" where
  "console_putch ch c = do {
     c \<leftarrow> (if ind c = rows c * cols c then scroll c else Some c);
     if ch = 10 then blank_to (cols c) c
     else if ch = 8 then let c = c\<lparr>ind := ind c - 1\<rparr> in print_font_at 32 (ind c) c
     else if ch = 13 then if cols c = 0 then None else Some (c\<lparr>ind := ind c - ind c mod cols c\<rparr>)
     else if ch = 9 then blank_to TAB_SIZE c
     else do {
       c \<leftarrow> print_font_at ch (ind c) c;
       Some (c\<lparr>ind := ind c + 1\<rparr>)
     }
   }"

text \<open>\<^verbatim>\<open>struct screen\<close>: the frame buffer's address matters only for the alignment check.\<close>

record screen =
  scr_buf :: u64
  scr_pixels :: "nat \<Rightarrow> u32"
  scr_glyph :: "nat \<Rightarrow> u8"
  scr_width :: u32
  scr_height :: u32
  scr_hpixel :: u32
  scr_vpixel :: u32
  scr_bytes_per_glyph :: u32

definition init_console :: "screen \<Rightarrow> console \<Rightarrow> console option" where
  "init_console scr c =
     (if scr_vpixel scr = 0 \<or> scr_hpixel scr = 0 then None
      else do {
        let c = c\<lparr>vpixel := scr_vpixel scr, height := scr_height scr, rows := scr_height scr div scr_vpixel scr,
                  hpixel := scr_hpixel scr, width := scr_width scr, cols := scr_width scr div scr_hpixel scr,
                  pixelbuf := scr_pixels scr, bytes_per_glyph := scr_bytes_per_glyph scr, font := scr_glyph scr\<rparr>;
        c \<leftarrow> for_loop [0..<unat (rows c)] (\<lambda>_. console_putch 10) c;
        let c = c\<lparr>ind := 0\<rparr>;
        if scr_buf scr AND mask 23 = 0 then Some c else None
      })"

section \<open>\<^verbatim>\<open>printk\<close>\<close>

fun putchs_console :: "string \<Rightarrow> console \<Rightarrow> console option" where
  "putchs_console [] c = Some c"
| "putchs_console (x # xs) c = do { c \<leftarrow> console_putch (of_char x) c; putchs_console xs c }"

definition printk :: "string \<Rightarrow> varg list \<Rightarrow> console \<Rightarrow> console option" where
  "printk fmt ap c = do { t \<leftarrow> vprintfmt fmt ap; putchs_console t c }"

section \<open>The console as a text terminal\<close>

text \<open>What the operations on characters leave alone: the geometry and the font.\<close>

definition geo :: "console \<Rightarrow> console" where
  "geo c = c\<lparr>ind := 0, cbuf := (\<lambda>_. 0), pixelbuf := (\<lambda>_. 0)\<rparr>"

definition ncell :: "console \<Rightarrow> nat" where
  "ncell c = unat (rows c) * unat (cols c)"

definition geo_ok :: "console \<Rightarrow> bool" where
  "geo_ok c \<longleftrightarrow> 0 < unat (rows c) \<and> 0 < unat (cols c) \<and> unat (cols c) * unat (hpixel c) \<le> unat (width c) \<and>
     unat (rows c) * unat (vpixel c) * unat (width c) < 2 ^ 32 \<and> ncell c \<le> CBUF_SIZE"

text \<open>The pixel \<open>(i, j)\<close> of cell \<open>p\<close> and its colour when the cell shows \<open>ch\<close>.\<close>

definition pix :: "console \<Rightarrow> nat \<Rightarrow> nat \<Rightarrow> nat \<Rightarrow> nat" where
  "pix c p i j = (p div unat (cols c) * unat (vpixel c) + i) * unat (width c) + (p mod unat (cols c) * unat (hpixel c) + j)"

definition colour :: "console \<Rightarrow> u8 \<Rightarrow> nat \<Rightarrow> nat \<Rightarrow> u32" where
  "colour c ch i j = (if glyph_at (if \<not> ischar (sint ch) then 63 else ch) i j c then 0x00FFFFFF else 0)"

definition shown :: "console \<Rightarrow> bool" where
  "shown c \<longleftrightarrow> (\<forall>p < ncell c. \<forall>i < unat (vpixel c). \<forall>j < unat (hpixel c).
     pixelbuf c (pix c p i j) = colour c (cbuf c p) i j)"

definition text_of :: "console \<Rightarrow> u8 list" where
  "text_of c = map (cbuf c) [0..<ncell c]"

definition terminal :: "console \<Rightarrow> u8 list \<times> nat \<Rightarrow> bool" where
  "terminal c = (\<lambda>(t, k). geo_ok c \<and> shown c \<and> t = text_of c \<and> k = unat (ind c) \<and> k \<le> ncell c)"

text \<open>A text terminal with lines of \<open>C\<close> characters: the text and the cursor.\<close>

definition term_scroll :: "nat \<Rightarrow> u8 list \<times> nat \<Rightarrow> u8 list \<times> nat" where
  "term_scroll C = (\<lambda>(t, k). if k = length t then (drop C t @ replicate C 32, k - C) else (t, k))"

definition term_blank :: "nat \<Rightarrow> u8 list \<times> nat \<Rightarrow> u8 list \<times> nat" where
  "term_blank m = (\<lambda>(t, k). let k' = (k div m + 1) * m in (take k t @ replicate (k' - k) 32 @ drop k' t, k'))"

definition term_put :: "nat \<Rightarrow> u8 \<Rightarrow> u8 list \<times> nat \<Rightarrow> u8 list \<times> nat" where
  "term_put C ch = (\<lambda>(t, k).
     if ch = 10 then term_blank C (t, k)
     else if ch = 8 then (t[k - 1 := 32], k - 1)
     else if ch = 13 then (t, k - k mod C)
     else if ch = 9 then term_blank 4 (t, k)
     else (t[k := ch], k + 1))"

definition term_putch :: "nat \<Rightarrow> u8 \<Rightarrow> u8 list \<times> nat \<Rightarrow> u8 list \<times> nat" where
  "term_putch C ch x = term_put C ch (term_scroll C x)"

lemma geoD:
  assumes "geo d = geo c"
  shows "rows d = rows c" "cols d = cols c" "width d = width c" "hpixel d = hpixel c" "vpixel d = vpixel c"
    "ncell d = ncell c" "geo_ok d = geo_ok c" "pix d = pix c" "colour d = colour c"
proof -
  note f = arg_cong[OF assms]
  show r: "rows d = rows c" "cols d = cols c" "width d = width c" "hpixel d = hpixel c" "vpixel d = vpixel c"
    using f[of rows] f[of cols] f[of width] f[of hpixel] f[of vpixel] by (simp_all add: geo_def)
  show n: "ncell d = ncell c" by (simp add: ncell_def r)
  show "geo_ok d = geo_ok c" by (simp add: geo_ok_def r n)
  show "pix d = pix c" by (intro ext) (simp add: pix_def r)
  have "bytes_per_glyph d = bytes_per_glyph c" "font d = font c"
    using f[of bytes_per_glyph] f[of font] by (simp_all add: geo_def)
  then show "colour d = colour c" by (intro ext) (simp add: colour_def glyph_at_def r)
qed

lemma geo_upd [simp]:
  "geo (c\<lparr>ind := a\<rparr>) = geo c" "geo (c\<lparr>cbuf := b\<rparr>) = geo c" "geo (c\<lparr>pixelbuf := p\<rparr>) = geo c"
  by (simp_all add: geo_def)

lemma length_text_of [simp]: "length (text_of c) = ncell c"
  by (simp add: text_of_def)

lemma div_mod_unique:
  assumes "(a :: nat) * m + x = b * m + y" and "x < m" and "y < m"
  shows "a = b \<and> x = y"
  using arg_cong[OF assms(1), of "\<lambda>z. z div m"] arg_cong[OF assms(1), of "\<lambda>z. z mod m"] assms(2,3) by simp

lemma pix_column:
  assumes "geo_ok c" and "j < unat (hpixel c)"
  shows "p mod unat (cols c) * unat (hpixel c) + j < unat (width c)"
proof -
  have "p mod unat (cols c) < unat (cols c)" using assms(1) by (simp add: geo_ok_def)
  then have "(p mod unat (cols c) + 1) * unat (hpixel c) \<le> unat (cols c) * unat (hpixel c)"
    by (intro mult_le_mono1) simp
  then show ?thesis using assms by (simp add: geo_ok_def)
qed

lemma pix_row:
  assumes "geo_ok c" and "p < ncell c" and "i < unat (vpixel c)"
  shows "p div unat (cols c) * unat (vpixel c) + i < unat (rows c) * unat (vpixel c)"
proof -
  have "p div unat (cols c) < unat (rows c)" using assms(2) by (simp add: ncell_def less_mult_imp_div_less)
  then have "(p div unat (cols c) + 1) * unat (vpixel c) \<le> unat (rows c) * unat (vpixel c)"
    by (intro mult_le_mono1) simp
  then show ?thesis using assms(3) by simp
qed

lemma pix_bound:
  assumes "geo_ok c" and "p < ncell c" and "i < unat (vpixel c)" and "j < unat (hpixel c)"
  shows "pix c p i j < 2 ^ 32"
proof -
  let ?r = "p div unat (cols c) * unat (vpixel c) + i"
  have "(?r + 1) * unat (width c) \<le> unat (rows c) * unat (vpixel c) * unat (width c)"
    using pix_row[OF assms(1-3)] by (intro mult_le_mono1) simp
  then have "pix c p i j < unat (rows c) * unat (vpixel c) * unat (width c)"
    using pix_column[OF assms(1,4), of p] by (simp add: pix_def)
  then show ?thesis using assms(1) by (simp add: geo_ok_def)
qed

lemma pix_inj:
  assumes "geo_ok c" and "pix c p i j = pix c q i' j'"
    and "i < unat (vpixel c)" and "j < unat (hpixel c)" and "i' < unat (vpixel c)" and "j' < unat (hpixel c)"
  shows "p = q \<and> i = i' \<and> j = j'"
proof -
  note w = div_mod_unique[OF assms(2)[unfolded pix_def] pix_column[OF assms(1,4)] pix_column[OF assms(1,6)]]
  have r: "p div unat (cols c) = q div unat (cols c) \<and> i = i'" using div_mod_unique[OF conjunct1[OF w] assms(3,5)] .
  have m: "p mod unat (cols c) = q mod unat (cols c) \<and> j = j'" using div_mod_unique[OF conjunct2[OF w] assms(4,6)] .
  show ?thesis using r m by (metis div_mult_mod_eq)
qed

lemma pix_word:
  assumes "geo_ok c" and "p < ncell c" and "i < unat (vpixel c)" and "j < unat (hpixel c)"
  shows "unat ((of_nat p div cols c * vpixel c + of_nat i) * width c + of_nat p mod cols c * hpixel c + of_nat j) = pix c p i j"
proof -
  have p: "p < 2 ^ 32" using assms(1,2) by (simp add: geo_ok_def CBUF_SIZE_def)
  have d: "(of_nat p :: u32) div cols c = of_nat (p div unat (cols c))" "(of_nat p :: u32) mod cols c = of_nat (p mod unat (cols c))"
    using p by (simp_all add: word_arith_nat_div word_arith_nat_mod unat_of_nat)
  have "(of_nat p div cols c * vpixel c + of_nat i) * width c + of_nat p mod cols c * hpixel c + of_nat j = of_nat (pix c p i j)"
    unfolding d pix_def by (simp add: algebra_simps)
  then show ?thesis using pix_bound[OF assms] by (simp add: unat_of_nat)
qed

text \<open>Painting one cell.\<close>

definition painted :: "console \<Rightarrow> u8 \<Rightarrow> nat \<Rightarrow> (nat \<times> nat) set \<Rightarrow> console \<Rightarrow> bool" where
  "painted c ch p S d \<longleftrightarrow> (\<exists>m. d = c\<lparr>pixelbuf := m\<rparr> \<and> (\<forall>i j. (i, j) \<in> S \<longrightarrow> m (pix c p i j) = colour c ch i j) \<and>
     (\<forall>k. (\<forall>i j. (i, j) \<in> S \<longrightarrow> k \<noteq> pix c p i j) \<longrightarrow> m k = pixelbuf c k))"

lemma painted_step:
  assumes "geo_ok c" and "painted c ch p S d"
    and "S \<subseteq> {..<unat (vpixel c)} \<times> {..<unat (hpixel c)}" and "i < unat (vpixel c)" and "j < unat (hpixel c)"
  shows "painted c ch p (insert (i, j) S) (d\<lparr>pixelbuf := (pixelbuf d)(pix c p i j := colour c ch i j)\<rparr>)"
proof -
  from assms(2) obtain m where m: "d = c\<lparr>pixelbuf := m\<rparr>" "\<And>i j. (i, j) \<in> S \<Longrightarrow> m (pix c p i j) = colour c ch i j"
    "\<And>k. (\<And>i j. (i, j) \<in> S \<Longrightarrow> k \<noteq> pix c p i j) \<Longrightarrow> m k = pixelbuf c k"
    unfolding painted_def by blast
  have "pix c p a b = pix c p i j \<Longrightarrow> (a, b) = (i, j)" if "(a, b) \<in> S" for a b
    using pix_inj[OF assms(1), of p a b p i j] that assms(3-5) by auto
  then have A: "((m(pix c p i j := colour c ch i j)) (pix c p a b)) = colour c ch a b" if "(a, b) \<in> insert (i, j) S" for a b
    using that m(2)[of a b] by auto
  have B: "(m(pix c p i j := colour c ch i j)) k = pixelbuf c k"
    if "\<And>a b. (a, b) \<in> insert (i, j) S \<Longrightarrow> k \<noteq> pix c p a b" for k
    using that m(3)[of k] by auto
  show ?thesis
    unfolding painted_def m(1)
    by (rule exI[of _ "m(pix c p i j := colour c ch i j)"], intro conjI allI impI) (simp, erule A, rule B, blast)
qed

lemma print_font_at_painted:
  assumes "geo_ok c" and "p < ncell c"
  shows "\<exists>d. print_font_at ch (of_nat p) c = Some d \<and>
    painted (c\<lparr>cbuf := (cbuf c)(p := ch)\<rparr>) ch p ({..<unat (vpixel c)} \<times> {..<unat (hpixel c)}) d"
proof -
  let ?c = "c\<lparr>cbuf := (cbuf c)(p := ch)\<rparr>" and ?V = "unat (vpixel c)" and ?H = "unat (hpixel c)"
  have p: "p < 2073600" using assms by (simp add: geo_ok_def CBUF_SIZE_def)
  then have up: "unat (of_nat p :: u32) = p" by (simp add: unat_of_nat)
  have "sint (of_nat p :: u32) = int p"
    using p by (simp add: signed_of_nat signed_take_bit_int_eq_self)
  then have g: "\<not> (sint (of_nat p :: u32) < 0 \<or> unat (of_nat p :: u32) \<ge> CBUF_SIZE \<or> cols c = 0)"
    using p assms(1) up by (auto simp: CBUF_SIZE_def geo_ok_def)
  have ok: "geo_ok ?c" using assms(1) geoD(7)[of ?c c] by simp
  have n: "p < ncell ?c" using assms(2) by (simp add: ncell_def)
  define body where "body i = (\<lambda>j d. let ch = (if \<not> ischar (sint ch) then 63 else ch);
      k = unat ((of_nat p div cols ?c * vpixel ?c + of_nat i) * width d + of_nat p mod cols ?c * hpixel ?c + of_nat j);
      v = (if glyph_at ch i j d then 0x00FFFFFF else 0) in Some (d\<lparr>pixelbuf := (pixelbuf d)(k := v)\<rparr>))" for i
  have eq: "print_font_at ch (of_nat p) c = for_loop [0..<?V] (\<lambda>i. for_loop [0..<?H] (body i)) ?c"
    using g by (simp add: print_font_at_def up body_def Let_def)
  have inner: "\<exists>d'. for_loop [0..<?H] (body i) d = Some d' \<and> painted ?c ch p ({..<Suc i} \<times> {..<?H}) d'"
    if i: "i < ?V" and d: "painted ?c ch p ({..<i} \<times> {..<?H}) d" for i d
  proof -
    have "\<exists>d'. for_loop [0..<?H] (body i) d = Some d' \<and> painted ?c ch p ({..<i} \<times> {..<?H} \<union> {i} \<times> {..<?H}) d'"
    proof (rule for_loop_inv[where P = "\<lambda>j d. painted ?c ch p ({..<i} \<times> {..<?H} \<union> {i} \<times> {..<j}) d"])
      fix j e
      assume j: "j < ?H" and e: "painted ?c ch p ({..<i} \<times> {..<?H} \<union> {i} \<times> {..<j}) e"
      have ge: "geo e = geo ?c" using e by (auto simp: painted_def)
      have "unat ((of_nat p div cols ?c * vpixel ?c + of_nat i) * width e + of_nat p mod cols ?c * hpixel ?c + of_nat j) = pix ?c p i j"
        using pix_word[OF ok n, of i j] i j geoD(3)[OF ge] by simp
      then have "body i j e = Some (e\<lparr>pixelbuf := (pixelbuf e)(pix ?c p i j := colour ?c ch i j)\<rparr>)"
        using fun_cong[OF fun_cong[OF fun_cong[OF geoD(9)[OF ge]]], of ch i j] by (simp add: body_def Let_def colour_def)
      moreover have "{..<i} \<times> {..<?H} \<union> {i} \<times> {..<Suc j} = insert (i, j) ({..<i} \<times> {..<?H} \<union> {i} \<times> {..<j})" by auto
      moreover have "painted ?c ch p (insert (i, j) ({..<i} \<times> {..<?H} \<union> {i} \<times> {..<j}))
          (e\<lparr>pixelbuf := (pixelbuf e)(pix ?c p i j := colour ?c ch i j)\<rparr>)"
        by (rule painted_step[OF ok e]) (use i j in auto)
      ultimately show "\<exists>d'. body i j e = Some d' \<and> painted ?c ch p ({..<i} \<times> {..<?H} \<union> {i} \<times> {..<Suc j}) d'"
        by metis
    qed (use d in auto)
    moreover have "{..<i} \<times> {..<?H} \<union> {i} \<times> {..<?H} = {..<Suc i} \<times> {..<?H}" by auto
    ultimately show ?thesis by simp
  qed
  have "painted ?c ch p ({..<0} \<times> {..<?H}) ?c"
    unfolding painted_def by (intro exI[of _ "pixelbuf ?c"]) simp
  then show ?thesis unfolding eq
    by (intro for_loop_inv[where P = "\<lambda>i. painted ?c ch p ({..<i} \<times> {..<?H})"] inner) simp_all
qed

lemma text_upd: "p < ncell c \<Longrightarrow> map ((cbuf c)(p := ch)) [0..<ncell c] = (text_of c)[p := ch]"
  by (intro nth_equalityI) (simp_all add: text_of_def nth_list_update)

lemma print_font_at_ok:
  assumes "geo_ok c" and "shown c" and "p < ncell c"
  shows "\<exists>d. print_font_at ch (of_nat p) c = Some d \<and> shown d \<and> geo d = geo c \<and> ind d = ind c \<and>
    text_of d = (text_of c)[p := ch]"
proof -
  let ?c = "c\<lparr>cbuf := (cbuf c)(p := ch)\<rparr>" and ?S = "{..<unat (vpixel c)} \<times> {..<unat (hpixel c)}"
  obtain d where d: "print_font_at ch (of_nat p) c = Some d" and "painted ?c ch p ?S d"
    using print_font_at_painted[OF assms(1,3)] by blast
  then obtain m where m: "d = ?c\<lparr>pixelbuf := m\<rparr>" "\<And>i j. (i, j) \<in> ?S \<Longrightarrow> m (pix c p i j) = colour c ch i j"
    "\<And>k. (\<And>i j. (i, j) \<in> ?S \<Longrightarrow> k \<noteq> pix c p i j) \<Longrightarrow> m k = pixelbuf c k"
    unfolding painted_def using geoD(8,9)[of ?c c] by auto
  have gd: "geo d = geo c" by (simp add: m(1))
  have "pixelbuf d (pix d q i j) = colour d (cbuf d q) i j"
    if "q < ncell d" "i < unat (vpixel d)" "j < unat (hpixel d)" for q i j
  proof (cases "q = p")
    case True
    then show ?thesis using m(2)[of i j] that geoD[OF gd] by (simp add: m(1))
  next
    case False
    then have "pix c q i j \<noteq> pix c p a b" if "(a, b) \<in> ?S" for a b
      using pix_inj[OF assms(1), of q i j p a b] that \<open>i < _\<close> \<open>j < _\<close> geoD[OF gd] by auto
    then show ?thesis
      using m(3)[of "pix c q i j"] that assms(2) False geoD[OF gd] by (auto simp: m(1) shown_def)
  qed
  then have "shown d" by (simp add: shown_def)
  then show ?thesis using d gd text_upd[OF assms(3)] geoD(6)[OF gd] by (simp add: m(1) text_of_def)
qed

text \<open>The optimised scrolling loops leave the shifted text.\<close>

definition keeps :: "console \<Rightarrow> console \<Rightarrow> u8 list \<Rightarrow> bool" where
  "keeps c d t \<longleftrightarrow> shown d \<and> geo d = geo c \<and> ind d = ind c \<and> text_of d = t"

lemma keeps_print:
  assumes "geo_ok c" and "keeps c d t" and "p < ncell c"
  shows "\<exists>e. print_font_at ch (of_nat p) d = Some e \<and> keeps c e (t[p := ch])"
  using print_font_at_ok[of d p ch] assms geoD[of d c] by (auto simp: keeps_def)

lemma text_nth: "p < ncell c \<Longrightarrow> text_of c ! p = cbuf c p"
  by (simp add: text_of_def)

lemma shift_step:
  assumes "i + C < length t"
  shows "(take i (drop C t) @ drop i t)[i := t ! (i + C)] = take (Suc i) (drop C t) @ drop (Suc i) t"
proof -
  have "drop i t = t ! i # drop (Suc i) t" using assms by (simp add: Cons_nth_drop_Suc)
  moreover have "take (Suc i) (drop C t) = take i (drop C t) @ [t ! (i + C)]"
    using assms by (simp add: take_Suc_conv_app_nth add.commute)
  moreover have "length (take i (drop C t)) = i" using assms by simp
  ultimately show ?thesis by (simp add: list_update_append)
qed

lemma blank_step:
  assumes "a \<le> i" and "i < length t" and "length u = a"
  shows "(u @ replicate (i - a) x @ drop i t)[i := x] = u @ replicate (Suc i - a) x @ drop (Suc i) t"
  using assms by (intro nth_equalityI) (auto simp: nth_append nth_list_update less_Suc_eq)

lemma scroll_lines_ok:
  assumes "geo_ok c" and "keeps c c t"
  shows "\<exists>d. for_loop [0..<ncell c - unat (cols c)] scroll_line c = Some d \<and>
    keeps c d (drop (unat (cols c)) t @ drop (ncell c - unat (cols c)) t)"
proof -
  let ?C = "unat (cols c)" and ?N = "ncell c"
  have N: "?N \<le> 2073600" "?C \<le> ?N" using assms(1) by (auto simp: geo_ok_def CBUF_SIZE_def ncell_def)
  have lt: "length t = ?N" using assms(2) by (auto simp: keeps_def)
  have "\<exists>d. for_loop [0..<?N - ?C] scroll_line c = Some d \<and> keeps c d (take (?N - ?C) (drop ?C t) @ drop (?N - ?C) t)"
  proof (rule for_loop_inv[where P = "\<lambda>i d. keeps c d (take i (drop ?C t) @ drop i t)"])
    fix i d
    assume i: "i < ?N - ?C" and d: "keeps c d (take i (drop ?C t) @ drop i t)"
    have g: "geo d = geo c" using d by (simp add: keeps_def)
    have k: "unat (of_nat i + cols d) = i + ?C" using i N geoD(2)[OF g] by (simp add: unat_word_ariths unat_of_nat)
    have td: "text_of d = take i (drop ?C t) @ drop i t" using d by (simp add: keeps_def)
    have v: "cbuf d (i + ?C) = t ! (i + ?C)" "cbuf d i = (take i (drop ?C t) @ drop i t) ! i"
      using text_nth[of "i + ?C" d] text_nth[of i d] geoD(6)[OF g] i td lt by (auto simp: nth_append)
    have st: "(take i (drop ?C t) @ drop i t)[i := t ! (i + ?C)] = take (Suc i) (drop ?C t) @ drop (Suc i) t"
      using shift_step[of i ?C t] i lt by simp
    have cb: "\<not> (i \<ge> CBUF_SIZE \<or> i + ?C \<ge> CBUF_SIZE)" using i N unfolding CBUF_SIZE_def by linarith
    show "\<exists>d'. scroll_line i d = Some d' \<and> keeps c d' (take (Suc i) (drop ?C t) @ drop (Suc i) t)"
    proof (cases "cbuf d i = cbuf d (i + ?C)")
      case True
      then have "take i (drop ?C t) @ drop i t = take (Suc i) (drop ?C t) @ drop (Suc i) t"
        using st v by (metis list_update_id)
      then show ?thesis using True cb d k by (simp add: scroll_line_def)
    next
      case False
      then show ?thesis using keeps_print[OF assms(1) d, of i "t ! (i + ?C)"] cb i k st v by (simp add: scroll_line_def)
    qed
  qed (use assms(2) in auto)
  then show ?thesis using lt by simp
qed

lemma blank_lines_ok:
  assumes "geo_ok c" and "keeps c d (u @ drop a t)" and "length u = a" and "a \<le> ncell c" and "length t = ncell c"
  shows "\<exists>e. for_loop [a..<ncell c] blank_line d = Some e \<and> keeps c e (u @ replicate (ncell c - a) 32)"
proof -
  let ?N = "ncell c"
  have "\<exists>e. for_loop [a..<?N] blank_line d = Some e \<and> keeps c e (u @ replicate (?N - a) 32 @ drop ?N t)"
  proof (rule for_loop_inv[where P = "\<lambda>i d. keeps c d (u @ replicate (i - a) 32 @ drop i t)"])
    fix i d
    let ?t = "u @ replicate (i - a) 32 @ drop i t"
    assume i: "a \<le> i" "i < ?N" and d: "keeps c d ?t"
    have g: "geo d = geo c" and td: "text_of d = ?t" using d by (simp_all add: keeps_def)
    have v: "cbuf d i = ?t ! i" using text_nth[of i d] geoD(6)[OF g] i td by simp
    have st: "?t[i := 32] = u @ replicate (Suc i - a) 32 @ drop (Suc i) t"
      using blank_step[OF i(1), of t u] i assms(3,5) by simp
    have cb: "\<not> i \<ge> CBUF_SIZE" using i assms(1) by (simp add: geo_ok_def)
    show "\<exists>e. blank_line i d = Some e \<and> keeps c e (u @ replicate (Suc i - a) 32 @ drop (Suc i) t)"
    proof (cases "cbuf d i = 32")
      case True
      then have "?t = u @ replicate (Suc i - a) 32 @ drop (Suc i) t" using st v by (metis list_update_id)
      then show ?thesis using True cb d by (simp add: blank_line_def)
    next
      case False
      then show ?thesis using keeps_print[OF assms(1) d i(2), of 32] cb st by (simp add: blank_line_def)
    qed
  qed (use assms in auto)
  then show ?thesis using assms(5) by simp
qed

lemma terminal_keeps:
  assumes "terminal c (t, k)" and "keeps c d u" and "unat k' \<le> ncell c"
  shows "terminal (d\<lparr>ind := k'\<rparr>) (u, unat k')"
  using assms geoD[of d c] geoD[of "d\<lparr>ind := k'\<rparr>" c]
  by (auto simp: terminal_def keeps_def shown_def text_of_def)

lemma terminal_keeps': "terminal c (t, k) \<Longrightarrow> keeps c d u \<Longrightarrow> terminal d (u, k)"
  using geoD[of d c] by (auto simp: terminal_def keeps_def)

lemma scroll_ok:
  assumes "terminal c (t, ncell c)"
  shows "\<exists>d. scroll c = Some d \<and> terminal d (drop (unat (cols c)) t @ replicate (unat (cols c)) 32, ncell c - unat (cols c)) \<and>
    geo d = geo c"
proof -
  let ?C = "unat (cols c)" and ?N = "ncell c"
  have ok: "geo_ok c" and k0: "keeps c c t" and i: "unat (ind c) = ?N" and lt: "length t = ?N"
    using assms by (auto simp: terminal_def keeps_def)
  have N: "?N \<le> 2073600" "?C \<le> ?N" "0 < ?C" and R: "rows c \<noteq> 0"
    using ok by (auto simp: geo_ok_def CBUF_SIZE_def ncell_def)
  have b: "unat (rows c * cols c) = ?N" using N by (simp add: unat_word_ariths ncell_def)
  have "unat ((rows c - 1) * cols c) = (unat (rows c) - 1) * ?C mod 2 ^ 32"
    using unat_minus_one[OF R] by (simp add: unat_word_ariths)
  moreover have "(unat (rows c) - 1) * ?C = ?N - ?C" by (simp add: ncell_def diff_mult_distrib)
  ultimately have a: "unat ((rows c - 1) * cols c) = ?N - ?C" using N by simp
  obtain d1 where d1: "for_loop [0..<?N - ?C] scroll_line c = Some d1" "keeps c d1 (drop ?C t @ drop (?N - ?C) t)"
    using scroll_lines_ok[OF ok k0] by blast
  obtain d where d: "for_loop [?N - ?C..<?N] blank_line d1 = Some d" "keeps c d (drop ?C t @ replicate ?C 32)"
    using blank_lines_ok[OF ok d1(2)] lt N by auto
  have k: "unat (ind d - cols d) = ?N - ?C"
    using d(2) i N geoD(2)[of d c] by (simp add: keeps_def unat_sub_if')
  have "scroll c = Some (d\<lparr>ind := ind d - cols d\<rparr>)" using d1(1) d(1) by (simp add: scroll_def a b)
  then show ?thesis using terminal_keeps[OF assms d(2), of "ind d - cols d"] k d(2) by (simp add: keeps_def)
qed

lemma next_multiple:
  assumes "0 < (m :: nat)" and "Suc k mod m \<noteq> 0"
  shows "(Suc k div m + 1) * m = (k div m + 1) * m"
  using assms by (simp add: div_Suc mod_Suc split: if_splits)

lemma next_multiple_0:
  assumes "0 < (m :: nat)" and "Suc k mod m = 0"
  shows "(k div m + 1) * m = Suc k"
proof -
  have "Suc k div m * m = Suc k" using div_mult_mod_eq[of "Suc k" m] assms(2) by simp
  moreover have "Suc k div m = Suc (k div m)" using assms(2) by (simp add: div_Suc)
  ultimately show ?thesis by simp
qed

lemma next_multiple_less: "0 < (m :: nat) \<Longrightarrow> k < (k div m + 1) * m"
proof -
  assume "0 < m"
  then have "k mod m < m" by simp
  moreover have "k = k div m * m + k mod m" by simp
  moreover have "(k div m + 1) * m = k div m * m + m" by simp
  ultimately show "k < (k div m + 1) * m" by linarith
qed

lemma blank_more:
  assumes "k < length t" and "Suc k < e"
  shows "take (Suc k) (t[k := x]) @ replicate (e - Suc k) x @ drop e (t[k := x]) = take k t @ replicate (e - k) x @ drop e t"
proof -
  have "replicate (e - k) x = x # replicate (e - Suc k) x"
    using assms(2) by (metis Suc_diff_Suc Suc_lessD replicate_Suc)
  then show ?thesis using assms by (simp add: take_Suc_conv_app_nth)
qed

lemma blank_to_ok:
  assumes "terminal c (t, k)" and "0 < unat m" and "(k div unat m + 1) * unat m \<le> ncell c"
  shows "\<exists>d. blank_to m c = Some d \<and> terminal d (term_blank (unat m) (t, k)) \<and> geo d = geo c"
  using assms
proof (induction "ncell c - k" arbitrary: c t k rule: less_induct)
  case less
  let ?m = "unat m" and ?e = "(k div unat m + 1) * unat m"
  have ok: "geo_ok c" and ks: "keeps c c t" and k: "unat (ind c) = k" "of_nat k = ind c" and lt: "length t = ncell c"
    using less.prems(1) by (auto simp: terminal_def keeps_def)
  have ke: "k < ?e" using next_multiple_less[OF less.prems(2)] .
  then have kn: "k < ncell c" using less.prems(3) by linarith
  have N: "ncell c \<le> 2073600" using ok by (simp add: geo_ok_def CBUF_SIZE_def)
  obtain d where d: "print_font_at 32 (ind c) c = Some d" "keeps c d (t[k := 32])"
    using keeps_print[OF ok ks kn, of 32] k(2) by auto
  have k1: "unat (ind c + 1) = Suc k" using k(1) kn N by (simp add: unat_word_ariths)
  define d1 where "d1 = d\<lparr>ind := ind c + 1\<rparr>"
  have T: "terminal d1 (t[k := 32], Suc k)"
    unfolding d1_def using terminal_keeps[OF less.prems(1) d(2), of "ind c + 1"] k1 kn by simp
  have g: "geo d1 = geo c" using d(2) by (simp add: d1_def keeps_def)
  have m: "(ind c + 1) mod m = 0 \<longleftrightarrow> Suc k mod ?m = 0" using k1 by (simp add: word_unat_eq_iff unat_mod)
  have st: "blank_to m c = (if Suc k mod ?m \<noteq> 0 then blank_to m d1 else Some d1)"
    using kn N k(1) less.prems(2) d(1) m by (subst blank_to.simps) (auto simp: CBUF_SIZE_def d1_def)
  have tk: "t[k := 32] = take k t @ 32 # drop (Suc k) t" using kn lt by (simp add: upd_conv_take_nth_drop)
  show ?case
  proof (cases "Suc k mod ?m = 0")
    case True
    then have "term_blank ?m (t, k) = (t[k := 32], Suc k)"
      using next_multiple_0[OF less.prems(2) True] tk by (simp add: term_blank_def Let_def)
    then show ?thesis using st True T g by simp
  next
    case False
    have e: "(Suc k div ?m + 1) * ?m = ?e" by (rule next_multiple[OF less.prems(2) False])
    have "Suc k < ?e" using next_multiple_less[OF less.prems(2), of "Suc k"] unfolding e .
    then have "term_blank ?m (t[k := 32], Suc k) = term_blank ?m (t, k)"
      unfolding term_blank_def Let_def prod.case e using blank_more[of k t ?e 32] kn lt by simp
    moreover have "\<exists>d. blank_to m d1 = Some d \<and> terminal d (term_blank ?m (t[k := 32], Suc k)) \<and> geo d = geo d1"
      using less.hyps[of d1 "Suc k" "t[k := 32]"] T less.prems(2,3) e kn geoD(6)[OF g] by simp
    ultimately show ?thesis using st False g by simp
  qed
qed

lemma length_term_scroll:
  "C \<le> length t \<Longrightarrow> length (fst (term_scroll C (t, k))) = length t"
  by (simp add: term_scroll_def)

lemma console_put_ok:
  assumes "terminal c (t, k)" and "k < ncell c" and "ch = 8 \<Longrightarrow> 0 < k" and "ch = 9 \<Longrightarrow> 4 dvd ncell c"
  shows "\<exists>d. (if ch = 10 then blank_to (cols c) c
     else if ch = 8 then let c = c\<lparr>ind := ind c - 1\<rparr> in print_font_at 32 (ind c) c
     else if ch = 13 then if cols c = 0 then None else Some (c\<lparr>ind := ind c - ind c mod cols c\<rparr>)
     else if ch = 9 then blank_to TAB_SIZE c
     else do { c \<leftarrow> print_font_at ch (ind c) c; Some (c\<lparr>ind := ind c + 1\<rparr>) }) = Some d \<and>
     terminal d (term_put (unat (cols c)) ch (t, k)) \<and> geo d = geo c"
proof -
  let ?C = "unat (cols c)"
  have ok: "geo_ok c" and ks: "keeps c c t" and k: "unat (ind c) = k" "of_nat k = ind c" and lt: "length t = ncell c"
    using assms(1) by (auto simp: terminal_def keeps_def)
  have N: "ncell c \<le> 2073600" and C: "0 < ?C" using ok by (auto simp: geo_ok_def CBUF_SIZE_def)
  have dvd: "(k div m + 1) * m \<le> ncell c" if dv: "m dvd ncell c" and "0 < m" for m
  proof -
    obtain q where q: "ncell c = m * q" using dv unfolding dvd_def by blast
    then have "k div m < q" using assms(2) by (simp add: less_mult_imp_div_less mult.commute)
    then have "(k div m + 1) * m \<le> q * m" by (intro mult_le_mono1) simp
    then show ?thesis using q by (simp add: mult.commute)
  qed
  consider "ch = 10" | "ch = 8" | "ch = 13" | "ch = 9" | "ch \<notin> {10, 8, 13, 9}" by blast
  then show ?thesis
  proof cases
    case 1
    then show ?thesis using blank_to_ok[OF assms(1) C] dvd[of ?C] C by (simp add: term_put_def ncell_def)
  next
    case 2
    then have k1: "unat (ind c - 1) = k - 1" using assms(3) k(1) unat_minus_one[of "ind c"] by (cases "ind c = 0") auto
    let ?c = "c\<lparr>ind := ind c - 1\<rparr>"
    have T: "terminal ?c (t, k - 1)" using terminal_keeps[OF assms(1) ks, of "ind c - 1"] k1 assms(2) by simp
    have "(of_nat (k - 1) :: u32) = ind c - 1" unfolding k1[symmetric] by simp
    moreover have "geo_ok ?c" "keeps ?c ?c t" "k - 1 < ncell ?c"
      using T assms(2) geoD(6)[of ?c c] by (auto simp: terminal_def keeps_def)
    ultimately obtain d where "print_font_at 32 (ind c - 1) ?c = Some d" "keeps ?c d (t[k - 1 := 32])"
      using keeps_print[of ?c ?c t "k - 1" 32] by auto
    then show ?thesis
      using 2 terminal_keeps'[OF T, of d "t[k - 1 := 32]"] by (auto simp: term_put_def Let_def keeps_def)
  next
    case 3
    have "unat (ind c - ind c mod cols c) = k - k mod ?C"
      using k(1) by (simp add: unat_sub_if' unat_mod word_mod_less_divisor)
    then show ?thesis using 3 C terminal_keeps[OF assms(1) ks, of "ind c - ind c mod cols c"] assms(2)
      by (auto simp: term_put_def)
  next
    case 4
    then show ?thesis using blank_to_ok[OF assms(1), of TAB_SIZE] dvd[of 4] assms(4) by (simp add: term_put_def TAB_SIZE_def)
  next
    case 5
    obtain d where d: "print_font_at ch (ind c) c = Some d" "keeps c d (t[k := ch])"
      using keeps_print[OF ok ks assms(2), of ch] k(2) by auto
    have "unat (ind d + 1) = k + 1" using d(2) k(1) assms(2) N by (simp add: keeps_def unat_word_ariths)
    then show ?thesis using 5 d terminal_keeps[OF assms(1) d(2), of "ind d + 1"] assms(2)
      by (auto simp: term_put_def keeps_def)
  qed
qed

text \<open>
  C24: The console is a text terminal.  On a screen whose pixels show the text \<open>t\<close> with the cursor at \<open>k\<close>,
  \<^verbatim>\<open>console_putch\<close> returns and leaves the text and cursor of \<open>term_putch\<close>, again with every pixel of every
  cell showing its character.  The scrolling loops that repaint only the cells that change are thus
  equivalent to moving all lines up.  A backspace needs a character before the cursor and a tab a
  screen whose number of cells is a multiple of 4.
\<close>
theorem console_putch_terminal:
  assumes "terminal c (t, k)" and "ch = 8 \<Longrightarrow> 0 < snd (term_scroll (unat (cols c)) (t, k))"
    and "ch = 9 \<Longrightarrow> 4 dvd length t"
  shows "\<exists>d. console_putch ch c = Some d \<and> terminal d (term_putch (unat (cols c)) ch (t, k)) \<and> geo d = geo c"
proof -
  let ?C = "unat (cols c)"
  have ok: "geo_ok c" and lt: "length t = ncell c" and k: "k = unat (ind c)" "k \<le> ncell c"
    using assms(1) by (auto simp: terminal_def)
  have n: "unat (rows c * cols c) = ncell c" using ok by (simp add: unat_word_ariths ncell_def geo_ok_def CBUF_SIZE_def)
  have C: "0 < ?C" "?C \<le> ncell c" using ok by (auto simp: geo_ok_def ncell_def)
  obtain d u l where d: "(if ind c = rows c * cols c then scroll c else Some c) = Some d" "terminal d (u, l)"
    "term_scroll ?C (t, k) = (u, l)" "l < ncell c" "geo d = geo c"
  proof (cases "k = ncell c")
    case True
    then have "ind c = rows c * cols c" using k n by (simp add: word_unat_eq_iff)
    then show ?thesis using that scroll_ok[of c t] assms(1) True lt C by (auto simp: term_scroll_def)
  next
    case False
    then have "ind c \<noteq> rows c * cols c" using k n by auto
    then show ?thesis using that[of c t k] assms(1) False lt k by (simp add: term_scroll_def)
  qed
  note g = geoD[OF d(5)]
  show ?thesis
    using console_put_ok[OF d(2), of ch] d g assms(2,3) lt
    unfolding console_putch_def term_putch_def d(1) d(3) by simp
qed

text \<open>A concrete screen of 2 lines of 4 one-pixel characters, filled with \<open>x\<close>, the cursor behind the last cell.\<close>

definition ex_con :: console where
  "ex_con = \<lparr>ind = 8, rows = 2, cols = 4, height = 2, width = 4, hpixel = 1, vpixel = 1, bytes_per_glyph = 1,
     cbuf = (\<lambda>_. 120), pixelbuf = (\<lambda>_. 0x00FFFFFF), font = (\<lambda>_. 255)\<rparr>"

theorem console_putch_terminal_witness:
  "\<exists>d. console_putch 65 ex_con = Some d \<and> terminal d ([120, 120, 120, 120, 65, 32, 32, 32], 5)"
proof -
  have "text_of ex_con = [120, 120, 120, 120, 120, 120, 120, 120]" by (simp add: text_of_def ex_con_def ncell_def upt_rec)
  moreover have "shown ex_con"
    by (simp add: shown_def ex_con_def colour_def glyph_at_def ischar_def bit_simps)
  ultimately have t: "terminal ex_con ([120, 120, 120, 120, 120, 120, 120, 120], 8)"
    by (simp add: terminal_def geo_ok_def ncell_def CBUF_SIZE_def) (simp add: ex_con_def)
  have "term_putch 4 65 ([120, 120, 120, 120, 120, 120, 120, 120], 8) = ([120, 120, 120, 120, 65, 32, 32, 32], 5)" by code_simp
  moreover have "unat (cols ex_con) = 4" by (simp add: ex_con_def)
  ultimately show ?thesis using console_putch_terminal[OF t, of 65] by auto
qed

text \<open>
  C25: A backspace in the upper left corner leaves the screen: the cursor, an unsigned number, wraps around
  and \<^verbatim>\<open>cbuf\<close> is indexed with -1.
\<close>
theorem console_backspace_wraps:
  assumes "terminal c (t, 0)"
  shows "console_putch 8 c = None \<and> ind c - 1 = 0xFFFFFFFF"
proof -
  have i: "ind c = 0" and "0 < ncell c" using assms by (auto simp: terminal_def geo_ok_def ncell_def unat_eq_zero)
  moreover have "unat (rows c * cols c) = ncell c"
    using assms by (simp add: terminal_def unat_word_ariths ncell_def geo_ok_def CBUF_SIZE_def)
  ultimately have "ind c \<noteq> rows c * cols c" by auto
  then show ?thesis using i by (simp add: console_putch_def print_font_at_def CBUF_SIZE_def)
qed

theorem console_backspace_wraps_witness: "console_putch 8 (ex_con\<lparr>ind := 0\<rparr>) = None"
proof -
  have "shown (ex_con\<lparr>ind := 0\<rparr>)"
    by (simp add: shown_def ex_con_def colour_def glyph_at_def ischar_def bit_simps)
  then have "terminal (ex_con\<lparr>ind := 0\<rparr>) (text_of (ex_con\<lparr>ind := 0\<rparr>), 0)"
    by (simp add: terminal_def geo_ok_def ncell_def CBUF_SIZE_def) (simp add: ex_con_def)
  from console_backspace_wraps[OF this] show ?thesis by simp
qed

end
