(* ===== verification/Dev.thy ===== *)
theory Dev
  imports UMem Console
begin

text \<open>
  The devices of the kernel: the disks of \<^verbatim>\<open>kernel/fs/disk.h\<close>, the AHCI controller of
  \<^verbatim>\<open>kernel/pcie/sata.h\<close>, the mounted file system of \<^verbatim>\<open>kernel/fs/exfat.h\<close>, and the console and keyboard
  variables, as fields that extend the kernel state.

  The controller is hardware.  Its behaviour is the field \<open>ahci\<close>, a function that the kernel cannot
  see: given the port, the memory and the port registers at the moment the kernel sets a bit of
  \<^verbatim>\<open>PxCI\<close>, it yields memory and registers at the moment \<^verbatim>\<open>PxCI\<close> reads 0 again, and \<^term>\<open>None\<close> when that
  never happens or a task file error is raised.  Theorems about the disk state what they need of it.
  The registers of the local APIC are the array \<open>lapic\<close>.
\<close>

section \<open>Disks\<close>

record diskpart_t =
  part_name :: "u8 list"
  part_type :: u8
  fs_type :: u8
  lba_beg :: u64
  n_sec :: u64

definition DISK_UNKNOWN :: u8 where "DISK_UNKNOWN = 0"
definition DISK_SATA :: u8 where "DISK_SATA = 1"

record disk_t =
  disk_name :: "u8 list"
  driver_type :: u8
  disk_ind :: u8
  n_part :: u8
  part :: "nat \<Rightarrow> diskpart_t"

text \<open>\<^verbatim>\<open>struct FS_exFAT\<close>; the pointer \<^verbatim>\<open>part\<close> is the pair of indices of \<^verbatim>\<open>disk[did].part[pid]\<close>.\<close>

record FS_exFAT =
  fs_part :: "(nat \<times> nat) option"
  hdr :: u64
  fat :: u64
  did :: nat

section \<open>The controller's registers\<close>

record sata_port_regs =
  clb :: u32
  clbu :: u32
  fb :: u32
  fbu :: u32
  p_is :: u32
  p_ie :: u32
  p_cmd :: u32
  p_tfd :: u32
  p_sig :: u32
  p_ssts :: u32
  p_sctl :: u32
  p_serr :: u32
  p_sact :: u32
  p_ci :: u32

type_synonym ahci_dev = "nat \<Rightarrow> bytes \<Rightarrow> sata_port_regs \<Rightarrow> (bytes \<times> sata_port_regs) option"

section \<open>The state\<close>

record dstate = kstate +
  con :: console
  kbd_shift :: u32
  n_disk :: nat
  disk :: "nat \<Rightarrow> disk_t"
  rtfs :: FS_exFAT
  cmd_list :: "nat \<Rightarrow> u64"
  ports :: "nat \<Rightarrow> sata_port_regs"
  read_cmd_tbl :: u64
  write_cmd_tbl :: u64
  ahci :: ahci_dev
  argv_buf :: "nat \<Rightarrow> u8"
  lapic :: "nat \<Rightarrow> u32"

definition upd_part :: "nat \<Rightarrow> nat \<Rightarrow> (diskpart_t \<Rightarrow> diskpart_t) \<Rightarrow> 'a dstate_scheme \<Rightarrow> 'a dstate_scheme" where
  "upd_part d p f s = s\<lparr>disk := (disk s)(d := (disk s d)\<lparr>part := (part (disk s d))(p := f (part (disk s d) p))\<rparr>)\<rparr>"

definition upd_port :: "nat \<Rightarrow> (sata_port_regs \<Rightarrow> sata_port_regs) \<Rightarrow> 'a dstate_scheme \<Rightarrow> 'a dstate_scheme" where
  "upd_port p f s = s\<lparr>ports := (ports s)(p := f (ports s p))\<rparr>"

abbreviation nl :: string where "nl \<equiv> [CHR 0x0A]"

definition kprintk :: "string \<Rightarrow> varg list \<Rightarrow> 'a dstate_scheme \<Rightarrow> 'a dstate_scheme option" where
  "kprintk fmt ap s = do { c \<leftarrow> printk fmt ap (con s); Some (s\<lparr>con := c\<rparr>) }"

section \<open>Addresses of cached disk blocks\<close>

definition DSKSHIFT :: nat where "DSKSHIFT = 41"

definition blk2kaddr :: "nat \<Rightarrow> u64 \<Rightarrow> u64" where
  "blk2kaddr d blk = KDISK OR push_bit DSKSHIFT (of_nat d) OR push_bit PGSHIFT blk"

definition lba2kaddr :: "nat \<Rightarrow> u64 \<Rightarrow> u64" where
  "lba2kaddr d lba = KDISK OR push_bit DSKSHIFT (of_nat d) OR push_bit (PGSHIFT - 3) lba"

section \<open>Virtual memory\<close>

primrec vstore_le :: "nat \<Rightarrow> u64 \<Rightarrow> u64 \<Rightarrow> 'a kmem_scheme \<Rightarrow> 'a kmem_scheme option" where
  "vstore_le 0 va v s = Some s"
| "vstore_le (Suc n) va v s = do { s \<leftarrow> vstore8 va (ucast v) s; vstore_le n (va + 1) (drop_bit 8 v) s }"

text \<open>\<^verbatim>\<open>memcpy\<close> of \<^verbatim>\<open>lib/string.c\<close> on virtual addresses.\<close>

definition vmemcpy :: "u64 \<Rightarrow> u64 \<Rightarrow> nat \<Rightarrow> 'a kmem_scheme \<Rightarrow> 'a kmem_scheme option" where
  "vmemcpy dst src n = for_loop [0..<n] (\<lambda>i s. do { b \<leftarrow> vload8 s (src + of_nat i); vstore8 (dst + of_nat i) b s })"

text \<open>\<^verbatim>\<open>strcmp\<close> on two arrays read through \<open>f\<close> and \<open>g\<close>, with \<open>n\<close> bytes left at index \<open>i\<close>.\<close>

primrec vstrcmp :: "(nat \<Rightarrow> u8 option) \<Rightarrow> (nat \<Rightarrow> u8 option) \<Rightarrow> nat \<Rightarrow> nat \<Rightarrow> int option" where
  "vstrcmp f g 0 i = Some 0"
| "vstrcmp f g (Suc n) i = do {
     a \<leftarrow> f i;
     b \<leftarrow> g i;
     if a \<noteq> b then Some 1 else if a = 0 then Some 0 else vstrcmp f g n (Suc i)
   }"

text \<open>A string constant as an array.\<close>

definition cstr :: "string \<Rightarrow> nat \<Rightarrow> u8 option" where
  "cstr t i = (if i < length t then Some (of_char (t ! i)) else if i = length t then Some 0 else None)"

section \<open>What memory operations and \<^verbatim>\<open>printk\<close> leave alone\<close>

lemma vstore_le_more [frame]: "vstore_le n va v s = Some s' \<Longrightarrow> kmem.more s' = kmem.more s"
  by (induction n arbitrary: va v s) (auto simp: bind_eq_Some_conv dest: vstore8_more)

lemma vmemcpy_more [frame]:
  assumes "vmemcpy dst src n s = Some s'"
  shows "kmem.more s' = kmem.more s"
  by (rule for_loop_preserves[where P = "\<lambda>u. kmem.more u = kmem.more s", OF assms[unfolded vmemcpy_def]])
    (auto simp: bind_eq_Some_conv dest: vstore8_more)

lemma kprintk_con: "kprintk fmt ap s = Some s' \<Longrightarrow> \<exists>c. s' = s\<lparr>con := c\<rparr>"
  by (auto simp: kprintk_def bind_eq_Some_conv)

end
