(* ===== verification/Sata.thy ===== *)
theory Sata
  imports Dev
begin

text \<open>
  The AHCI driver of \<^verbatim>\<open>kernel/pcie/sata.c\<close>, one command at a time, and \<^verbatim>\<open>disk_read\<close> of
  \<^verbatim>\<open>kernel/fs/disk.c\<close>, which keeps the blocks it has read mapped above \<^verbatim>\<open>KDISK\<close>.
\<close>

section \<open>Registers and structures in memory\<close>

definition ATA_COMMAND_READ_DMA_EXT :: u8 where "ATA_COMMAND_READ_DMA_EXT = 0x25"
definition ATA_COMMAND_WRITE_DMA_EXT :: u8 where "ATA_COMMAND_WRITE_DMA_EXT = 0x35"
definition FIS_TYPE_REG_H2D :: u8 where "FIS_TYPE_REG_H2D = 0x27"
definition CMDHDR_PRDTL_SHIFT :: nat where "CMDHDR_PRDTL_SHIFT = 16"
definition SIZEOF_CMD_HDR :: u64 where "SIZEOF_CMD_HDR = 32"
definition SIZEOF_REG_H2D_FIS :: u64 where "SIZEOF_REG_H2D_FIS = 20"

text \<open>The bits of \<^verbatim>\<open>PxIS\<close> are cleared by writing ones to them.\<close>

definition write_is :: "u32 \<Rightarrow> sata_port_regs \<Rightarrow> sata_port_regs" where
  "write_is v p = p\<lparr>p_is := p_is p AND NOT v\<rparr>"

definition check_port :: "sata_port_regs \<Rightarrow> bool" where
  "check_port p =
     (let ssts = p_ssts p;
          ipm = drop_bit 8 ssts AND 0x0F;
          det = ssts AND 0xF
      in if det \<noteq> 3 \<or> ipm \<noteq> 1 then False
         else p_sig p \<noteq> 0xEB140101 \<and> p_sig p \<noteq> 0xC33C0101 \<and> p_sig p \<noteq> 0x96690101)"

function find_slot :: "sata_port_regs \<Rightarrow> nat \<Rightarrow> nat" where
  "find_slot p sl =
     (if sl < 32 then if bit (p_ci p) sl \<or> bit (p_sact p) sl then find_slot p (Suc sl) else sl
      else sl)"
  by pat_completeness auto
termination by (relation "measure (\<lambda>(p, sl). 32 - sl)") auto

declare find_slot.simps [simp del]

text \<open>Stores through a pointer into the direct map.\<close>

definition kstore8 :: "u64 \<Rightarrow> u8 \<Rightarrow> 'a kmem_scheme \<Rightarrow> 'a kmem_scheme" where
  "kstore8 p v s = s\<lparr>pmem := (pmem s)(K2P p := v)\<rparr>"

definition kstore32 :: "u64 \<Rightarrow> u32 \<Rightarrow> 'a kmem_scheme \<Rightarrow> 'a kmem_scheme" where
  "kstore32 p v s = kstore8 (p + 3) (ucast (drop_bit 24 v)) (kstore8 (p + 2) (ucast (drop_bit 16 v))
     (kstore8 (p + 1) (ucast (drop_bit 8 v)) (kstore8 p (ucast v) s)))"

text \<open>The command FIS at the start of the command table, for 8 sectors from \<open>lba\<close>.\<close>

definition fill_fis :: "u64 \<Rightarrow> u8 \<Rightarrow> u64 \<Rightarrow> 'a kmem_scheme \<Rightarrow> 'a kmem_scheme" where
  "fill_fis t command lba s =
     (let s = kstore8 t FIS_TYPE_REG_H2D s;
          s = kstore8 (t + 1) (pmem s (K2P (t + 1)) OR 0x80) s;
          s = kstore8 (t + 2) command s;
          s = kstore8 (t + 4) (ucast lba) s;
          s = kstore8 (t + 5) (ucast (drop_bit 8 lba)) s;
          s = kstore8 (t + 6) (ucast (drop_bit 16 lba)) s;
          s = kstore8 (t + 7) (push_bit 6 1) s;
          s = kstore8 (t + 8) (ucast (drop_bit 24 lba)) s;
          s = kstore8 (t + 9) (ucast (drop_bit 32 lba)) s;
          s = kstore8 (t + 10) (ucast (drop_bit 40 lba)) s;
          s = kstore8 (t + 12) 8 s
      in kstore8 (t + 13) 0 s)"

text \<open>The one entry of the physical region table, at offset 0x80 of the command table.\<close>

definition fill_prdt :: "u64 \<Rightarrow> u64 \<Rightarrow> 'a kmem_scheme \<Rightarrow> 'a kmem_scheme" where
  "fill_prdt t pa s =
     (let s = kstore32 (t + 0x80) (ucast pa) s;
          s = kstore32 (t + 0x84) (ucast (drop_bit 32 pa)) s
      in kstore32 (t + 0x8C) (ucast (PGSIZE - 1)) s)"

text \<open>The command table of a direction is allocated at its first use.\<close>

definition read_tbl :: "'a dstate_scheme \<Rightarrow> (u64 \<times> 'a dstate_scheme) option" where
  "read_tbl s =
     (if read_cmd_tbl s = 0
      then do {
        (pg, s) \<leftarrow> alloc_page FLAG_ZERO s;
        pa \<leftarrow> pi_paddr s pg;
        Some (P2K pa, s\<lparr>read_cmd_tbl := P2K pa\<rparr>)
      }
      else Some (read_cmd_tbl s, s))"

definition write_tbl :: "'a dstate_scheme \<Rightarrow> (u64 \<times> 'a dstate_scheme) option" where
  "write_tbl s =
     (if write_cmd_tbl s = 0
      then do {
        (pg, s) \<leftarrow> alloc_page FLAG_ZERO s;
        pa \<leftarrow> pi_paddr s pg;
        Some (P2K pa, s\<lparr>write_cmd_tbl := P2K pa\<rparr>)
      }
      else Some (write_cmd_tbl s, s))"

text \<open>The page of block \<open>block\<close> above \<^verbatim>\<open>KDISK\<close>; a read allocates it, a write insists on it.\<close>

definition read_page :: "u64 \<Rightarrow> 'a kmem_scheme \<Rightarrow> (u64 \<times> 'a kmem_scheme) option" where
  "read_page vaddr s = do {
     ((_, pte), s) \<leftarrow> walk_pgtbl (k_pgtbl s) vaddr True s;
     e \<leftarrow> pte_load s pte;
     s \<leftarrow> (if e = 0
          then do {
            (pg, s) \<leftarrow> alloc_page FLAG_ZERO s;
            pa \<leftarrow> pi_paddr s pg;
            pte_store pte (pa OR PTE_P) s
          }
          else Some s);
     e \<leftarrow> pte_load s pte;
     Some (PAGEADDR e, s)
   }"

definition write_page :: "u64 \<Rightarrow> 'a kmem_scheme \<Rightarrow> (u64 \<times> 'a kmem_scheme) option" where
  "write_page vaddr s = do {
     ((_, pte), s) \<leftarrow> walk_pgtbl (k_pgtbl s) vaddr True s;
     e \<leftarrow> pte_load s pte;
     if e AND PTE_P = 0 then None else Some (PAGEADDR e, s)
   }"

text \<open>Setting the bit of the sl in \<^verbatim>\<open>PxCI\<close> and polling until the command is done.\<close>

definition run_cmd :: "nat \<Rightarrow> nat \<Rightarrow> 'a dstate_scheme \<Rightarrow> 'a dstate_scheme option" where
  "run_cmd port sl s = do {
     (m, r) \<leftarrow> ahci s port (pmem s) ((ports s port)\<lparr>p_ci := p_ci (ports s port) OR push_bit sl 1\<rparr>);
     if p_ci r \<noteq> 0 then None else Some (s\<lparr>pmem := m, ports := (ports s)(port := r)\<rparr>)
   }"

definition sata_block ::
    "('a dstate_scheme \<Rightarrow> (u64 \<times> 'a dstate_scheme) option) \<Rightarrow> (u64 \<Rightarrow> 'a dstate_scheme \<Rightarrow> (u64 \<times> 'a dstate_scheme) option) \<Rightarrow>
     u8 \<Rightarrow> nat \<Rightarrow> u64 \<Rightarrow> 'a dstate_scheme \<Rightarrow> (int \<times> 'a dstate_scheme) option" where
  "sata_block tbl page command d block s = do {
     let port = unat (disk_ind (disk s d));
     let s = upd_port port (write_is 0xFFFF) s;
     let sl = find_slot (ports s port) 0;
     if sl = 32 then None
     else do {
       let cmd_hdr = cmd_list s port + of_nat sl * SIZEOF_CMD_HDR;
       (cmd_tbl, s) \<leftarrow> tbl s;
       s \<leftarrow> vstore_le 4 (cmd_hdr + 8) cmd_tbl s;
       s \<leftarrow> vstore_le 4 (cmd_hdr + 12) (drop_bit 32 (K2P cmd_tbl)) s;
       let s = fill_fis cmd_tbl command (block * 8) s;
       (pa, s) \<leftarrow> page (blk2kaddr d block) s;
       let s = fill_prdt cmd_tbl pa s;
       let dw0 = push_bit CMDHDR_PRDTL_SHIFT 1 OR SIZEOF_REG_H2D_FIS div 4;
       s \<leftarrow> vstore_le 4 (cmd_hdr + of_nat sl * SIZEOF_CMD_HDR) dw0 s;
       s \<leftarrow> vstore_le 4 (cmd_hdr + of_nat sl * SIZEOF_CMD_HDR + 4) 0 s;
       s \<leftarrow> run_cmd port sl s;
       Some (0, s)
     }
   }"

definition sata_read_block :: "nat \<Rightarrow> u64 \<Rightarrow> 'a dstate_scheme \<Rightarrow> (int \<times> 'a dstate_scheme) option" where
  "sata_read_block = sata_block read_tbl read_page ATA_COMMAND_READ_DMA_EXT"

definition sata_write_block :: "nat \<Rightarrow> u64 \<Rightarrow> 'a dstate_scheme \<Rightarrow> (int \<times> 'a dstate_scheme) option" where
  "sata_write_block = sata_block write_tbl write_page ATA_COMMAND_WRITE_DMA_EXT"

section \<open>Reading sectors\<close>

text \<open>
  The loop of \<^verbatim>\<open>disk_read\<close> with \<open>k\<close> iterations left.  An iteration whose block is mapped already
  continues \<^emph>\<open>without\<close> advancing \<^verbatim>\<open>lba\<close>.
\<close>

primrec disk_read_loop :: "nat \<Rightarrow> nat \<Rightarrow> u64 \<Rightarrow> 'a dstate_scheme \<Rightarrow> (int \<times> 'a dstate_scheme) option" where
  "disk_read_loop 0 d lba s = Some (0, s)"
| "disk_read_loop (Suc k) d lba s = do {
     ((r, pte), s) \<leftarrow> walk_pgtbl (k_pgtbl s) (lba2kaddr d lba) False s;
     present \<leftarrow> (if r = 0 then map_option (\<lambda>e. e AND PTE_P \<noteq> 0) (pte_load s pte) else Some False);
     if present then disk_read_loop k d lba s
     else do {
       (r, s) \<leftarrow> sata_read_block d (lba div 8) s;
       if r < 0 then Some (r, s) else disk_read_loop k d (lba + 8) s
     }
   }"

definition disk_read :: "nat \<Rightarrow> u64 \<Rightarrow> int \<Rightarrow> 'a dstate_scheme \<Rightarrow> (int \<times> 'a dstate_scheme) option" where
  "disk_read d lba n s =
     (if d \<ge> n_disk s then None
      else if driver_type (disk s d) = DISK_SATA
      then disk_read_loop (nat ((n - 1) sdiv 8 + 1)) d lba s
      else do {
        s \<leftarrow> kprintk (''disk_read_lba(): unknown disk driver type %d.'' @ nl) [Slot (ucast (driver_type (disk s d)))] s;
        Some (- 1, s)
      })"

end
