(* ===== verification/Exfat.thy ===== *)
theory Exfat
  imports Sata
begin

text \<open>
  The exFAT reader of \<^verbatim>\<open>kernel/fs/exfat.c\<close> and the file system interface of \<^verbatim>\<open>kernel/fs/fs.c\<close>.

  A path is an array that the code reads byte by byte, through whatever pointer the caller has; it is
  a function of the state and the index.  A cluster of \<open>2 ^ 31\<close> bytes or more would overflow the \<^verbatim>\<open>int\<close>
  that holds its size and is \<^term>\<open>None\<close> (the format allows \<open>2 ^ 25\<close> at most).  The search loops
  have no bound of their own and are partial functions.
\<close>

section \<open>On-disk structures\<close>

definition fat_offset :: "'a kmem_scheme \<Rightarrow> u64 \<Rightarrow> u64 option" where "fat_offset s h = vload_le 4 s (h + 80)"
definition cluster_heap_offset :: "'a kmem_scheme \<Rightarrow> u64 \<Rightarrow> u64 option" where
  "cluster_heap_offset s h = vload_le 4 s (h + 88)"
definition rtdir_cluster :: "'a kmem_scheme \<Rightarrow> u64 \<Rightarrow> u64 option" where "rtdir_cluster s h = vload_le 4 s (h + 96)"
definition byte_per_sec_shift :: "'a kmem_scheme \<Rightarrow> u64 \<Rightarrow> u64 option" where
  "byte_per_sec_shift s h = vload_le 1 s (h + 108)"
definition sec_per_clus_shift :: "'a kmem_scheme \<Rightarrow> u64 \<Rightarrow> u64 option" where
  "sec_per_clus_shift s h = vload_le 1 s (h + 109)"

definition SIZEOF_DIR_ENTRY :: nat where "SIZEOF_DIR_ENTRY = 32"
definition NO_FAT_CHAIN :: u64 where "NO_FAT_CHAIN = 0x02"

text \<open>The fields of the 32-byte directory entries: file, stream extension and file name.\<close>

definition entry_type :: "'a kmem_scheme \<Rightarrow> u64 \<Rightarrow> u64 option" where "entry_type s e = vload_le 1 s e"
definition file_attr :: "'a kmem_scheme \<Rightarrow> u64 \<Rightarrow> u64 option" where "file_attr s e = vload_le 2 s (e + 4)"
definition secondary_flags :: "'a kmem_scheme \<Rightarrow> u64 \<Rightarrow> u64 option" where "secondary_flags s e = vload_le 1 s (e + 1)"
definition name_len :: "'a kmem_scheme \<Rightarrow> u64 \<Rightarrow> u64 option" where "name_len s e = vload_le 1 s (e + 3)"
definition valid_data_len :: "'a kmem_scheme \<Rightarrow> u64 \<Rightarrow> u64 option" where "valid_data_len s e = vload_le 8 s (e + 8)"
definition first_clus :: "'a kmem_scheme \<Rightarrow> u64 \<Rightarrow> u64 option" where "first_clus s e = vload_le 4 s (e + 20)"
definition file_name :: "'a kmem_scheme \<Rightarrow> u64 \<Rightarrow> nat \<Rightarrow> u64 option" where
  "file_name s e k = vload_le 2 s (e + 2 + 2 * of_nat k)"

section \<open>The mounted file system\<close>

definition rt_part :: "'a dstate_scheme \<Rightarrow> diskpart_t option" where
  "rt_part s = map_option (\<lambda>(d, p). part (disk s d) p) (fs_part (rtfs s))"

text \<open>\<^verbatim>\<open>EXFAT_CLUS2LBA\<close> with the cluster number already reduced by 2 and shifted.\<close>

definition heap_lba :: "'a dstate_scheme \<Rightarrow> u64 \<Rightarrow> u64 option" where
  "heap_lba s off = do {
     p \<leftarrow> rt_part s;
     h \<leftarrow> cluster_heap_offset s (hdr (rtfs s));
     Some (lba_beg p + h + off)
   }"

definition EXFAT_CLUS2LBA :: "'a dstate_scheme \<Rightarrow> u32 \<Rightarrow> u64 option" where
  "EXFAT_CLUS2LBA s clus = do {
     k \<leftarrow> sec_per_clus_shift s (hdr (rtfs s));
     heap_lba s (ucast (push_bit (unat k) (clus - 2)))
   }"

text \<open>The same macro at a cluster number of type \<^verbatim>\<open>int\<close>.\<close>

definition EXFAT_CLUS2LBA_int :: "'a dstate_scheme \<Rightarrow> u32 \<Rightarrow> u64 option" where
  "EXFAT_CLUS2LBA_int s clus = do {
     k \<leftarrow> sec_per_clus_shift s (hdr (rtfs s));
     heap_lba s (scast (push_bit (unat k) (clus - 2)))
   }"

definition clus_sectors :: "'a dstate_scheme \<Rightarrow> int option" where
  "clus_sectors s = map_option (\<lambda>k. push_bit (unat k) 1) (sec_per_clus_shift s (hdr (rtfs s)))"

definition clus_size :: "'a dstate_scheme \<Rightarrow> nat option" where
  "clus_size s = do {
     b \<leftarrow> byte_per_sec_shift s (hdr (rtfs s));
     c \<leftarrow> sec_per_clus_shift s (hdr (rtfs s));
     if unat b + unat c < 31 then Some (2 ^ (unat b + unat c)) else None
   }"

definition init_fs_exfat :: "'a dstate_scheme \<Rightarrow> 'a dstate_scheme option" where
  "init_fs_exfat s = do {
     p \<leftarrow> rt_part s;
     let s = s\<lparr>rtfs := (rtfs s)\<lparr>hdr := lba2kaddr (did (rtfs s)) (lba_beg p)\<rparr>\<rparr>;
     fo \<leftarrow> fat_offset s (hdr (rtfs s));
     let s = s\<lparr>rtfs := (rtfs s)\<lparr>fat := lba2kaddr (did (rtfs s)) (lba_beg p + fo)\<rparr>\<rparr>;
     spc \<leftarrow> sec_per_clus_shift s (hdr (rtfs s));
     bps \<leftarrow> byte_per_sec_shift s (hdr (rtfs s));
     kprintk (''init fs exfat, fat %p, part_lbabeg %ld, fat_offset %d, sec_per_clus_shift %d, bytes_per_sec_shift %d'' @ nl)
       [Slot (fat (rtfs s)), Slot (lba_beg p), Slot fo, Slot spc, Slot bps] s
   }"

definition get_fat_at :: "u32 \<Rightarrow> 'a dstate_scheme \<Rightarrow> (u32 \<times> 'a dstate_scheme) option" where
  "get_fat_at i s = do {
     p \<leftarrow> rt_part s;
     fo \<leftarrow> fat_offset s (hdr (rtfs s));
     (_, s) \<leftarrow> disk_read (did (rtfs s)) (lba_beg p + fo + ucast (drop_bit 9 (i * 4))) 1 s;
     v \<leftarrow> vload_le 4 s (fat (rtfs s) + 4 * ucast i);
     Some (ucast v, s)
   }"

definition to_upper_case :: "u8 \<Rightarrow> u8" where
  "to_upper_case c = (if 97 \<le> c \<and> c \<le> 122 then c + (65 - 97) else c)"

definition cmp_fn :: "u8 \<Rightarrow> u16 \<Rightarrow> bool" where
  "cmp_fn c1 c2 \<longleftrightarrow> to_upper_case c1 \<noteq> to_upper_case (ucast c2)"

record exfat_dir_file =
  clus_id :: u32
  dir_use_fat :: bool
  is_dir :: bool
  dir_file_len :: u64

text \<open>
  Reading the cluster that comes next: the address of its first entry, and \<^verbatim>\<open>cur_dir\<close> moved on along
  the FAT or to the cluster behind it.
\<close>

definition next_clus :: "exfat_dir_file \<Rightarrow> 'a dstate_scheme \<Rightarrow> ((u64 \<times> exfat_dir_file) \<times> 'a dstate_scheme) option" where
  "next_clus cur s = do {
     lba \<leftarrow> EXFAT_CLUS2LBA s (clus_id cur);
     n \<leftarrow> clus_sectors s;
     (_, s) \<leftarrow> disk_read (did (rtfs s)) lba n s;
     lba \<leftarrow> EXFAT_CLUS2LBA s (clus_id cur);
     let dir = lba2kaddr (did (rtfs s)) lba;
     if dir_use_fat cur
     then do { (c, s) \<leftarrow> get_fat_at (clus_id cur) s; Some ((dir, cur\<lparr>clus_id := c\<rparr>), s) }
     else Some ((dir, cur\<lparr>clus_id := clus_id cur + 1\<rparr>), s)
   }"

section \<open>Looking up a name in a directory\<close>

text \<open>The local variables that survive an iteration of \<^verbatim>\<open>exfat_walk_dir\<close>.\<close>

record walk_loc =
  name_ptr :: nat
  name_dismatch :: bool
  w_clus_id :: u32
  w_use_fat :: bool
  fn_len :: nat
  w_is_dir :: bool
  data_len :: u64

text \<open>The comparison loop over the (at most 15) characters of a file name entry, from index \<open>k\<close>.\<close>

function cmp_name :: "(nat \<Rightarrow> u8) \<Rightarrow> nat \<Rightarrow> nat \<Rightarrow> (nat \<Rightarrow> u16) \<Rightarrow> nat \<Rightarrow> nat \<Rightarrow> bool \<Rightarrow> nat \<times> bool" where
  "cmp_name name nlen flen fn k ptr dis =
     (if \<not> dis \<and> k < 15 \<and> ptr < flen \<and> ptr < nlen
      then cmp_name name nlen flen fn (Suc k) (Suc ptr) (cmp_fn (name ptr) (fn k))
      else (ptr, dis))"
  by pat_completeness auto
termination by (relation "measure (\<lambda>(name, nlen, flen, fn, k, ptr, dis). 15 - k)") auto

declare cmp_name.simps [simp del]

text \<open>The 15 characters of an entry.\<close>

definition fn_chars :: "'a kmem_scheme \<Rightarrow> u64 \<Rightarrow> (nat \<Rightarrow> u16) option" where
  "fn_chars s e = do {
     xs \<leftarrow> those (map (file_name s e) [0..<15]);
     Some (\<lambda>k. ucast (xs ! k))
   }"

text \<open>One directory entry: the new locals, and whether the search ends (\<^term>\<open>Some True\<close> for a match).\<close>

definition walk_entry ::
    "(nat \<Rightarrow> u8) \<Rightarrow> nat \<Rightarrow> u64 \<Rightarrow> walk_loc \<Rightarrow> 'a kmem_scheme \<Rightarrow> (walk_loc \<times> bool option) option" where
  "walk_entry name nlen e l s = do {
     t \<leftarrow> entry_type s e;
     if t = 0x00 then Some (l, Some False)
     else if t = 0x85 then do {
       a \<leftarrow> file_attr s e;
       Some (l\<lparr>name_ptr := 0, name_dismatch := False, w_is_dir := bit a 4\<rparr>, None)
     }
     else if t = 0xC0 then do {
       c \<leftarrow> first_clus s e;
       n \<leftarrow> name_len s e;
       v \<leftarrow> valid_data_len s e;
       f \<leftarrow> secondary_flags s e;
       Some (l\<lparr>w_clus_id := ucast c, fn_len := unat n, data_len := v, w_use_fat := (f AND NO_FAT_CHAIN = 0)\<rparr>, None)
     }
     else if t = 0xC1 then do {
       fn \<leftarrow> fn_chars s e;
       let (ptr, dis) = cmp_name name nlen (fn_len l) fn 0 (name_ptr l) (name_dismatch l);
       let l = l\<lparr>name_ptr := ptr, name_dismatch := dis\<rparr>;
       Some (l, if \<not> dis \<and> ptr = fn_len l \<and> ptr = nlen then Some True else None)
     }
     else Some (l, None)
   }"

definition enter :: "walk_loc \<Rightarrow> exfat_dir_file" where
  "enter l = \<lparr>clus_id = w_clus_id l, dir_use_fat = w_use_fat l, is_dir = w_is_dir l, dir_file_len = data_len l\<rparr>"

partial_function (option) walk_dir_loop ::
    "(nat \<Rightarrow> u8) \<Rightarrow> nat \<Rightarrow> nat \<Rightarrow> nat \<Rightarrow> u64 \<Rightarrow> walk_loc \<Rightarrow> exfat_dir_file \<Rightarrow> 'a dstate_scheme \<Rightarrow>
     ((int \<times> exfat_dir_file) \<times> 'a dstate_scheme) option" where
  "walk_dir_loop name nlen per i dir l cur s =
     (if i mod per = 0 \<and> clus_id cur = 0xFFFFFFFF then Some ((- 1, cur), s)
      else do {
        ((dir, cur), s) \<leftarrow> (if i mod per = 0 then next_clus cur s else Some ((dir, cur), s));
        (l, r) \<leftarrow> walk_entry name nlen (dir + of_nat (i mod per * SIZEOF_DIR_ENTRY)) l s;
        case r of
          Some True \<Rightarrow> Some ((0, enter l), s)
        | Some False \<Rightarrow> Some ((- 1, cur), s)
        | None \<Rightarrow> walk_dir_loop name nlen per (Suc i) dir l cur s
      })"

definition zero_loc :: walk_loc where
  "zero_loc = \<lparr>name_ptr = 0, name_dismatch = False, w_clus_id = 0, w_use_fat = False, fn_len = 0, w_is_dir = False,
     data_len = 0\<rparr>"

definition exfat_walk_dir ::
    "(nat \<Rightarrow> u8) \<Rightarrow> nat \<Rightarrow> exfat_dir_file \<Rightarrow> 'a dstate_scheme \<Rightarrow> ((int \<times> exfat_dir_file) \<times> 'a dstate_scheme) option" where
  "exfat_walk_dir name nlen cur s = do {
     csz \<leftarrow> clus_size s;
     let per = csz div SIZEOF_DIR_ENTRY;
     if per = 0 then None else walk_dir_loop name nlen per 0 0 zero_loc cur s
   }"

section \<open>Paths\<close>

text \<open>
  \<^verbatim>\<open>path_push\<close> and \<^verbatim>\<open>path_pop\<close> on the string in a buffer of 256 bytes.  A list holds the characters before the terminating
  NUL, so that \<^verbatim>\<open>strcat\<close> appends, \<^verbatim>\<open>strlen\<close> is the length and storing a NUL at \<open>i\<close> leaves the first \<open>i\<close> characters; the name
  that is pushed is collected by \<open>open_loop\<close>, which stops at a NUL.
\<close>

definition path_push :: "u8 list \<Rightarrow> u8 list \<Rightarrow> (u64 \<times> u8 list) option" where
  "path_push dst src =
     (if length dst + 1 + length src \<ge> 256 then None else Some (1 + of_nat (length src), dst @ 47 # src))"

text \<open>The index of the last slash below \<open>i\<close>.\<close>

primrec last_slash :: "u8 list \<Rightarrow> nat \<Rightarrow> nat option" where
  "last_slash p 0 = None"
| "last_slash p (Suc i) = (if p ! i = 47 then Some i else last_slash p i)"

definition path_pop :: "u8 list \<Rightarrow> nat \<Rightarrow> (u64 \<times> u8 list) option" where
  "path_pop p len =
     (if len = 0 then Some (0, p)
      else if len > length p \<or> p ! 0 \<noteq> 47 then None
      else do { i \<leftarrow> last_slash p len; Some (of_nat (len - i), take i p) })"

type_synonym 'a path_reader = "'a dstate_scheme \<Rightarrow> nat \<Rightarrow> u8 option"

text \<open>The array that holds a string.\<close>

definition buf_at :: "u8 list \<Rightarrow> nat \<Rightarrow> u8 option" where
  "buf_at p i = (if i < length p then Some (p ! i) else if i = length p then Some 0 else None)"

definition list_path :: "u8 list \<Rightarrow> 'a path_reader" where
  "list_path p = (\<lambda>_. buf_at p)"

definition user_path :: "u64 \<Rightarrow> 'a path_reader" where
  "user_path va = (\<lambda>s i. vload8 s (va + of_nat i))"

text \<open>\<^verbatim>\<open>strcmp(name, t, 256) == 0\<close> for the name collected so far.\<close>

definition name_eq :: "u8 list \<Rightarrow> string \<Rightarrow> bool" where
  "name_eq nm t \<longleftrightarrow> vstrcmp (buf_at nm) (cstr t) 256 0 = Some 0"

section \<open>Opening\<close>

definition root_dir :: "'a dstate_scheme \<Rightarrow> exfat_dir_file option" where
  "root_dir s = map_option (\<lambda>c. \<lparr>clus_id = ucast c, dir_use_fat = True, is_dir = True, dir_file_len = 0\<rparr>)
     (rtdir_cluster s (hdr (rtfs s)))"

definition desc_dir :: "file_desc \<Rightarrow> exfat_dir_file" where
  "desc_dir f = \<lparr>clus_id = head_cluster f, dir_use_fat = bit (use_fat f) 0, is_dir = True, dir_file_len = 0\<rparr>"

text \<open>Where the walk starts: at the root for an absolute or empty path, otherwise at \<^verbatim>\<open>pwd\<close>.\<close>

definition open_start ::
    "'a path_reader \<Rightarrow> file_desc option \<Rightarrow> file_desc \<Rightarrow> 'a dstate_scheme \<Rightarrow> (exfat_dir_file \<times> file_desc) option" where
  "open_start pth cwd fd s = do {
     c \<leftarrow> pth s 0;
     if c = 47 \<or> c = 0
     then do { d \<leftarrow> root_dir s; Some (d, fd\<lparr>path := [], path_len := 0\<rparr>) }
     else do { w \<leftarrow> cwd; Some (desc_dir w, fd\<lparr>path := path w, path_len := path_len w\<rparr>) }
   }"

definition open_finish :: "bool \<Rightarrow> exfat_dir_file \<Rightarrow> file_desc \<Rightarrow> (int \<times> file_desc) option" where
  "open_finish opendir cur fd =
     (if opendir \<and> \<not> is_dir cur then Some (- ENOTDIR, fd)
      else if \<not> opendir \<and> is_dir cur then Some (- EISDIR, fd)
      else if unat (path_len fd) \<ge> 256 then None
      else Some (0, fd\<lparr>meta := meta_exfat (clus_id cur) (if dir_use_fat cur then 1 else 0), file_len := dir_file_len cur,
                       read_ptr := 0, file_type := (if opendir then FT_DIR else FT_REG),
                       path := take (unat (path_len fd)) (path fd)\<rparr>))"

text \<open>
  The loop over the path, with the component \<open>nm\<close> collected so far.  \<^verbatim>\<open>..\<close> opens the parent again by its
  path; the code does not look at the result, and using the descriptor after a failed call would
  read uninitialised memory.
\<close>

partial_function (option) open_loop ::
    "bool \<Rightarrow> 'a path_reader \<Rightarrow> nat \<Rightarrow> u8 list \<Rightarrow> exfat_dir_file \<Rightarrow> file_desc \<Rightarrow> 'a dstate_scheme \<Rightarrow>
     ((int \<times> file_desc) \<times> 'a dstate_scheme) option" where
  "open_loop opendir pth i nm cur fd s =
     (if i \<ge> 256 then Some ((- ENAMETOOLONG, fd), s)
      else do {
        c \<leftarrow> pth s i;
        if c \<noteq> 47 \<and> c \<noteq> 0 then open_loop opendir pth (Suc i) (nm @ [c]) cur fd s
        else do {
          (err, cur, fd, s) \<leftarrow>
            (if nm = [] \<or> name_eq nm ''.'' then Some (0, cur, fd, s)
             else if name_eq nm ''..''
             then do {
               (n, p) \<leftarrow> path_pop (path fd) (unat (path_len fd));
               let fd = fd\<lparr>path := p, path_len := path_len fd - n\<rparr>;
               (cur, par) \<leftarrow> open_start (list_path (path fd)) None zero_fdesc s;
               ((r, par), s) \<leftarrow> open_loop True (list_path (path fd)) 0 [] cur par s;
               if r \<noteq> 0 then None else Some (0, desc_dir par, fd, s)
             }
             else if \<not> is_dir cur then Some (- ENOTDIR, cur, fd, s)
             else do {
               ((r, cur), s) \<leftarrow> exfat_walk_dir (\<lambda>k. nm ! k) (length nm) cur s;
               if r < 0 then Some (- ENOENT, cur, fd, s)
               else do {
                 (n, p) \<leftarrow> path_push (path fd) nm;
                 Some (0, cur, fd\<lparr>path := p, path_len := path_len fd + n\<rparr>, s)
               }
             });
          if err \<noteq> 0 then Some ((err, fd), s)
          else if c \<noteq> 0 then open_loop opendir pth (Suc i) [] cur fd s
          else do { (r, fd) \<leftarrow> open_finish opendir cur fd; Some ((r, fd), s) }
        }
      })"

definition exfat_open ::
    "'a path_reader \<Rightarrow> file_desc option \<Rightarrow> file_desc \<Rightarrow> bool \<Rightarrow> 'a dstate_scheme \<Rightarrow>
     ((int \<times> file_desc) \<times> 'a dstate_scheme) option" where
  "exfat_open pth cwd fd opendir s = do {
     (cur, fd) \<leftarrow> open_start pth cwd fd s;
     open_loop opendir pth 0 [] cur fd s
   }"

section \<open>Reading a file\<close>

definition next_id :: "bool \<Rightarrow> u32 \<Rightarrow> 'a dstate_scheme \<Rightarrow> (u32 \<times> 'a dstate_scheme) option" where
  "next_id uf c s = (if uf then get_fat_at c s else Some (c + 1, s))"

text \<open>\<^verbatim>\<open>while (n >= clus_size) { n -= clus_size; clus_id = next; }\<close>\<close>

function skip_clus :: "nat \<Rightarrow> bool \<Rightarrow> int \<Rightarrow> u32 \<Rightarrow> 'a dstate_scheme \<Rightarrow> ((int \<times> u32) \<times> 'a dstate_scheme) option" where
  "skip_clus csz uf n c s =
     (if n \<ge> int csz \<and> csz > 0
      then do { (c, s) \<leftarrow> next_id uf c s; skip_clus csz uf (n - int csz) c s }
      else Some ((n, c), s))"
  by pat_completeness auto
termination by (relation "measure (\<lambda>(csz, uf, n, c, s). nat n)") auto

declare skip_clus.simps [simp del]

text \<open>The copying loop; an iteration that copies nothing would repeat for ever.\<close>

function read_loop ::
    "nat \<Rightarrow> bool \<Rightarrow> u64 \<Rightarrow> u32 \<Rightarrow> int \<Rightarrow> u32 \<Rightarrow> 'a dstate_scheme \<Rightarrow> 'a dstate_scheme option" where
  "read_loop csz uf dst sz ptr c s =
     (if sz = 0 then Some s
      else let n = min sz (of_int (int csz - ptr)) in
        if n = 0 then None
        else do {
          lba \<leftarrow> EXFAT_CLUS2LBA_int s c;
          k \<leftarrow> clus_sectors s;
          (_, s) \<leftarrow> disk_read (did (rtfs s)) lba k s;
          lba \<leftarrow> EXFAT_CLUS2LBA_int s c;
          s \<leftarrow> vmemcpy dst (lba2kaddr (did (rtfs s)) lba + of_int ptr) (unat n) s;
          ((_, c), s) \<leftarrow> skip_clus csz uf (sint n) c s;
          read_loop csz uf (dst + scast n) (sz - n) 0 c s
        })"
  by pat_completeness auto
termination
proof (relation "measure (\<lambda>(csz, uf, dst, sz, ptr, c, s). unat sz)", simp, clarsimp)
  fix sz n :: u32
  assume "sz \<noteq> 0" "min sz n \<noteq> 0"
  then have "0 < unat (min sz n)" "min sz n \<le> sz" by (simp_all add: unat_gt_0)
  then show "unat (sz - min sz n) < unat sz" by (simp add: unat_sub word_le_nat_alt)
qed

declare read_loop.simps [simp del]

definition exfat_read_file :: "u64 \<Rightarrow> u32 \<Rightarrow> file_desc \<Rightarrow> 'a dstate_scheme \<Rightarrow> (int \<times> 'a dstate_scheme) option" where
  "exfat_read_file dst sz fd s = do {
     csz \<leftarrow> clus_size s;
     let uf = (use_fat fd \<noteq> 0);
     ((ptr, c), s) \<leftarrow> skip_clus csz uf (sint (ucast (read_ptr fd) :: u32)) (head_cluster fd) s;
     let sz = (ucast (min (ucast sz) (file_len fd - read_ptr fd)) :: u32);
     s \<leftarrow> read_loop csz uf dst sz ptr c s;
     Some (sint sz, s)
   }"

section \<open>Reading a directory\<close>

definition DT_DIR :: u8 where "DT_DIR = 3"
definition DT_REG :: u8 where "DT_REG = 6"
definition SIZEOF_DIRENT :: u64 where "SIZEOF_DIRENT = 280"

text \<open>The offsets of \<^verbatim>\<open>struct dirent\<close>: \<^verbatim>\<open>d_ino\<close> 0, \<^verbatim>\<open>file_len\<close> 8, \<^verbatim>\<open>d_name\<close> 16, \<^verbatim>\<open>d_type\<close> 272.\<close>

primrec copy_name :: "nat \<Rightarrow> nat \<Rightarrow> u64 \<Rightarrow> u64 \<Rightarrow> nat \<Rightarrow> 'a kmem_scheme \<Rightarrow> (nat \<times> 'a kmem_scheme) option" where
  "copy_name 0 flen dst e ptr s = Some (ptr, s)"
| "copy_name (Suc k) flen dst e ptr s =
     (if ptr < flen
      then do {
        c \<leftarrow> file_name s e (15 - Suc k);
        s \<leftarrow> vstore8 (dst + 16 + of_nat ptr) (ucast c) s;
        copy_name k flen dst e (Suc ptr) s
      }
      else Some (ptr, s))"

text \<open>One entry: \<^verbatim>\<open>name_ptr\<close>, \<^verbatim>\<open>fn_len\<close> and whether the search ends (\<^term>\<open>Some True\<close>: the entry is filled).\<close>

definition readdir_entry ::
    "u64 \<Rightarrow> u64 \<Rightarrow> nat \<Rightarrow> nat \<Rightarrow> 'a kmem_scheme \<Rightarrow> ((nat \<times> nat \<times> bool option) \<times> 'a kmem_scheme) option" where
  "readdir_entry dst e ptr flen s = do {
     t \<leftarrow> entry_type s e;
     if t = 0x00 then Some ((ptr, flen, Some False), s)
     else if t = 0x85 then do {
       a \<leftarrow> file_attr s e;
       s \<leftarrow> vstore8 (dst + 272) (if bit a 4 then DT_DIR else DT_REG) s;
       Some ((0, flen, None), s)
     }
     else if t = 0xC0 then do {
       v \<leftarrow> valid_data_len s e;
       s \<leftarrow> vstore_le 8 (dst + 8) v s;
       c \<leftarrow> first_clus s e;
       s \<leftarrow> vstore_le 4 dst c s;
       n \<leftarrow> name_len s e;
       Some ((ptr, unat n, None), s)
     }
     else if t = 0xC1 then do {
       (ptr, s) \<leftarrow> copy_name 15 flen dst e ptr s;
       s \<leftarrow> vstore8 (dst + 16 + of_nat ptr) 0 s;
       Some ((ptr, flen, if ptr = flen then Some True else None), s)
     }
     else Some ((ptr, flen, None), s)
   }"

partial_function (option) read_dir_loop ::
    "u64 \<Rightarrow> nat \<Rightarrow> nat \<Rightarrow> nat \<Rightarrow> u64 \<Rightarrow> nat \<Rightarrow> nat \<Rightarrow> exfat_dir_file \<Rightarrow> 'a dstate_scheme \<Rightarrow>
     ((nat option) \<times> 'a dstate_scheme) option" where
  "read_dir_loop dst per rp i dir ptr flen cur s =
     (if i mod per = 0 \<and> clus_id cur = 0xFFFFFFFF then Some (None, s)
      else do {
        ((dir, cur), s) \<leftarrow> (if i mod per = 0 then next_clus cur s else Some ((dir, cur), s));
        if i < rp then read_dir_loop dst per rp (Suc i) dir ptr flen cur s
        else do {
          ((ptr, flen, r), s) \<leftarrow> readdir_entry dst (dir + of_nat (i mod per * SIZEOF_DIR_ENTRY)) ptr flen s;
          case r of
            Some True \<Rightarrow> Some (Some (Suc i), s)
          | Some False \<Rightarrow> Some (None, s)
          | None \<Rightarrow> read_dir_loop dst per rp (Suc i) dir ptr flen cur s
        }
      })"

definition exfat_read_dir ::
    "u64 \<Rightarrow> file_desc \<Rightarrow> 'a dstate_scheme \<Rightarrow> ((int \<times> file_desc) \<times> 'a dstate_scheme) option" where
  "exfat_read_dir dst fd s = do {
     csz \<leftarrow> clus_size s;
     let per = csz div SIZEOF_DIR_ENTRY;
     if per = 0 then None
     else do {
       (r, s) \<leftarrow> read_dir_loop dst per (unat (read_ptr fd)) 0 0 0 0 (desc_dir fd) s;
       case r of
         Some i \<Rightarrow> Some ((0, fd\<lparr>read_ptr := of_nat i\<rparr>), s)
       | None \<Rightarrow> do {
           s \<leftarrow> vstore_le 4 dst 0 s;
           s \<leftarrow> vstore_le 8 (dst + 8) 0 s;
           s \<leftarrow> vstore8 (dst + 16) 0 s;
           Some ((0, fd), s)
         }
     }
   }"

section \<open>The file system interface\<close>

definition open_file ::
    "'a path_reader \<Rightarrow> file_desc option \<Rightarrow> file_desc \<Rightarrow> 'a dstate_scheme \<Rightarrow> ((int \<times> file_desc) \<times> 'a dstate_scheme) option" where
  "open_file filename cwd fd = exfat_open filename cwd fd False"

definition open_dir ::
    "'a path_reader \<Rightarrow> file_desc option \<Rightarrow> file_desc \<Rightarrow> 'a dstate_scheme \<Rightarrow> ((int \<times> file_desc) \<times> 'a dstate_scheme) option" where
  "open_dir dirname cwd fd = exfat_open dirname cwd fd True"

definition read_file :: "u64 \<Rightarrow> u32 \<Rightarrow> file_desc \<Rightarrow> 'a dstate_scheme \<Rightarrow> (int \<times> 'a dstate_scheme) option" where
  "read_file = exfat_read_file"

definition read_dir :: "u64 \<Rightarrow> file_desc \<Rightarrow> 'a dstate_scheme \<Rightarrow> ((int \<times> file_desc) \<times> 'a dstate_scheme) option" where
  "read_dir = exfat_read_dir"

definition FS_UNKNOWN :: int where "FS_UNKNOWN = 0"
definition FS_EXFAT :: int where "FS_EXFAT = 1"

definition detect_fs :: "nat \<Rightarrow> nat \<Rightarrow> 'a dstate_scheme \<Rightarrow> (int \<times> 'a dstate_scheme) option" where
  "detect_fs d p s = do {
     (_, s) \<leftarrow> disk_read d (lba_beg (part (disk s d) p)) 8 s;
     let h = lba2kaddr d (lba_beg (part (disk s d) p));
     r \<leftarrow> vstrcmp (\<lambda>i. vload8 s (h + 3 + of_nat i)) (cstr ''EXFAT   '') 8 0;
     if r = 0
     then do {
       s \<leftarrow> init_fs_exfat (s\<lparr>rtfs := (rtfs s)\<lparr>did := d, fs_part := Some (d, p)\<rparr>\<rparr>);
       Some (FS_EXFAT, s)
     }
     else Some (FS_UNKNOWN, s)
   }"

end
