(* ===== verification/Part.thy ===== *)
theory Part
  imports Exfat
begin

text \<open>
  Recognising the partitions of the disks at boot: \<^verbatim>\<open>init_disk\<close>, \<^verbatim>\<open>init_mbr\<close>, \<^verbatim>\<open>init_gpt\<close> and
  \<^verbatim>\<open>detect_guid\<close> of \<^verbatim>\<open>kernel/fs/disk.c\<close>.  GUIDs are compared with \<^verbatim>\<open>strcmp\<close>, which stops at the first
  zero byte; the last part states when that matters.
\<close>

section \<open>GUIDs\<close>

record guid =
  f1 :: u32
  f2 :: u16
  f3 :: u16
  f4 :: "u8 list"

definition guid_bytes :: "guid \<Rightarrow> u8 list" where
  "guid_bytes g = map (\<lambda>k. ucast (drop_bit (8 * k) (f1 g))) [0..<4] @ map (\<lambda>k. ucast (drop_bit (8 * k) (f2 g))) [0..<2] @
     map (\<lambda>k. ucast (drop_bit (8 * k) (f3 g))) [0..<2] @ f4 g"

definition known_guid :: "guid list" where
  "known_guid =
    [\<lparr>f1 = 0, f2 = 0, f3 = 0, f4 = replicate 8 0\<rparr>,
     \<lparr>f1 = 0x024DEE41, f2 = 0x33E7, f3 = 0x11D3, f4 = [0x9D, 0x69, 0x00, 0x08, 0xC7, 0x81, 0xF3, 0x9F]\<rparr>,
     \<lparr>f1 = 0x21686148, f2 = 0x6449, f3 = 0x6E6F, f4 = [0x74, 0x4E, 0x65, 0x65, 0x64, 0x45, 0x46, 0x49]\<rparr>,
     \<lparr>f1 = 0xC12A7328, f2 = 0xF81F, f3 = 0x11D2, f4 = [0xBA, 0x4B, 0x00, 0xA0, 0xC9, 0x3E, 0xC9, 0x3B]\<rparr>,
     \<lparr>f1 = 0xE3C9E316, f2 = 0x0B5C, f3 = 0x4DB8, f4 = [0x81, 0x7D, 0xF9, 0x2D, 0xF0, 0x02, 0x15, 0xAE]\<rparr>,
     \<lparr>f1 = 0x5808C8AA, f2 = 0x7E8F, f3 = 0x42E0, f4 = [0x85, 0xD2, 0xE1, 0xE9, 0x04, 0x34, 0xCF, 0xB3]\<rparr>,
     \<lparr>f1 = 0xAF9B60A0, f2 = 0x1431, f3 = 0x4F62, f4 = [0xBC, 0x68, 0x33, 0x11, 0x71, 0x4A, 0x69, 0xAD]\<rparr>,
     \<lparr>f1 = 0xDE94BBA4, f2 = 0x06D1, f3 = 0x4D40, f4 = [0xA1, 0x6A, 0xBF, 0xD5, 0x01, 0x79, 0xD6, 0xAC]\<rparr>,
     \<lparr>f1 = 0xEBD0A0A2, f2 = 0xB9E5, f3 = 0x4433, f4 = [0x87, 0xC0, 0x68, 0xB6, 0xB7, 0x26, 0x99, 0xC7]\<rparr>,
     \<lparr>f1 = 0x0FC63DAF, f2 = 0x8483, f3 = 0x4772, f4 = [0x8E, 0x79, 0x3D, 0x69, 0xD8, 0x47, 0x7D, 0xE4]\<rparr>]"

definition guid_name :: "string list" where
  "guid_name = [''Empty partition'', ''MBR partition scheme'', ''BIOS boot partition'', ''EFI partition'', ''MSR partition'',
     ''LDM meta partition'', ''LDM data partition'', ''Windows Recovery partition'', ''Windows Basic Data partition'',
     ''Linux FS partition'']"

datatype guid_type = GUID_EMPTY | GUID_MBR | GUID_BIOS | GUID_EFI | GUID_MSR | GUID_LDM_META | GUID_LDM_DATA
  | GUID_WIN_RECOVERY | GUID_WIN_DATA | GUID_LINUX_FS

primrec guid_index :: "guid_type \<Rightarrow> nat" where
  "guid_index GUID_EMPTY = 0"
| "guid_index GUID_MBR = 1"
| "guid_index GUID_BIOS = 2"
| "guid_index GUID_EFI = 3"
| "guid_index GUID_MSR = 4"
| "guid_index GUID_LDM_META = 5"
| "guid_index GUID_LDM_DATA = 6"
| "guid_index GUID_WIN_RECOVERY = 7"
| "guid_index GUID_WIN_DATA = 8"
| "guid_index GUID_LINUX_FS = 9"

definition N_KNOWN_GUID :: nat where "N_KNOWN_GUID = 10"
definition PARTTYPE_GPT :: u32 where "PARTTYPE_GPT = 0x10000"

definition guid_eq :: "(nat \<Rightarrow> u8 option) \<Rightarrow> (nat \<Rightarrow> u8 option) \<Rightarrow> bool option" where
  "guid_eq a b = map_option (\<lambda>r. r = 0) (vstrcmp a b 16 0)"

definition guid_at :: "'a kmem_scheme \<Rightarrow> u64 \<Rightarrow> nat \<Rightarrow> u8 option" where
  "guid_at s p k = vload8 s (p + of_nat k)"

definition known_guid_at :: "nat \<Rightarrow> nat \<Rightarrow> u8 option" where
  "known_guid_at i k = (let g = guid_bytes (known_guid ! i) in if k < length g then Some (g ! k) else None)"

section \<open>GPT\<close>

definition gpt_lba_beg :: "'a kmem_scheme \<Rightarrow> u64 \<Rightarrow> u64 option" where "gpt_lba_beg s p = vload_le 8 s (p + 32)"
definition gpt_lba_end :: "'a kmem_scheme \<Rightarrow> u64 \<Rightarrow> u64 option" where "gpt_lba_end s p = vload_le 8 s (p + 40)"

text \<open>A new partition of the disk: its index, or \<^term>\<open>None\<close> when the array of 128 is full.\<close>

definition add_part :: "nat \<Rightarrow> 'a dstate_scheme \<Rightarrow> (nat \<times> 'a dstate_scheme) option" where
  "add_part d s =
     (let p = unat (n_part (disk s d))
      in if p \<ge> 128 then None
         else Some (p, s\<lparr>disk := (disk s)(d := (disk s d)\<lparr>n_part := n_part (disk s d) + 1\<rparr>)\<rparr>))"

function detect_guid_from :: "nat \<Rightarrow> nat \<Rightarrow> u64 \<Rightarrow> 'a dstate_scheme \<Rightarrow> (int \<times> 'a dstate_scheme) option" where
  "detect_guid_from i d par s =
     (if i \<ge> N_KNOWN_GUID
      then do {
        s \<leftarrow> kprintk (''GPT (sd%d,p%d): unknown guid.'' @ nl) [Slot (of_nat d), Slot (of_nat i)] s;
        Some (0, s)
      }
      else do {
        eq \<leftarrow> guid_eq (guid_at s par) (known_guid_at i);
        if \<not> eq then detect_guid_from (Suc i) d par s
        else if i = guid_index GUID_EMPTY then Some (0, s)
        else do {
          (p, s) \<leftarrow> add_part d s;
          b \<leftarrow> gpt_lba_beg s par;
          e \<leftarrow> gpt_lba_end s par;
          let s = upd_part d p (\<lambda>x. x\<lparr>part_type := ucast (PARTTYPE_GPT OR of_nat i), lba_beg := b, n_sec := e - b + 1\<rparr>) s;
          s \<leftarrow> (if i = guid_index GUID_WIN_DATA \<or> i = guid_index GUID_LINUX_FS
               then map_option snd (detect_fs d p s) else Some s);
          Some (0, s)
        }
      })"
  by pat_completeness auto
termination by (relation "measure (\<lambda>(i, d, par, s). N_KNOWN_GUID - i)") auto

declare detect_guid_from.simps [simp del]

definition detect_guid :: "nat \<Rightarrow> u64 \<Rightarrow> 'a dstate_scheme \<Rightarrow> (int \<times> 'a dstate_scheme) option" where
  "detect_guid = detect_guid_from 0"

definition GPT_SIGN :: u64 where "GPT_SIGN = 0x5452415020494645"

definition gpt_sign :: "'a kmem_scheme \<Rightarrow> u64 \<Rightarrow> u64 option" where "gpt_sign s g = vload_le 8 s g"
definition n_pararr :: "'a kmem_scheme \<Rightarrow> u64 \<Rightarrow> u64 option" where "n_pararr s g = vload_le 4 s (g + 80)"
definition par_entry_siz :: "'a kmem_scheme \<Rightarrow> u64 \<Rightarrow> u64 option" where "par_entry_siz s g = vload_le 4 s (g + 84)"

primrec gpt_entries :: "nat \<Rightarrow> nat \<Rightarrow> u64 \<Rightarrow> u64 \<Rightarrow> 'a dstate_scheme \<Rightarrow> 'a dstate_scheme option" where
  "gpt_entries 0 d ptr siz s = Some s"
| "gpt_entries (Suc n) d ptr siz s = do { (_, s) \<leftarrow> detect_guid d ptr s; gpt_entries n d (ptr + siz) siz s }"

definition init_gpt :: "nat \<Rightarrow> 'a dstate_scheme \<Rightarrow> (int \<times> 'a dstate_scheme) option" where
  "init_gpt d s =
     (if driver_type (disk s d) \<noteq> DISK_SATA then None
      else do {
        s \<leftarrow> for_loop [1..<6] (\<lambda>blk s. map_option snd (sata_read_block d (of_nat blk) s)) s;
        let gpt = blk2kaddr d 0 + 512;
        sign \<leftarrow> gpt_sign s gpt;
        if sign \<noteq> GPT_SIGN
        then do { s \<leftarrow> kprintk (''GPT signature error.'' @ nl) [] s; Some (- 1, s) }
        else do {
          n \<leftarrow> n_pararr s gpt;
          siz \<leftarrow> par_entry_siz s gpt;
          s \<leftarrow> kprintk (''GPT partition number: %d'' @ nl) [Slot n] s;
          s \<leftarrow> gpt_entries (nat (sint (ucast n :: u32))) d (gpt + 512) (scast (ucast siz :: u32)) s;
          Some (0, s)
        }
      })"

section \<open>MBR\<close>

text \<open>What \<^verbatim>\<open>init_mbr\<close> prints for a partition type; \<^term>\<open>None\<close> is the default case.\<close>

definition mbr_msg :: "u64 \<Rightarrow> string option" where
  "mbr_msg t = map_of
     [(0x00, ''MBR part %d: empty.''), (0x01, ''MBR part %d: FAT12.''), (0x04, ''MBR part %d: FAT16.''),
      (0x06, ''MBR part %d: FAT16B.''), (0x07, ''MBR part %d: NTFS/exFAT''), (0x0B, ''MBR part %d: FAT32(CHS)''),
      (0x0C, ''MBR part %d: FAT32(LBA)''), (0x0F, ''MBR part %d: extended part with LBA''),
      (0x82, ''MBR part %d: linux swap''), (0x83, ''MBR part %d: linux fs''), (0xEE, ''MBR part %d: GPT''),
      (0xEF, ''MBR part %d: EFI'')] t"

definition mbr_part :: "nat \<Rightarrow> nat \<Rightarrow> 'a dstate_scheme \<Rightarrow> 'a dstate_scheme option" where
  "mbr_part d i s = do {
     let e = blk2kaddr d 0 + 446 + 16 * of_nat i;
     t \<leftarrow> vload_le 1 s (e + 4);
     case mbr_msg t of
       None \<Rightarrow> kprintk (''MBR part %d: unknown part type: %d'' @ nl) [Slot (of_nat i), Slot t] s
     | Some m \<Rightarrow> do {
         s \<leftarrow> kprintk (m @ nl) [Slot (of_nat i)] s;
         if t = 0xEE then map_option snd (init_gpt d s)
         else do {
           (p, s) \<leftarrow> add_part d s;
           b \<leftarrow> vload_le 4 s (e + 8);
           n \<leftarrow> vload_le 4 s (e + 12);
           Some (upd_part d p (\<lambda>x. x\<lparr>lba_beg := b, n_sec := n, part_type := ucast t\<rparr>) s)
         }
       }
   }"

definition init_mbr :: "nat \<Rightarrow> 'a dstate_scheme \<Rightarrow> (int \<times> 'a dstate_scheme) option" where
  "init_mbr d s =
     (if driver_type (disk s d) \<noteq> DISK_SATA then None
      else do {
        (_, s) \<leftarrow> sata_read_block d 0 s;
        s \<leftarrow> for_loop [0..<4] (mbr_part d) s;
        Some (0, s)
      })"

definition init_disk :: "'a dstate_scheme \<Rightarrow> (int \<times> 'a dstate_scheme) option" where
  "init_disk s = do {
     s \<leftarrow> for_loop [0..<n_disk s] (\<lambda>d s. map_option snd (init_mbr d s)) s;
     Some (0, s)
   }"

definition hex_digit :: "u8 \<Rightarrow> char" where
  "hex_digit v = ''0123456789ABCDEF'' ! unat v"

definition print_guid :: "u64 \<Rightarrow> 'a dstate_scheme \<Rightarrow> (int \<times> 'a dstate_scheme) option" where
  "print_guid g s = do {
     s \<leftarrow> for_loop [0..<16] (\<lambda>i s. do {
       b \<leftarrow> vload8 s (g + of_nat i);
       kprintk ''%c%c '' [Slot (of_char (hex_digit (drop_bit 4 b))), Slot (of_char (hex_digit (b AND 0xF)))] s
     }) s;
     Some (0, s)
   }"

end
