(* ===== verification/Syscall.thy ===== *)
theory Syscall
  imports Part Pipe Kbd Sched ProcLife
begin

text \<open>
  The system calls of \<^verbatim>\<open>kernel/syscall.c\<close>, except \<^verbatim>\<open>exec\<close>.  A system call gets the trap frame
  and either returns to the caller with a new one (\<open>Back\<close>) or gives up the processor: \<^verbatim>\<open>sched\<close> does not
  return but loads the registers of another process (\<open>Away\<close>).  An index outside \<^verbatim>\<open>fdesc[64]\<close> reaches
  into the next process and is \<^term>\<open>None\<close>, as is a NULL pointer that is used.
\<close>

section \<open>Checking user pointers\<close>

text \<open>
  Both loops run over whole pages, so that the number of iterations is the distance of the ends in
  pages.
\<close>

primrec check_pages :: "u64 \<Rightarrow> u64 \<Rightarrow> nat \<Rightarrow> u64 \<Rightarrow> 'a kmem_scheme \<Rightarrow> (bool \<times> 'a kmem_scheme) option" where
  "check_pages tbl flags 0 addr s = Some (True, s)"
| "check_pages tbl flags (Suc n) addr s = do {
     ((_, pte), s) \<leftarrow> walk_pgtbl tbl addr False s;
     p \<leftarrow> pte;
     if p = 0 \<or> kload64 s p AND flags \<noteq> flags then Some (False, s)
     else check_pages tbl flags n (addr + PGSIZE) s
   }"

definition page_span :: "u64 \<Rightarrow> u64 \<Rightarrow> nat" where
  "page_span addr siz = unat (PAGEADDR (PAGEADDR addr + siz) + PGSIZE - PAGEADDR addr) div 4096"

definition check_mem :: "u64 \<Rightarrow> u64 \<Rightarrow> u64 \<Rightarrow> u64 \<Rightarrow> 'a kmem_scheme \<Rightarrow> (bool \<times> 'a kmem_scheme) option" where
  "check_mem tbl addr siz flags = check_pages tbl (flags OR PTE_P) (page_span addr siz) (PAGEADDR addr)"

definition has_nul :: "'a kmem_scheme \<Rightarrow> u64 \<Rightarrow> nat \<Rightarrow> bool" where
  "has_nul s str n \<longleftrightarrow> list_ex (\<lambda>i. pmem s (K2P (str + of_nat i)) = 0) [0..<n]"

primrec check_str_pages ::
    "u64 \<Rightarrow> u64 \<Rightarrow> nat \<Rightarrow> u64 \<Rightarrow> u64 \<Rightarrow> 'a kmem_scheme \<Rightarrow> (bool \<times> 'a kmem_scheme) option" where
  "check_str_pages tbl flags 0 addr off s = Some (False, s)"
| "check_str_pages tbl flags (Suc n) addr off s = do {
     ((_, pte), s) \<leftarrow> walk_pgtbl tbl addr False s;
     p \<leftarrow> pte;
     if p = 0 \<or> kload64 s p AND flags \<noteq> flags then Some (False, s)
     else if has_nul s (PAGEKADDR (kload64 s p) + off) (4096 - unat off) then Some (True, s)
     else check_str_pages tbl flags n (addr + PGSIZE) 0 s
   }"

definition check_str :: "u64 \<Rightarrow> u64 \<Rightarrow> u64 \<Rightarrow> u64 \<Rightarrow> 'a kmem_scheme \<Rightarrow> (bool \<times> 'a kmem_scheme) option" where
  "check_str tbl addr siz flags =
     check_str_pages tbl (flags OR PTE_P) (page_span addr siz) (PAGEADDR addr) (addr AND PGMASK)"

section \<open>Returning and blocking\<close>

datatype flow = Back proc_context | Away "proc_context \<times> fx_context"

definition ret :: "u64 \<Rightarrow> proc_context \<Rightarrow> 'a dstate_scheme \<Rightarrow> (flow \<times> 'a dstate_scheme) option" where
  "ret v tf s = Some (Back (tf\<lparr>rax := v\<rparr>), s)"

definition fail :: "int \<Rightarrow> proc_context \<Rightarrow> 'a dstate_scheme \<Rightarrow> (flow \<times> 'a dstate_scheme) option" where
  "fail e = ret (of_int (- e))"

definition resched :: "'a dstate_scheme \<Rightarrow> (flow \<times> 'a dstate_scheme) option" where
  "resched s = do { (c, s) \<leftarrow> sched s; Some (Away c, s) }"

definition block :: "nat \<Rightarrow> proc_context \<Rightarrow> 'a dstate_scheme \<Rightarrow> (flow \<times> 'a dstate_scheme) option" where
  "block c tf s = resched (upd_proc c (\<lambda>p. p\<lparr>ctx := tf, state := PENDING\<rparr>) s)"

definition set_fd :: "nat \<Rightarrow> nat \<Rightarrow> file_desc \<Rightarrow> 'a kstate_scheme \<Rightarrow> 'a kstate_scheme" where
  "set_fd c fd f s = upd_proc c (\<lambda>p. p\<lparr>fdesc := (fdesc p)(fd := f)\<rparr>) s"

text \<open>The file descriptor argument, an \<^verbatim>\<open>int\<close>.\<close>

definition fd_arg :: "u64 \<Rightarrow> nat option" where
  "fd_arg v = (let fd = sint (ucast v :: u32) in if fd < 0 \<or> fd \<ge> 64 then None else Some (nat fd))"

text \<open>The first free descriptor; the scan to 256 leaves the array of 64 when all are in use.\<close>

function free_fd :: "(nat \<Rightarrow> file_desc) \<Rightarrow> nat \<Rightarrow> nat option" where
  "free_fd f fd = (if fd \<ge> 64 then None else if inuse (f fd) then free_fd f (Suc fd) else Some fd)"
  by pat_completeness auto
termination by (relation "measure (\<lambda>(f, fd). 64 - fd)") auto

declare free_fd.simps [simp del]

section \<open>System calls\<close>

definition SYS_exit :: int where "SYS_exit = 0"
definition SYS_fork :: int where "SYS_fork = 1"
definition SYS_exec :: int where "SYS_exec = 2"
definition SYS_wait :: int where "SYS_wait = 3"
definition SYS_open :: int where "SYS_open = 4"
definition SYS_read :: int where "SYS_read = 5"
definition SYS_write :: int where "SYS_write = 6"
definition SYS_close :: int where "SYS_close = 7"
definition SYS_opendir :: int where "SYS_opendir = 8"
definition SYS_readdir :: int where "SYS_readdir = 9"
definition SYS_chdir :: int where "SYS_chdir = 10"
definition SYS_pipe :: int where "SYS_pipe = 11"
definition SYS_sbrk :: int where "SYS_sbrk = 12"
definition SYS_getpid :: int where "SYS_getpid = 13"

lemmas SYS_defs = SYS_exit_def SYS_fork_def SYS_exec_def SYS_wait_def SYS_open_def SYS_read_def SYS_write_def
  SYS_close_def SYS_opendir_def SYS_readdir_def SYS_chdir_def SYS_pipe_def SYS_sbrk_def SYS_getpid_def

definition sys_hello :: "'a dstate_scheme \<Rightarrow> 'a dstate_scheme option" where
  "sys_hello s = kprintk ([CHR 0x22] @ ''hello, world!'' @ [CHR 0x22] @ '' from user space!'' @ nl) [] s"

subsection \<open>\<^verbatim>\<open>fork\<close>\<close>

definition link_child :: "nat \<Rightarrow> nat \<Rightarrow> 'a kstate_scheme \<Rightarrow> 'a kstate_scheme" where
  "link_child c n s =
     (let s = (case living_child (procs s c) of
                 None \<Rightarrow> upd_proc n (\<lambda>p. p\<lparr>prev_sibling := None, next_sibling := None\<rparr>)
                           (upd_proc c (\<lambda>p. p\<lparr>living_child := Some n\<rparr>) s)
               | Some ohead \<Rightarrow> upd_proc c (\<lambda>p. p\<lparr>living_child := Some n\<rparr>)
                           (upd_proc n (\<lambda>p. p\<lparr>next_sibling := Some ohead\<rparr>)
                             (upd_proc ohead (\<lambda>p. p\<lparr>prev_sibling := Some n\<rparr>) s)))
      in upd_proc n (\<lambda>p. p\<lparr>parent := Some c\<rparr>) s)"

definition fork_fd :: "nat \<Rightarrow> nat \<Rightarrow> nat \<Rightarrow> 'a kstate_scheme \<Rightarrow> 'a kstate_scheme option" where
  "fork_fd c n i s =
     (let f = fdesc (procs s c) i;
          s = set_fd n i f s;
          s = (if inuse f \<and> file_type f = FT_RPIPE then upd_pipe (meta_pipe f) (\<lambda>q. q\<lparr>rref := rref q + 1\<rparr>) s else s);
          s = (if inuse f \<and> file_type f = FT_WPIPE then upd_pipe (meta_pipe f) (\<lambda>q. q\<lparr>wref := wref q + 1\<rparr>) s else s)
      in Some s)"

definition sys_fork :: "proc_context \<Rightarrow> 'a dstate_scheme \<Rightarrow> (flow \<times> 'a dstate_scheme) option" where
  "sys_fork tf s = do {
     c \<leftarrow> curproc s;
     (nproc, s) \<leftarrow> alloc_proc s;
     n \<leftarrow> nproc;
     let s = link_child c n s;
     (_, s) \<leftarrow> copy_pgtbl (pgtbl (procs s n)) (p_pgtbl (procs s c)) CPY_PGTBL_CNTREF s;
     (_, s) \<leftarrow> copy_pgtbl (p_pgtbl (procs s n)) (p_pgtbl (procs s c)) 0 s;
     s \<leftarrow> pgtbl_clearflags (pgtbl (procs s n)) PTE_W s;
     s \<leftarrow> pgtbl_clearflags (pgtbl (procs s c)) PTE_W s;
     s \<leftarrow> for_loop [0..<64] (fork_fd c n) s;
     let s = upd_proc n (\<lambda>p. p\<lparr>pwd := pwd (procs s c), exec_time := exec_time (procs s c),
                               end_umem := end_umem (procs s c), ctx := tf\<rparr>) s;
     let s = s\<lparr>fx_ctxs := (fx_ctxs s)(n := fx_ctxs s c)\<rparr>;
     let tf = tf\<lparr>rax := pid (procs s n)\<rparr>;
     let s = upd_proc n (\<lambda>p. p\<lparr>ctx := (ctx p)\<lparr>rax := 0\<rparr>, state := READY\<rparr>) s;
     Some (Back tf, s)
   }"

subsection \<open>Files\<close>

definition sys_open_as ::
    "('a path_reader \<Rightarrow> file_desc option \<Rightarrow> file_desc \<Rightarrow> 'a dstate_scheme \<Rightarrow> ((int \<times> file_desc) \<times> 'a dstate_scheme) option) \<Rightarrow>
     proc_context \<Rightarrow> 'a dstate_scheme \<Rightarrow> (flow \<times> 'a dstate_scheme) option" where
  "sys_open_as opn tf s = do {
     c \<leftarrow> curproc s;
     (ok, s) \<leftarrow> check_str (p_pgtbl (procs s c)) (rdx tf) 256 PTE_U s;
     if \<not> ok then fail EFAULT tf s
     else do {
       fd \<leftarrow> free_fd (fdesc (procs s c)) 0;
       ((r, f), s) \<leftarrow> opn (user_path (rdx tf)) (Some (pwd (procs s c))) (fdesc (procs s c) fd) s;
       let s = set_fd c fd f s;
       if r = 0 then ret (of_nat fd) tf (set_fd c fd (f\<lparr>inuse := True\<rparr>) s)
       else ret (of_int r) tf s
     }
   }"

definition sys_open :: "proc_context \<Rightarrow> 'a dstate_scheme \<Rightarrow> (flow \<times> 'a dstate_scheme) option" where
  "sys_open = sys_open_as open_file"

definition sys_opendir :: "proc_context \<Rightarrow> 'a dstate_scheme \<Rightarrow> (flow \<times> 'a dstate_scheme) option" where
  "sys_opendir = sys_open_as open_dir"

definition read_kbd :: "nat \<Rightarrow> proc_context \<Rightarrow> 'a dstate_scheme \<Rightarrow> (flow \<times> 'a dstate_scheme) option" where
  "read_kbd c tf s =
     (if kbd_buf_siz s > 0
      then do {
        let r = min (kbd_buf_siz s) (unat (rbx tf));
        s \<leftarrow> kbd_copy (rcx tf) r s;
        ret (of_nat r) tf s
      }
      else case kbd_proc s of
        None \<Rightarrow> block c tf (s\<lparr>kbd_proc := Some c\<rparr>)
      | Some _ \<Rightarrow> fail EBUSY tf s)"

definition read_reg :: "nat \<Rightarrow> nat \<Rightarrow> proc_context \<Rightarrow> 'a dstate_scheme \<Rightarrow> (flow \<times> 'a dstate_scheme) option" where
  "read_reg c fd tf s = do {
     (r, s) \<leftarrow> read_file (rcx tf) (ucast (rbx tf)) (fdesc (procs s c) fd) s;
     let f = fdesc (procs s c) fd;
     ret (of_int r) tf (set_fd c fd (f\<lparr>read_ptr := read_ptr f + of_int r\<rparr>) s)
   }"

definition read_rpipe :: "nat \<Rightarrow> u64 \<Rightarrow> proc_context \<Rightarrow> 'a dstate_scheme \<Rightarrow> (flow \<times> 'a dstate_scheme) option" where
  "read_rpipe c pipe tf s =
     (if reader (pipes s pipe) \<noteq> None then fail EBUSY tf s
      else let s = upd_pipe pipe (\<lambda>q. q\<lparr>reader := Some c, rsiz := ucast (rbx tf), rbuf := rcx tf\<rparr>) s
      in if p_len (pipes s pipe) > 0
         then do { (r, s) \<leftarrow> pipe_read pipe False s; ret (ucast r) tf s }
         else if wref (pipes s pipe) = 0 then ret 0 tf s
         else block c tf s)"

definition sys_read :: "proc_context \<Rightarrow> 'a dstate_scheme \<Rightarrow> (flow \<times> 'a dstate_scheme) option" where
  "sys_read tf s = do {
     c \<leftarrow> curproc s;
     case fd_arg (rdx tf) of
       None \<Rightarrow> fail EBADF tf s
     | Some fd \<Rightarrow>
         if rbx tf = 0 then fail EINVAL tf s
         else do {
           (ok, s) \<leftarrow> check_mem (p_pgtbl (procs s c)) (rcx tf) (rbx tf) (PTE_U OR PTE_W) s;
           let f = fdesc (procs s c) fd;
           if \<not> ok then fail EFAULT tf s
           else if \<not> inuse f then fail EBADF tf s
           else if file_type f = FT_KBD then read_kbd c tf s
           else if file_type f = FT_REG then read_reg c fd tf s
           else if file_type f = FT_RPIPE then read_rpipe c (meta_pipe f) tf s
           else fail EBADF tf s
         }
   }"

definition write_screen :: "u64 \<Rightarrow> nat \<Rightarrow> 'a dstate_scheme \<Rightarrow> 'a dstate_scheme option" where
  "write_screen buf n = for_loop [0..<n] (\<lambda>i s. do {
     b \<leftarrow> vload8 s (buf + of_nat i);
     cn \<leftarrow> console_putch b (con s);
     Some (s\<lparr>con := cn\<rparr>)
   })"

definition write_wpipe :: "nat \<Rightarrow> u64 \<Rightarrow> proc_context \<Rightarrow> 'a dstate_scheme \<Rightarrow> (flow \<times> 'a dstate_scheme) option" where
  "write_wpipe c pipe tf s =
     (if writer (pipes s pipe) \<noteq> None then fail EBUSY tf s
      else do {
        let s = upd_pipe pipe (\<lambda>q. q\<lparr>writer := Some c, wsiz := ucast (rbx tf), wptr := 0, wbuf := rcx tf\<rparr>) s;
        (n, s) \<leftarrow> pipe_write pipe False s;
        if \<not> ucast n \<le> rbx tf then None
        else if ucast n = rbx tf then ret (ucast n) tf s
        else block c tf s
      })"

definition sys_write :: "proc_context \<Rightarrow> 'a dstate_scheme \<Rightarrow> (flow \<times> 'a dstate_scheme) option" where
  "sys_write tf s = do {
     c \<leftarrow> curproc s;
     case fd_arg (rdx tf) of
       None \<Rightarrow> fail EBADF tf s
     | Some fd \<Rightarrow>
         if rbx tf = 0 then Some (Back (tf\<lparr>rbx := of_int (- EINVAL)\<rparr>), s)
         else do {
           (ok, s) \<leftarrow> check_mem (p_pgtbl (procs s c)) (rcx tf) (rbx tf) PTE_U s;
           let f = fdesc (procs s c) fd;
           if \<not> ok then fail EFAULT tf s
           else if \<not> inuse f then fail EBADF tf s
           else if file_type f = FT_SCREEN
           then do {
             let n = (ucast (rbx tf) :: u32);
             s \<leftarrow> write_screen (rcx tf) (unat n) s;
             ret (ucast n) tf s
           }
           else if file_type f = FT_WPIPE then write_wpipe c (meta_pipe f) tf s
           else fail EBADF tf s
         }
   }"

definition sys_readdir :: "proc_context \<Rightarrow> 'a dstate_scheme \<Rightarrow> (flow \<times> 'a dstate_scheme) option" where
  "sys_readdir tf s = do {
     c \<leftarrow> curproc s;
     case fd_arg (rdx tf) of
       None \<Rightarrow> fail EBADF tf s
     | Some fd \<Rightarrow> do {
         (ok, s) \<leftarrow> check_mem (p_pgtbl (procs s c)) (rcx tf) SIZEOF_DIRENT (PTE_U OR PTE_W) s;
         let f = fdesc (procs s c) fd;
         if \<not> ok then fail EFAULT tf s
         else if \<not> inuse f \<or> file_type f \<noteq> FT_DIR then fail EBADF tf s
         else do {
           ((r, f), s) \<leftarrow> read_dir (rcx tf) f s;
           ret (of_int r) tf (set_fd c fd f s)
         }
       }
   }"

definition sys_chdir :: "proc_context \<Rightarrow> 'a dstate_scheme \<Rightarrow> (flow \<times> 'a dstate_scheme) option" where
  "sys_chdir tf s = do {
     c \<leftarrow> curproc s;
     (ok, s) \<leftarrow> check_str (p_pgtbl (procs s c)) (rdx tf) 256 PTE_U s;
     if \<not> ok then fail EFAULT tf s
     else do {
       ((r, newpwd), s) \<leftarrow> open_dir (user_path (rdx tf)) (Some (pwd (procs s c))) zero_fdesc s;
       if r < 0 then ret (of_int r) tf s
       else ret 0 tf (upd_proc c (\<lambda>p. p\<lparr>pwd := newpwd\<rparr>) s)
     }
   }"

subsection \<open>Pipes and \<^verbatim>\<open>close\<close>\<close>

text \<open>The loop of \<^verbatim>\<open>sys_pipe\<close> over the descriptors, with \<open>nfd\<close> found so far.\<close>

function pipe_fds :: "nat \<Rightarrow> u64 \<Rightarrow> u64 \<Rightarrow> nat \<Rightarrow> nat \<Rightarrow> 'a dstate_scheme \<Rightarrow> 'a dstate_scheme option" where
  "pipe_fds c pipe fds fd nfd s =
     (if fd \<ge> 64 then None
      else let f = fdesc (procs s c) fd in
        if inuse f then pipe_fds c pipe fds (Suc fd) nfd s
        else do {
          s \<leftarrow> vstore_le 4 (fds + 4 * of_nat nfd) (of_nat fd) s;
          let s = set_fd c fd (f\<lparr>inuse := True, file_type := (if nfd = 0 then FT_RPIPE else FT_WPIPE), meta := pipe\<rparr>) s;
          if nfd = 1 then Some s else pipe_fds c pipe fds (Suc fd) (Suc nfd) s
        })"
  by pat_completeness auto
termination by (relation "measure (\<lambda>(c, pipe, fds, fd, nfd, s). 64 - fd)") auto

declare pipe_fds.simps [simp del]

definition sys_pipe :: "proc_context \<Rightarrow> 'a dstate_scheme \<Rightarrow> (flow \<times> 'a dstate_scheme) option" where
  "sys_pipe tf s = do {
     c \<leftarrow> curproc s;
     (ok, s) \<leftarrow> check_str (p_pgtbl (procs s c)) (rdx tf) 8 PTE_U s;
     if \<not> ok then fail EFAULT tf s
     else do {
       (pg, s) \<leftarrow> alloc_page FLAG_ZERO s;
       pa \<leftarrow> pi_paddr s pg;
       let s = upd_pipe (P2K pa) (\<lambda>_. zero_pipe\<lparr>rref := 1, wref := 1\<rparr>) s;
       s \<leftarrow> pipe_fds c (P2K pa) (rdx tf) 0 0 s;
       ret 0 tf s
     }
   }"

text \<open>\<^verbatim>\<open>fdesc[fd].inuse = 0\<close> with \<^verbatim>\<open>fdesc\<close> already \<^verbatim>\<open>&curproc->fdesc[fd]\<close>: the descriptor \<open>2 * fd\<close>.\<close>

definition sys_close :: "proc_context \<Rightarrow> 'a dstate_scheme \<Rightarrow> (flow \<times> 'a dstate_scheme) option" where
  "sys_close tf s = do {
     c \<leftarrow> curproc s;
     case fd_arg (rdx tf) of
       None \<Rightarrow> fail EBADF tf s
     | Some fd \<Rightarrow>
         let f = fdesc (procs s c) fd in
         if \<not> inuse f then fail EBADF tf s
         else do {
           s \<leftarrow> (if file_type f = FT_RPIPE then drop_rpipe (meta_pipe f) s
                else if file_type f = FT_WPIPE then drop_wpipe (meta_pipe f) s
                else Some s);
           if 2 * fd \<ge> 64 then None
           else Some (Back tf, set_fd c (2 * fd) ((fdesc (procs s c) (2 * fd))\<lparr>inuse := False\<rparr>) s)
         }
   }"

subsection \<open>Processes and memory\<close>

definition sys_exit :: "u64 \<Rightarrow> 'a dstate_scheme \<Rightarrow> (flow \<times> 'a dstate_scheme) option" where
  "sys_exit v s = do {
     c \<leftarrow> curproc s;
     s \<leftarrow> kill_proc c v s;
     resched s
   }"

definition sys_wait :: "proc_context \<Rightarrow> 'a dstate_scheme \<Rightarrow> (flow \<times> 'a dstate_scheme) option" where
  "sys_wait tf s = do {
     c \<leftarrow> curproc s;
     (ok, s) \<leftarrow> (if rdx tf \<noteq> 0 then check_mem (p_pgtbl (procs s c)) (rdx tf) 8 (PTE_U OR PTE_W) s else Some (True, s));
     if \<not> ok then fail EFAULT tf s
     else case zombie_child (procs s c) of
       Some ohead \<Rightarrow> do {
         let nhead = next_sibling (procs s ohead);
         s \<leftarrow> (if rdx tf \<noteq> 0 then vstore64 (rdx tf) (exit_val (procs s ohead)) s else Some s);
         let v = pid (procs s ohead);
         let s = upd_proc c (\<lambda>p. p\<lparr>zombie_child := nhead\<rparr>) s;
         let s = upd_opt nhead (\<lambda>p. p\<lparr>prev_sibling := None\<rparr>) s;
         s \<leftarrow> clear_proc ohead s;
         ret v tf s
       }
     | None \<Rightarrow>
         if living_child (procs s c) = None then fail ECHILD tf s
         else block c tf (upd_proc c (\<lambda>p. p\<lparr>waiting := True, wait_status := rdx tf\<rparr>) s)
   }"

definition FREEPAGES_LOWWATER :: u64 where "FREEPAGES_LOWWATER = 1000"

text \<open>The loop over the new pages.\<close>

primrec sbrk_pages :: "nat \<Rightarrow> nat \<Rightarrow> u64 \<Rightarrow> 'a dstate_scheme \<Rightarrow> 'a dstate_scheme option" where
  "sbrk_pages 0 c va s = Some s"
| "sbrk_pages (Suc n) c va s = do {
     (pg, s) \<leftarrow> alloc_page FLAG_ZERO s;
     ((_, pte), s) \<leftarrow> walk_pgtbl (pgtbl (procs s c)) va True s;
     pa \<leftarrow> pi_paddr s pg;
     s \<leftarrow> pte_store pte (pa OR PTE_U OR PTE_P OR PTE_W) s;
     ((_, pte), s) \<leftarrow> walk_pgtbl (p_pgtbl (procs s c)) va True s;
     pa \<leftarrow> pi_paddr s pg;
     s \<leftarrow> pte_store pte (pa OR PTE_U OR PTE_P OR PTE_W) s;
     sbrk_pages n c (va + PGSIZE) s
   }"

definition sys_sbrk :: "proc_context \<Rightarrow> 'a dstate_scheme \<Rightarrow> (flow \<times> 'a dstate_scheme) option" where
  "sys_sbrk tf s = do {
     c \<leftarrow> curproc s;
     let inc = rdx tf;
     let o_pgend = ROUNDUP (end_umem (procs s c)) PGSIZE;
     let n_pgend = ROUNDUP (end_umem (procs s c) + inc) PGSIZE;
     let new_pages = (n_pgend - o_pgend) div PGSIZE - nfreepages s;
     if n_pgend \<ge> UMAX \<or> sint new_pages \<ge> sint (nfreepages s - FREEPAGES_LOWWATER) then ret 0 tf s
     else do {
       s \<leftarrow> sbrk_pages (if o_pgend < n_pgend then unat (n_pgend - o_pgend) div 4096 else 0) c o_pgend s;
       let v = end_umem (procs s c);
       ret v tf (upd_proc c (\<lambda>p. p\<lparr>end_umem := end_umem p + inc\<rparr>) s)
     }
   }"

definition sys_getpid :: "proc_context \<Rightarrow> 'a dstate_scheme \<Rightarrow> (flow \<times> 'a dstate_scheme) option" where
  "sys_getpid tf s = do { c \<leftarrow> curproc s; ret (pid (procs s c)) tf s }"

end
