(* ===== verification/Exec.thy ===== *)
theory Exec
  imports Syscall
begin

text \<open>
  Programs: \<^verbatim>\<open>sys_exec\<close> and the dispatcher \<^verbatim>\<open>syscall\<close> of \<^verbatim>\<open>kernel/syscall.c\<close>, and \<^verbatim>\<open>create_proc\<close> of
  \<^verbatim>\<open>kernel/proc.c\<close>, which starts the first programs.  The image is read into pages mapped at
  \<^verbatim>\<open>EXEC_IMG\<close>, loaded from there, and the pages are given back.
\<close>

section \<open>Arguments\<close>

text \<open>The static buffer \<^verbatim>\<open>argv_buf[16][256]\<close>, row after row.\<close>

definition put_arg :: "nat \<Rightarrow> u8 \<Rightarrow> 'a dstate_scheme \<Rightarrow> 'a dstate_scheme option" where
  "put_arg j v s = (if j \<ge> NARGS * ARGLEN then None else Some (s\<lparr>argv_buf := (argv_buf s)(j := v)\<rparr>))"

text \<open>\<^verbatim>\<open>strncpy(argv_buf[i], src, n)\<close> from the index \<open>j\<close> on.\<close>

primrec copy_arg :: "nat \<Rightarrow> nat \<Rightarrow> u64 \<Rightarrow> 'a dstate_scheme \<Rightarrow> 'a dstate_scheme option" where
  "copy_arg 0 j src s = put_arg j 0 s"
| "copy_arg (Suc n) j src s = do {
     b \<leftarrow> vload8 s src;
     if b = 0 then put_arg j 0 s
     else do { s \<leftarrow> put_arg j b s; copy_arg n (Suc j) (src + 1) s }
   }"

text \<open>The loop over the arguments, \<open>k\<close> of them left; False when a pointer is bad.\<close>

primrec copy_args :: "nat \<Rightarrow> nat \<Rightarrow> nat \<Rightarrow> u64 \<Rightarrow> 'a dstate_scheme \<Rightarrow> (bool \<times> 'a dstate_scheme) option" where
  "copy_args 0 i c argv s = Some (True, s)"
| "copy_args (Suc k) i c argv s = do {
     p \<leftarrow> vload_le 8 s (argv + 8 * of_nat i);
     (ok, s) \<leftarrow> check_str (p_pgtbl (procs s c)) p (of_nat ARGLEN) PTE_U s;
     if \<not> ok then Some (False, s)
     else do {
       s \<leftarrow> copy_arg ARGLEN (i * ARGLEN) p s;
       copy_args k (Suc i) c argv s
     }
   }"

section \<open>The pages of the image\<close>

definition img_pages :: "u64 \<Rightarrow> nat" where
  "img_pages len = (if EXEC_IMG < EXEC_IMG + len then (unat len + 4095) div 4096 else 0)"

text \<open>Mapping \<open>n\<close> pages from \<open>addr\<close> on; the first component is the number of pages missing.\<close>

primrec map_img :: "nat \<Rightarrow> u64 \<Rightarrow> 'a kmem_scheme \<Rightarrow> (nat \<times> 'a kmem_scheme) option" where
  "map_img 0 addr s = Some (0, s)"
| "map_img (Suc n) addr s = do {
     ((r, pte), s) \<leftarrow> walk_pgtbl (k_pgtbl s) addr True s;
     if r < 0 then Some (Suc n, s)
     else do {
       e \<leftarrow> pte_load s pte;
       if e \<noteq> 0 then None
       else do {
         (page, s) \<leftarrow> alloc_page FLAG_ZERO s;
         pa \<leftarrow> pi_paddr s page;
         s \<leftarrow> pte_store pte (pa OR PTE_P) s;
         map_img n (addr + PGSIZE) s
       }
     }
   }"

primrec free_img :: "nat \<Rightarrow> u64 \<Rightarrow> 'a kmem_scheme \<Rightarrow> 'a kmem_scheme option" where
  "free_img 0 addr s = Some s"
| "free_img (Suc n) addr s = do {
     ((r, pte), s) \<leftarrow> walk_pgtbl (k_pgtbl s) addr False s;
     p \<leftarrow> pte;
     if p = 0 \<or> r \<noteq> 0 then None
     else do {
       s \<leftarrow> free_page (PA2PGINFO s (kload64 s p)) s;
       free_img n (addr + PGSIZE) (kstore64 p 0 s)
     }
   }"

section \<open>The new address space\<close>

definition USER_CODE_SEL :: u64 where "USER_CODE_SEL = 0x18"
definition USER_DATA_SEL :: u64 where "USER_DATA_SEL = 0x20"
definition KERN_CODE_SEL :: u64 where "KERN_CODE_SEL = 0x08"
definition RFLAGS_IF :: u64 where "RFLAGS_IF = 0x200"
definition RFLAGS_IOPL_SHIFT :: nat where "RFLAGS_IOPL_SHIFT = 12"

text \<open>A zeroed user page at \<open>va\<close>: the code of the walk and the kernel address of the page.\<close>

definition new_upage :: "u64 \<Rightarrow> u64 \<Rightarrow> 'a kmem_scheme \<Rightarrow> ((int \<times> u64) \<times> 'a kmem_scheme) option" where
  "new_upage tbl va s = do {
     ((r, pte), s) \<leftarrow> walk_pgtbl tbl va True s;
     if r < 0 then Some ((r, 0), s)
     else do {
       e \<leftarrow> pte_load s pte;
       if e \<noteq> 0 then None
       else do {
         (page, s) \<leftarrow> alloc_page FLAG_ZERO s;
         pa \<leftarrow> pi_paddr s page;
         s \<leftarrow> pte_store pte (pa OR PTE_P OR PTE_U OR PTE_W) s;
         e \<leftarrow> pte_load s pte;
         Some ((r, PAGEKADDR e), s)
       }
     }
   }"

definition fill_uargv :: "u64 \<Rightarrow> 'a kmem_scheme \<Rightarrow> 'a kmem_scheme option" where
  "fill_uargv stack = for_loop [0..<NARGS] (\<lambda>i s.
     Some (kstore64 (stack + PGSIZE - of_nat NARGS * 8 + 8 * of_nat i) (UARGS + 256 * of_nat i) s))"

definition fill_uargs :: "u64 \<Rightarrow> 'a dstate_scheme \<Rightarrow> 'a dstate_scheme option" where
  "fill_uargs pg = for_loop [0..<NARGS * ARGLEN] (\<lambda>j s. Some (kstore8 (pg + of_nat j) (argv_buf s j) s))"

definition start_context :: "u64 \<Rightarrow> proc_context \<Rightarrow> proc_context" where
  "start_context entry c = c\<lparr>rip := entry, cs := USER_CODE_SEL OR 3, rsp := USTACK - of_nat NARGS * 8,
     ss := USER_DATA_SEL OR 3, rflags := 0x02 OR RFLAGS_IF OR push_bit RFLAGS_IOPL_SHIFT 3, rsi := USTACK - of_nat NARGS * 8\<rparr>"

text \<open>
  From the image to the ready process; the first component is negative when the process has to be
  killed.
\<close>

definition exec_load :: "nat \<Rightarrow> proc_context \<Rightarrow> 'a dstate_scheme \<Rightarrow> (int \<times> 'a dstate_scheme) option" where
  "exec_load c tf s = do {
     (r, s) \<leftarrow> load_img EXEC_IMG c s;
     if r < 0 then Some (r, s)
     else do {
       ((r, stack), s) \<leftarrow> new_upage (pgtbl (procs s c)) (USTACK - PGSIZE) s;
       if r < 0 then Some (r, s)
       else do {
         s \<leftarrow> fill_uargv stack s;
         ((r, pg), s) \<leftarrow> new_upage (pgtbl (procs s c)) UARGS s;
         if r < 0 then Some (r, s)
         else do {
           s \<leftarrow> fill_uargs pg s;
           let tbl = P2K (pgtbl (procs s c));
           s \<leftarrow> for_loop [256..<512] (\<lambda>i s. Some (kstore64 (slot tbl i) (kload64 s (slot (k_pgtbl s) i)) s)) s;
           (_, s) \<leftarrow> copy_pgtbl (p_pgtbl (procs s c)) (pgtbl (procs s c)) 0 s;
           entry \<leftarrow> e_entry s EXEC_IMG;
           Some (0, upd_proc c (\<lambda>p. p\<lparr>ctx := (start_context entry (clear_proc_context (ctx p)))\<lparr>rdi := rcx tf\<rparr>,
                                      state := READY\<rparr>) s)
         }
       }
     }
   }"

text \<open>
  When the pages for the image run out, the code jumps to the common exit before \<^verbatim>\<open>proc\<close> is set and
  uses it there.
\<close>

definition sys_exec :: "proc_context \<Rightarrow> 'a dstate_scheme \<Rightarrow> (flow \<times> 'a dstate_scheme) option" where
  "sys_exec tf s = do {
     c \<leftarrow> curproc s;
     let argc = sint (ucast (rcx tf) :: u32);
     if argc > int NARGS then fail EINVAL tf s
     else do {
       (ok, s) \<leftarrow> copy_args (nat argc) 0 c (rbx tf) s;
       if \<not> ok then fail EINVAL tf s
       else do {
         ((r, f), s) \<leftarrow> open_file (user_path (rdx tf)) (Some (pwd (procs s c))) zero_fdesc s;
         if r < 0 then ret (of_int r) tf s
         else do {
           let n = img_pages (file_len f);
           (missing, s) \<leftarrow> map_img n EXEC_IMG s;
           if missing > 0 then None
           else do {
             (_, s) \<leftarrow> read_file EXEC_IMG (ucast (file_len f)) f s;
             r \<leftarrow> check_img_format EXEC_IMG s;
             if r < 0
             then do { s \<leftarrow> free_img n EXEC_IMG s; fail ENOEXEC tf s }
             else do {
               let s = upd_proc c (\<lambda>p. p\<lparr>state := PENDING\<rparr>) s;
               let s = s\<lparr>cr3 := K2P (k_pgtbl s)\<rparr>;
               s \<leftarrow> free_pgtbl (pgtbl (procs s c)) FREE_PGTBL_DECREF s;
               s \<leftarrow> free_pgtbl (p_pgtbl (procs s c)) 0 s;
               (page, s) \<leftarrow> alloc_page FLAG_ZERO s;
               pa \<leftarrow> pi_paddr s page;
               let s = upd_proc c (\<lambda>p. p\<lparr>pgtbl := pa\<rparr>) s;
               (page, s) \<leftarrow> alloc_page FLAG_ZERO s;
               pa \<leftarrow> pi_paddr s page;
               let s = upd_proc c (\<lambda>p. p\<lparr>p_pgtbl := pa\<rparr>) s;
               (r, s) \<leftarrow> exec_load c tf s;
               s \<leftarrow> (if r < 0 then kill_proc c (of_int r) s else Some s);
               s \<leftarrow> free_img n EXEC_IMG s;
               resched (s\<lparr>fx_ctxs := (fx_ctxs s)(c := zero_fx\<lparr>MXCSR := MXCSR_MASKALL\<rparr>)\<rparr>)
             }
           }
         }
       }
     }
   }"

section \<open>The dispatcher\<close>

definition syscall :: "proc_context \<Rightarrow> 'a dstate_scheme \<Rightarrow> (flow \<times> 'a dstate_scheme) option" where
  "syscall tf s =
     (let num = sint (ucast (rax tf) :: u32)
      in if num = SYS_exit then sys_exit (rdx tf) s
         else if num = SYS_fork then sys_fork tf s
         else if num = SYS_exec then sys_exec tf s
         else if num = SYS_wait then sys_wait tf s
         else if num = SYS_open then sys_open tf s
         else if num = SYS_read then sys_read tf s
         else if num = SYS_write then sys_write tf s
         else if num = SYS_close then sys_close tf s
         else if num = SYS_opendir then sys_opendir tf s
         else if num = SYS_readdir then sys_readdir tf s
         else if num = SYS_chdir then sys_chdir tf s
         else if num = SYS_pipe then sys_pipe tf s
         else if num = SYS_sbrk then sys_sbrk tf s
         else if num = SYS_getpid then sys_getpid tf s
         else do {
           s \<leftarrow> kprintk (''unknown syscall %d'' @ nl) [Slot (of_int num)] s;
           c \<leftarrow> curproc s;
           s \<leftarrow> kill_proc c (of_int (- 0xFF)) s;
           Some (Back tf, s)
         })"

section \<open>The first processes\<close>

text \<open>At boot the low half of the address space is mapped to itself, so \<^verbatim>\<open>proc->pgtbl[i]\<close> is reached at its physical address.\<close>

definition create_proc :: "u64 \<Rightarrow> 'a dstate_scheme \<Rightarrow> (int \<times> 'a dstate_scheme) option" where
  "create_proc img s = do {
     (p, s) \<leftarrow> alloc_proc s;
     case p of
       None \<Rightarrow> Some (- EAGAIN, s)
     | Some i \<Rightarrow> do {
         (r, s) \<leftarrow> load_img img i s;
         if r \<noteq> 0 then None
         else do {
           ((r, stack), s) \<leftarrow> new_upage (pgtbl (procs s i)) (USTACK - PGSIZE) s;
           if r < 0 then None
           else do {
             s \<leftarrow> fill_uargv stack s;
             ((r, _), s) \<leftarrow> new_upage (pgtbl (procs s i)) UARGS s;
             if r \<noteq> 0 then None
             else do {
               s \<leftarrow> for_loop [256..<512] (\<lambda>k s. vstore64 (slot (pgtbl (procs s i)) k) (kload64 s (slot (k_pgtbl s) k)) s) s;
               (_, s) \<leftarrow> copy_pgtbl (p_pgtbl (procs s i)) (pgtbl (procs s i)) 0 s;
               ((_, f), s) \<leftarrow> open_dir (\<lambda>_. cstr ''/'') None (pwd (procs s i)) s;
               let s = upd_proc i (\<lambda>p. p\<lparr>pwd := f\<rparr>) s;
               let s = set_fd i 0 ((fdesc (procs s i) 0)\<lparr>file_type := FT_KBD, inuse := True\<rparr>) s;
               let s = set_fd i 1 ((fdesc (procs s i) 1)\<lparr>file_type := FT_SCREEN, inuse := True\<rparr>) s;
               let s = set_fd i 2 ((fdesc (procs s i) 2)\<lparr>file_type := FT_SCREEN, inuse := True\<rparr>) s;
               entry \<leftarrow> e_entry s img;
               Some (0, upd_proc i (\<lambda>p. p\<lparr>ctx := start_context entry (ctx p), state := READY\<rparr>) s)
             }
           }
         }
       }
   }"

end
