(* ===== verification/Intr.thy ===== *)
theory Intr
  imports Exec
begin

text \<open>
  Interrupts: the descriptor table, \<^verbatim>\<open>page_fault_handler\<close> with copy-on-write, and \<^verbatim>\<open>trap_handler\<close> of
  \<^verbatim>\<open>kernel/intr.c\<close>.  What the processor and the devices supply with an interrupt are arguments:
  the live SSE registers, CR2, and the status and data bytes of the keyboard controller.
\<close>

section \<open>The descriptor table\<close>

definition NIDT :: nat where "NIDT = 72"

record IDTGateDesc =
  offset1 :: u16
  seg_sel :: u16
  g_ist :: u8
  g_zeros :: u8
  g_type :: u8
  g_S :: u8
  g_DPL :: u8
  g_P :: u8
  offset2 :: u16
  offset3 :: u32
  g_reserved :: u32

record IDTDesc =
  idt_limit :: u16
  idt_addr :: u64

text \<open>The entry points, in the order of the table \<^verbatim>\<open>intr_entry\<close>.\<close>

definition intr_entry :: "string list" where
  "intr_entry =
    [''_divide_error_entry'', ''_debug_exception_entry'', ''_nmi_interrupt_entry'', ''_breakpoint_entry'',
     ''_overflow_entry'', ''_bound_range_exceeded_entry'', ''_invalid_opcode_entry'', ''_no_math_coprocessor_entry'',
     ''_double_fault_entry'', ''_coprocesor_segment_overrun_entry'', ''_invalid_tss_entry'',
     ''_segment_not_present_entry'', ''_stack_segment_fault_entry'', ''_general_protection_entry'',
     ''_page_fault_entry'', ''_reserved_15_entry'', ''_math_fault_entry'', ''_alignment_check_entry'',
     ''_machine_check_entry'', ''_simd_floating_point_exception_entry'', ''_virtualization_exception_entry'',
     ''_control_protection_exception_entry'', ''_reserved_22_entry'', ''_reserved_23_entry'', ''_reserved_24_entry'',
     ''_reserved_25_entry'', ''_reserved_26_entry'', ''_reserved_27_entry'', ''_reserved_28_entry'',
     ''_reserved_29_entry'', ''_reserved_30_entry'', ''_reserved_31_entry'', ''_syscall_entry'', ''_timer_entry'',
     ''_apic_error_entry'', ''_apic_spurious_entry'', ''_apic_keyboard_entry'', ''_unused_intr_37_entry'',
     ''_unused_intr_38_entry'', ''_unused_intr_39_entry'', ''_unused_intr_40_entry'', ''_unused_intr_41_entry'',
     ''_unused_intr_42_entry'', ''_unused_intr_43_entry'', ''_unused_intr_44_entry'', ''_unused_intr_45_entry'',
     ''_unused_intr_46_entry'', ''_unused_intr_47_entry'', ''_ioapic_0_entry'', ''_ioapic_1_entry'', ''_ioapic_2_entry'',
     ''_ioapic_3_entry'', ''_ioapic_4_entry'', ''_ioapic_5_entry'', ''_ioapic_6_entry'', ''_ioapic_7_entry'',
     ''_ioapic_8_entry'', ''_ioapic_9_entry'', ''_ioapic_10_entry'', ''_ioapic_11_entry'', ''_ioapic_12_entry'',
     ''_ioapic_13_entry'', ''_ioapic_14_entry'', ''_ioapic_15_entry'', ''_ioapic_16_entry'', ''_ioapic_17_entry'',
     ''_ioapic_18_entry'', ''_ioapic_19_entry'', ''_ioapic_20_entry'', ''_ioapic_21_entry'', ''_ioapic_22_entry'',
     ''_ioapic_23_entry'']"

definition gate :: "u64 \<Rightarrow> IDTGateDesc" where
  "gate a = \<lparr>offset1 = ucast (a AND MASK 16), seg_sel = ucast KERN_CODE_SEL, g_ist = 0, g_zeros = 0, g_type = 14,
     g_S = 0, g_DPL = 3, g_P = 1, offset2 = ucast (drop_bit 16 a AND MASK 16), offset3 = ucast (drop_bit 32 a),
     g_reserved = 0\<rparr>"

text \<open>
  The table that \<^verbatim>\<open>init_intr\<close> fills and the register it loads, for entry points at the addresses
  \<open>entry_addr\<close>; the table takes the memory behind the kernel's.  Like page descriptors and processes the
  gates are kept typed, apart from the bytes of \<open>pmem\<close>; the gates of the two loops differ in the entry point only.
\<close>

definition init_intr ::
    "(string \<Rightarrow> u64) \<Rightarrow> 'a kmem_scheme \<Rightarrow> ((nat \<Rightarrow> IDTGateDesc) \<times> IDTDesc) \<times> 'a kmem_scheme" where
  "init_intr entry_addr s =
     (let idt = ROUNDUP (end_kmem s) 16;
          s = s\<lparr>end_kmem := idt + 256 * 16\<rparr>;
          tbl = (\<lambda>i. if i < NIDT then gate (entry_addr (intr_entry ! i)) else gate (entry_addr ''_reserved_31_entry''))
      in ((tbl, \<lparr>idt_limit = 16 * 256 - 1, idt_addr = idt\<rparr>), s))"

section \<open>Local APIC\<close>

definition LAPICR_EOI :: nat where "LAPICR_EOI = 0x00B0 div 4"

definition lapicw :: "nat \<Rightarrow> u32 \<Rightarrow> 'a dstate_scheme \<Rightarrow> 'a dstate_scheme" where
  "lapicw i v s = s\<lparr>lapic := (lapic s)(i := v)\<rparr>"

definition lapic_eoi :: "'a dstate_scheme \<Rightarrow> 'a dstate_scheme" where
  "lapic_eoi = lapicw LAPICR_EOI 0"

section \<open>Diagnostics\<close>

definition print_tf :: "proc_context \<Rightarrow> 'a dstate_scheme \<Rightarrow> 'a dstate_scheme option" where
  "print_tf tf s = do {
     s \<leftarrow> kprintk (''rax: %lx, rcx: %lx, rdx: %lx, rbx: %lx'' @ nl) [Slot (rax tf), Slot (rcx tf), Slot (rdx tf), Slot (rbx tf)] s;
     s \<leftarrow> kprintk (''rdi: %lx, rsi: %lx, rbp: %lx'' @ nl) [Slot (rdi tf), Slot (rsi tf), Slot (rbp tf)] s;
     s \<leftarrow> kprintk (''r8: %lx, r9: %lx, r10: %lx, r11: %lx'' @ nl) [Slot (r8 tf), Slot (r9 tf), Slot (r10 tf), Slot (r11 tf)] s;
     s \<leftarrow> kprintk (''r12: %lx, r13: %lx, r14: %lx, r15: %lx'' @ nl) [Slot (r12 tf), Slot (r13 tf), Slot (r14 tf), Slot (r15 tf)] s;
     kprintk (''cs: %lx, rip: %lx, ss: %lx, rsp: %lx'' @ nl) [Slot (cs tf), Slot (rip tf), Slot (ss tf), Slot (rsp tf)] s
   }"

definition print_fx :: "fx_context \<Rightarrow> 'a dstate_scheme \<Rightarrow> 'a dstate_scheme option" where
  "print_fx fx s = kprintk (''mxcsr: %lx, mxcsr_mask: %lx'' @ nl) [Slot (ucast (MXCSR fx)), Slot (ucast (MXCSR_MASK fx))] s"

section \<open>Page faults\<close>

definition print_fault :: "nat \<Rightarrow> u64 \<Rightarrow> u64 \<Rightarrow> 'a dstate_scheme \<Rightarrow> 'a dstate_scheme option" where
  "print_fault c cr2 err s = do {
     s \<leftarrow> kprintk (''cr2: %p'' @ nl) [Slot cr2] s;
     s \<leftarrow> kprintk (''errno: %lx'' @ nl) [Slot err] s;
     kprintk (''curproc: proc[%ld]'' @ nl) [Slot (of_nat c)] s
   }"

text \<open>The process \<open>c\<close> writes to a page that its own page table \<^verbatim>\<open>p_pgtbl\<close> lets it write.\<close>

definition copy_on_write :: "nat \<Rightarrow> u64 \<Rightarrow> 'a kstate_scheme \<Rightarrow> 'a kstate_scheme option" where
  "copy_on_write c vaddr s = do {
     ((_, pte), s) \<leftarrow> walk_pgtbl (pgtbl (procs s c)) vaddr False s;
     e \<leftarrow> pte_load s pte;
     let pg = PA2PGINFO s e;
     if ref (page_infos s pg) = 1 then pte_store pte (e OR PTE_W) s
     else do {
       let s = set_ref_next pg (ref_next (page_infos s pg) - 1) s;
       (page, s) \<leftarrow> alloc_page 0 s;
       e \<leftarrow> pte_load s pte;
       pa \<leftarrow> pi_paddr s page;
       let s = copy_page (PAGEKADDR pa) (PAGEKADDR e) s;
       s \<leftarrow> pte_store pte (pa OR PTE_P OR PTE_U OR PTE_W) s;
       ((_, pte), s) \<leftarrow> walk_pgtbl (p_pgtbl (procs s c)) vaddr False s;
       pte_store pte (pa OR PTE_P OR PTE_U OR PTE_W) s
     }
   }"

definition page_fault_handler :: "u64 \<Rightarrow> proc_context \<Rightarrow> u64 \<Rightarrow> 'a dstate_scheme \<Rightarrow> (flow \<times> 'a dstate_scheme) option" where
  "page_fault_handler cr2 tf err s = do {
     c \<leftarrow> curproc s;
     if err \<noteq> 7
     then do {
       s \<leftarrow> print_fault c cr2 err s;
       s \<leftarrow> print_tf tf s;
       if cs tf = KERN_CODE_SEL then None
       else do { s \<leftarrow> kill_proc c (of_int (- 0xFF)) s; resched s }
     }
     else do {
       ((r, pte), s) \<leftarrow> walk_pgtbl (p_pgtbl (procs s c)) cr2 False s;
       cow \<leftarrow> (if r = 0 then map_option (\<lambda>e. e AND (PTE_P OR PTE_U OR PTE_W) = PTE_P OR PTE_U OR PTE_W) (pte_load s pte)
              else Some False);
       if cow then do { s \<leftarrow> copy_on_write c cr2 s; Some (Back tf, s) }
       else do {
         s \<leftarrow> print_tf tf s;
         s \<leftarrow> print_fault c cr2 err s;
         s \<leftarrow> kill_proc c (of_int (- 0xFF)) s;
         resched s
       }
     }
   }"

section \<open>The trap handler\<close>

text \<open>A character for the process that waits for one.\<close>

definition deliver_key :: "proc_context \<Rightarrow> nat \<Rightarrow> nat \<Rightarrow> 'a dstate_scheme \<Rightarrow> (flow \<times> 'a dstate_scheme) option" where
  "deliver_key tf c k s = do {
     let s = s\<lparr>cr3 := K2P (pgtbl (procs s k))\<rparr>;
     let r = min (kbd_buf_siz s) (unat (rbx (ctx (procs s k))));
     s \<leftarrow> kbd_copy (rcx (ctx (procs s k))) r s;
     let s = upd_proc k (\<lambda>p. p\<lparr>ctx := (ctx p)\<lparr>rax := of_nat r\<rparr>, state := READY\<rparr>) s;
     let s = s\<lparr>kbd_proc := None\<rparr>;
     let s = upd_proc c (\<lambda>p. p\<lparr>ctx := tf, state := READY\<rparr>) s;
     resched (lapic_eoi s)
   }"

definition kbd_interrupt :: "u8 \<Rightarrow> u8 \<Rightarrow> proc_context \<Rightarrow> nat \<Rightarrow> 'a dstate_scheme \<Rightarrow> (flow \<times> 'a dstate_scheme) option" where
  "kbd_interrupt stat data tf c s =
     (let (ch, shift, reset) = kbd_getch stat data (kbd_shift s);
          s = s\<lparr>kbd_shift := shift\<rparr>
      in if reset then None
         else if ch > 0 \<and> kbd_buf_siz s < 4096
         then let s = kbd_put (of_int ch) s
              in case kbd_proc s of
                   Some k \<Rightarrow> deliver_key tf c k s
                 | None \<Rightarrow> Some (Back tf, lapic_eoi s)
         else Some (Back tf, lapic_eoi s))"

definition trap ::
    "u64 \<Rightarrow> u8 \<Rightarrow> u8 \<Rightarrow> proc_context \<Rightarrow> u64 \<Rightarrow> u64 \<Rightarrow> nat \<Rightarrow> 'a dstate_scheme \<Rightarrow> (flow \<times> 'a dstate_scheme) option" where
  "trap cr2 stat data tf vec err c s =
     (if vec = 0 then do { s \<leftarrow> kill_proc c (of_int (- 0xFF)) s; resched s }
      else if vec = 14 then page_fault_handler cr2 tf err s
      else if vec = 32 then syscall tf s
      else if vec = 33
      then resched (lapic_eoi (upd_proc c (\<lambda>p. p\<lparr>ctx := tf, state := READY, exec_time := exec_time p + 1\<rparr>) s))
      else if vec = 36 then kbd_interrupt stat data tf c s
      else do {
        s \<leftarrow> print_tf tf s;
        s \<leftarrow> print_fx (fx_ctxs s c) s;
        let s = lapic_eoi s;
        if cs tf \<noteq> KERN_CODE_SEL
        then do { s \<leftarrow> kprintk (''Ignore unknown interrupt.'' @ nl) [] s; Some (Back tf, s) }
        else None
      })"

text \<open>
  The registers the processor continues with: those of the frame and the saved SSE registers when the
  handler returns, those that \<^verbatim>\<open>run_proc\<close> loaded otherwise.
\<close>

definition trap_handler ::
    "fx_context \<Rightarrow> u64 \<Rightarrow> u8 \<Rightarrow> u8 \<Rightarrow> proc_context \<Rightarrow> u64 \<Rightarrow> u64 \<Rightarrow> 'a dstate_scheme \<Rightarrow>
     ((proc_context \<times> fx_context) \<times> 'a dstate_scheme) option" where
  "trap_handler live cr2 stat data tf vec err s = do {
     c \<leftarrow> curproc s;
     let s = fx_save live c s;
     (f, s) \<leftarrow> trap cr2 stat data tf vec err c s;
     case f of
       Back tf \<Rightarrow> do { c \<leftarrow> curproc s; Some ((tf, fx_restore c s), s) }
     | Away regs \<Rightarrow> Some (regs, s)
   }"

end
