(* ===== verification/DiskProp.thy ===== *)
theory DiskProp
  imports Part UBuf Kbd
begin

text \<open>
  Properties of the disk and file system code: when \<^verbatim>\<open>disk_read\<close> skips blocks, how names are matched
  and paths are kept, and what comparing GUIDs as strings does.
\<close>

section \<open>A state for the witnesses\<close>

definition zero_console :: console where
  "zero_console = \<lparr>ind = 0, rows = 0, cols = 0, height = 0, width = 0, hpixel = 0, vpixel = 0, bytes_per_glyph = 0,
     cbuf = (\<lambda>_. 0), pixelbuf = (\<lambda>_. 0), font = (\<lambda>_. 0)\<rparr>"

definition zero_disk :: disk_t where
  "zero_disk = \<lparr>disk_name = [], driver_type = DISK_SATA, disk_ind = 0, n_part = 0,
     part = (\<lambda>_. \<lparr>part_name = [], part_type = 0, fs_type = 0, lba_beg = 0, n_sec = 0\<rparr>)\<rparr>"

definition zero_port :: sata_port_regs where
  "zero_port = \<lparr>clb = 0, clbu = 0, fb = 0, fbu = 0, p_is = 0, p_ie = 0, p_cmd = 0, p_tfd = 0, p_sig = 0, p_ssts = 0,
     p_sctl = 0, p_serr = 0, p_sact = 0, p_ci = 0\<rparr>"

text \<open>A kernel state with one idle disk whose controller never answers.\<close>

definition with_devices :: "kstate \<Rightarrow> dstate" where
  "with_devices k = kstate.extend k (dstate.fields zero_console 0 1 (\<lambda>_. zero_disk)
     \<lparr>fs_part = None, hdr = 0, fat = 0, did = 0\<rparr> (\<lambda>_. 0) (\<lambda>_. zero_port) 0 0 (\<lambda>_ _ _. None) (\<lambda>_. 0) (\<lambda>_. 0))"

lemma with_devices_sel [simp]:
  "pmem (with_devices k) = pmem k" "cr3 (with_devices k) = cr3 k" "k_pgtbl (with_devices k) = k_pgtbl k"
  "procs (with_devices k) = procs k" "curproc (with_devices k) = curproc k" "n_disk (with_devices k) = 1"
  "disk (with_devices k) = (\<lambda>_. zero_disk)" "kbd_proc (with_devices k) = kbd_proc k" "nfreepages (with_devices k) = nfreepages k"
  by (simp_all add: with_devices_def kstate.extend_def dstate.fields_def)

text \<open>One user page at 0x400000, with any contents.\<close>

lemma ex_translate:
  assumes m: "\<And>x. page_of x \<noteq> 0x206000 \<Longrightarrow> m x = ex_tbl x" and va: "PAGEADDR va = 0x400000"
  shows "translate m 0x207000 va = Some (0x206000 OR (va AND mask 12))"
proof -
  have "ent m t j = ent ex_tbl t j" if "t \<in> {0x207000, 0x208000, 0x209000, 0x20A000}" "j < 512" for t j
    by (rule agree_ent[of "{0x207000, 0x208000, 0x209000, 0x20A000}"])
      (use that m in \<open>auto simp: agree_def is_page_def mask_eq_exp_minus_1\<close>)
  from this[of "0x207000" 0] this[of "0x208000" 0] this[of "0x209000" 2] this[of "0x20A000" 0]
  have e: "load64 m 0x207000 = 0x208007" "load64 m 0x208000 = 0x209007" "load64 m 0x209010 = 0x20A007" "load64 m 0x20A000 = 0x206007"
    using ex_tbl_ent(1)[of 0] ex_tbl_ent(2)[of 0] ex_tbl_ent(3)[of 2] ex_tbl_ent(4)[of 0] by (simp_all add: slot_def)
  have d: "drop_bit k va = drop_bit k 0x400000" if "12 \<le> k" for k
    using index_page[OF that, of va] va by simp
  have "\<not> bit va 63" "bit va n = bit (0x400000 :: u64) n" if "12 \<le> n" "n < 64" for n
    using arg_cong[OF va, of "\<lambda>x. bit x n"] arg_cong[OF va, of "\<lambda>x. bit x 63"] that
    by (simp_all add: PAGEADDR_def PGMASK_eq bit_simps)
  then have "va AND KERNBASE = 0x400000 AND KERNBASE"
    by (intro u64_eqI) (auto simp: bit_simps KERNBASE_eq)
  then have c: "canonical va" by (simp add: canonical_def KERNBASE_def)
  show ?thesis
    using c by (simp add: translate_def mmu_entry_def PHYS_MASK_def PML4_INDEX_def PML4_OFFSET_def
        PDPT_INDEX_def PDPT_OFFSET_def PD_INDEX_def PD_OFFSET_def PT_INDEX_def PT_OFFSET_def PTE_P_def PDPTE_PS_def d e)
qed

definition ex_page :: "(u64 \<times> u8) list \<Rightarrow> dstate" where
  "ex_page wr = with_devices (ex_kbd\<lparr>pmem := fold (\<lambda>(k, v) m. m(0x206000 OR (k AND mask 12) := v)) wr ex_tbl\<rparr>)"

lemma ex_page_outside:
  "page_of x \<noteq> 0x206000 \<Longrightarrow> fold (\<lambda>(k, v) m. m(0x206000 OR (k AND mask 12) := v)) wr m0 x = m0 x"
proof (induction wr arbitrary: m0)
  case (Cons b wr)
  obtain k v where b: "b = (k, v)" by (cases b)
  have "page_of (0x206000 OR (k AND mask 12) :: u64) = 0x206000"
  proof -
    have "(k AND mask 12) AND NOT (mask 12) = (0 :: u64)" by (rule u64_eqI) (simp add: bit_simps)
    moreover have "(0x206000 :: u64) AND NOT (mask 12) = 0x206000" by (simp add: mask_eq_exp_minus_1)
    ultimately show ?thesis by (simp only: bit.conj_disj_distrib2) simp
  qed
  then have "x \<noteq> 0x206000 OR (k AND mask 12)" using Cons.prems by auto
  then show ?case using Cons.IH[of "m0(0x206000 OR (k AND mask 12) := v)"] Cons.prems b by simp
qed simp

lemma ex_page_vload8:
  "PAGEADDR va = 0x400000 \<Longrightarrow> vload8 (ex_page wr) va = Some (pmem (ex_page wr) (0x206000 OR (va AND mask 12)))"
  using ex_translate[of "pmem (ex_page wr)" va] ex_page_outside[of _ wr ex_tbl] by (simp add: vload8_def ex_page_def)

section \<open>Cached blocks\<close>

lemma disk_read_loop_cached:
  assumes "walk_pgtbl (k_pgtbl s) (lba2kaddr d lba) False s = Some ((0, pte), s)" and "pte_load s pte = Some e"
    and "e AND PTE_P \<noteq> 0"
  shows "disk_read_loop k d lba s = Some (0, s)"
  using assms by (induction k) simp_all

text \<open>
  C37: When the first block of a request is in the cache, \<^verbatim>\<open>disk_read\<close> reports success without reading any of
  the other blocks: an iteration that finds its block mapped continues without advancing \<^verbatim>\<open>lba\<close>, so every
  iteration looks at the first block.
\<close>
theorem disk_read_stops_at_cached:
  assumes "d < n_disk s" and "driver_type (disk s d) = DISK_SATA"
    and "no_huge (pmem s) (sub (k_pgtbl s)) (va_path (lba2kaddr d lba))"
    and "lookup (pmem s) (sub (k_pgtbl s)) (va_indices (lba2kaddr d lba)) = e" and "e AND PTE_P \<noteq> 0"
  shows "disk_read d lba n s = Some (0, s)"
proof -
  have "e \<noteq> 0" using assms(5) by auto
  from walk_lookup[OF assms(3,4) this] obtain pte where
    "walk_pgtbl (k_pgtbl s) (lba2kaddr d lba) False s = Some ((0, Some pte), s)" "pte_load s (Some pte) = Some e" .
  then show ?thesis using assms(1,2,5) disk_read_loop_cached by (simp add: disk_read_def)
qed

text \<open>One block in the cache: block 0 of disk 0 is mapped, block 1 is not.\<close>

definition ex_cache :: bytes where
  "ex_cache = store64 (store64 (store64 (store64 (\<lambda>_. 0)
     (slot 0x207000 384) 0x208003) (slot 0x208000 0) 0x209003) (slot 0x209000 0) 0x20A003)
     (slot 0x20A000 0) 0x206001"

lemma ex_cache_ent:
  assumes "i < 512"
  shows "ent ex_cache 0x207000 i = (if i = 384 then 0x208003 else 0)"
    and "ent ex_cache 0x208000 i = (if i = 0 then 0x209003 else 0)"
    and "ent ex_cache 0x209000 i = (if i = 0 then 0x20A003 else 0)"
    and "ent ex_cache 0x20A000 i = (if i = 0 then 0x206001 else 0)"
  using assms by (simp_all add: ex_cache_def mem64.load_store slot_inj load64_zero)

definition ex_cached :: dstate where
  "ex_cached = with_devices (ex_kbd\<lparr>pmem := ex_cache, k_pgtbl := 0x207000\<rparr>)"

lemma ex_cache_path: "va_path (lba2kaddr 0 0) = [384, 0, 0]" "va_indices (lba2kaddr 0 0) = [384, 0, 0, 0]"
  "va_indices (lba2kaddr 0 8) = [384, 0, 0, 1]"
  by (simp_all add: va_indices_def va_path_def lba2kaddr_def KDISK_def PML4_INDEX_def PML4_OFFSET_def PDPT_INDEX_def
      PDPT_OFFSET_def PD_INDEX_def PD_OFFSET_def PT_INDEX_def PT_OFFSET_def PGSHIFT_def)

lemma ex_cache_child:
  "child 0x208003 = Some 0x208000" "child 0x209003 = Some 0x209000" "child 0x20A003 = Some 0x20A000" "sub 0x207000 = 0x207000"
  by (simp_all add: child_def PTE_P_def PDPTE_PS_def sub_def mask_eq_exp_minus_1)

theorem disk_read_stops_at_cached_witness:
  "disk_read 0 0 16 ex_cached = Some (0, ex_cached) \<and> lookup (pmem ex_cached) (sub (k_pgtbl ex_cached)) (va_indices (lba2kaddr 0 8)) = 0"
proof -
  have h: "no_huge ex_cache 0x207000 [384, 0, 0]"
    by (simp add: ex_cache_ent ex_cache_child PDPTE_PS_def)
  have l: "lookup ex_cache 0x207000 [384, 0, 0, 0] = 0x206001" "lookup ex_cache 0x207000 [384, 0, 0, 1] = 0"
    by (simp_all add: ex_cache_ent ex_cache_child)
  have "disk_read 0 0 16 ex_cached = Some (0, ex_cached)"
    by (rule disk_read_stops_at_cached[where e = "0x206001"])
      (simp_all add: ex_cached_def ex_cache_path ex_cache_child h l zero_disk_def PTE_P_def del: no_huge.simps lookup.simps)
  then show ?thesis using l by (simp add: ex_cached_def ex_cache_path ex_cache_child del: lookup.simps)
qed

section \<open>Paths\<close>

lemma last_slash_append:
  assumes "47 \<notin> set nm" and "k \<le> length nm"
  shows "last_slash (p @ 47 # nm) (length p + Suc k) = Some (length p)"
  using assms(2)
proof (induction k)
  case (Suc k)
  have "nm ! k \<in> set nm" using Suc.prems by simp
  then have "nm ! k \<noteq> 47" using assms(1) by auto
  then show ?case using Suc by (simp add: nth_append)
qed (simp add: nth_append)

text \<open>
  C38: Leaving a directory undoes entering it: \<^verbatim>\<open>path_pop\<close> gives back the path, and the length, that
  \<^verbatim>\<open>path_push\<close> extended by a name without a slash.
\<close>
theorem path_pop_push:
  assumes "47 \<notin> set nm" and "p = [] \<or> hd p = 47" and "length p + 1 + length nm < 256"
  shows "\<exists>n q. path_push p nm = Some (n, q) \<and> unat n = length q - length p \<and> path_pop q (length q) = Some (n, p)"
proof -
  let ?q = "p @ 47 # nm"
  have "?q ! 0 = 47" using assms(2) by (cases p) auto
  then have "path_pop ?q (length ?q) = Some (1 + of_nat (length nm), p)"
    using last_slash_append[OF assms(1) order_refl, of p] by (simp add: path_pop_def)
  moreover have "unat (1 + of_nat (length nm) :: u64) = 1 + length nm"
    using assms(3) by (simp add: unat_word_ariths unat_of_nat)
  ultimately show ?thesis using assms(3) by (simp add: path_push_def)
qed

theorem path_pop_push_witness:
  "path_pop [47, 97, 47, 98, 99] (length [47 :: u8, 97, 47, 98, 99]) = Some (3, [47, 97])"
  using path_pop_push[of "[98, 99]" "[47, 97]"] by (simp add: path_push_def)

section \<open>File names\<close>

lemma cmp_name_spec:
  "cmp_name name n flen fn k ptr False = (ptr', dis) \<Longrightarrow> ptr \<le> flen \<Longrightarrow> ptr \<le> n \<Longrightarrow> k \<le> 15 \<Longrightarrow>
   (\<not> dis \<and> ptr' = flen \<and> ptr' = n) \<longleftrightarrow>
     flen = n \<and> n - ptr \<le> 15 - k \<and> (\<forall>j < n - ptr. \<not> cmp_fn (name (ptr + j)) (fn (k + j)))"
proof (induction "15 - k" arbitrary: k ptr)
  case 0
  then show ?case by (auto simp: cmp_name.simps)
next
  case (Suc m)
  show ?case
  proof (cases "ptr < flen \<and> ptr < n")
    case False
    then show ?thesis using Suc.prems by (auto simp: cmp_name.simps)
  next
    case True
    have k: "k < 15" using Suc.hyps(2) by simp
    have un: "cmp_name name n flen fn k ptr False = cmp_name name n flen fn (Suc k) (Suc ptr) (cmp_fn (name ptr) (fn k))"
      using True k by (subst cmp_name.simps) simp
    have all: "(\<forall>j < n - ptr. \<not> cmp_fn (name (ptr + j)) (fn (k + j))) \<longleftrightarrow>
        \<not> cmp_fn (name ptr) (fn k) \<and> (\<forall>j < n - Suc ptr. \<not> cmp_fn (name (Suc ptr + j)) (fn (Suc k + j)))"
    proof -
      have "n - ptr = Suc (n - Suc ptr)" using True by (simp add: Suc_diff_Suc)
      then show ?thesis by (simp add: All_less_Suc2)
    qed
    show ?thesis
    proof (cases "cmp_fn (name ptr) (fn k)")
      case True
      then have "dis" using Suc.prems(1) un by (simp add: cmp_name.simps[of name n flen fn "Suc k"])
      then show ?thesis using True all by simp
    next
      case False
      then show ?thesis
        using Suc.hyps(1)[of "Suc k" "Suc ptr"] Suc.hyps(2) Suc.prems un True k all by auto
    qed
  qed
qed

text \<open>Two names of the same length that differ at most in the case of their letters.\<close>

definition same_name :: "u8 list \<Rightarrow> u8 list \<Rightarrow> bool" where
  "same_name xs ys \<longleftrightarrow> map to_upper_case xs = map to_upper_case ys"

text \<open>
  C39: Name matching.  A file name entry completes a match exactly when the name that is looked for has the
  length of the stored one, both end within this entry, and they agree up to case in the characters
  from \<^verbatim>\<open>name_ptr\<close> on.  Of the stored 16-bit characters only the low byte counts.
\<close>
theorem exfat_name_match:
  assumes "entry_type s e = Some 0xC1" and "fn_chars s e = Some fn"
    and "name_ptr l \<le> length nm" and "name_ptr l \<le> fn_len l" and "\<not> name_dismatch l"
  shows "(\<exists>l'. walk_entry (\<lambda>k. nm ! k) (length nm) e l s = Some (l', Some True)) \<longleftrightarrow>
    fn_len l = length nm \<and> length nm \<le> name_ptr l + 15 \<and>
    same_name (drop (name_ptr l) nm) (map (\<lambda>j. ucast (fn j)) [0..<length nm - name_ptr l])"
proof -
  obtain ptr dis where c: "cmp_name (\<lambda>k. nm ! k) (length nm) (fn_len l) fn 0 (name_ptr l) False = (ptr, dis)"
    by (metis prod.exhaust)
  have "(\<exists>l'. walk_entry (\<lambda>k. nm ! k) (length nm) e l s = Some (l', Some True)) \<longleftrightarrow>
      \<not> dis \<and> ptr = fn_len l \<and> ptr = length nm"
    using assms c by (auto simp: walk_entry_def)
  also have "\<dots> \<longleftrightarrow> fn_len l = length nm \<and> length nm - name_ptr l \<le> 15 \<and>
      (\<forall>j < length nm - name_ptr l. \<not> cmp_fn (nm ! (name_ptr l + j)) (fn j))"
    using cmp_name_spec[OF c assms(4,3)] by simp
  also have "(\<forall>j < length nm - name_ptr l. \<not> cmp_fn (nm ! (name_ptr l + j)) (fn j)) \<longleftrightarrow>
      same_name (drop (name_ptr l) nm) (map (\<lambda>j. ucast (fn j)) [0..<length nm - name_ptr l])"
    using assms(3) by (auto simp: same_name_def list_eq_iff_nth_eq cmp_fn_def)
  finally show ?thesis by auto
qed

lemma those_map: "(\<And>x. x \<in> set xs \<Longrightarrow> g x = Some (f x)) \<Longrightarrow> those (map g xs) = Some (map f xs)"
  by (induction xs) simp_all

text \<open>The stored name U+0141 matches the letter a.\<close>

theorem exfat_name_match_witness:
  "\<exists>l'. walk_entry (\<lambda>k. [97] ! k) (length [97 :: u8]) 0x400000 (zero_loc\<lparr>fn_len := 1\<rparr>)
     (ex_page [(0, 0xC1), (2, 0x41), (3, 0x01)]) = Some (l', Some True)"
proof -
  let ?s = "ex_page [(0, 0xC1), (2, 0x41), (3, 0x01)]" and ?l = "zero_loc\<lparr>fn_len := 1\<rparr>"
  have b: "vload8 ?s (0x400000 + x) = Some (pmem ?s (0x206000 OR x))" if "x < 4096" for x
  proof -
    have z: "(0x400000 :: u64) AND mask 12 = 0" by (simp add: mask_eq_exp_minus_1)
    have "PAGEADDR (0x400000 + x) = 0x400000" "(0x400000 + x) AND mask 12 = x"
      using aligned_plus_base[OF z, of x] aligned_plus_offset[OF z, of x] that by (simp_all add: PAGEADDR_def PGMASK_eq)
    then show ?thesis using ex_page_vload8[of "0x400000 + x"] by simp
  qed
  define f where "f k = (ucast (pmem ?s (0x206000 OR (2 + 2 * of_nat k))) OR
    push_bit 8 (ucast (pmem ?s (0x206000 OR (3 + 2 * of_nat k))) :: u64))" for k :: nat
  have "file_name ?s 0x400000 k = Some (f k)" if "k < 15" for k
  proof -
    have "(of_nat k :: u64) < 15" using that by (simp add: word_less_nat_alt unat_of_nat)
    then have "2 + 2 * (of_nat k :: u64) < 4096" "3 + 2 * (of_nat k :: u64) < 4096"
      using that by (simp_all add: word_less_nat_alt unat_word_ariths unat_of_nat)
    then show ?thesis
      using b[of "2 + 2 * of_nat k"] b[of "3 + 2 * of_nat k"]
      by (simp add: file_name_def numeral_2_eq_2 f_def add.assoc add.commute)
  qed
  then have fc: "fn_chars ?s 0x400000 = Some (\<lambda>k. ucast (map f [0..<15] ! k))"
    using those_map[of "[0..<15]" "file_name ?s 0x400000" f] by (simp add: fn_chars_def)
  have m: "pmem ?s 0x206000 = 0xC1" "pmem ?s 0x206002 = 0x41" "pmem ?s 0x206003 = 1"
    by (simp_all add: ex_page_def mask_eq_exp_minus_1)
  have et: "entry_type ?s 0x400000 = Some 0xC1" using b[of 0] m by (simp add: entry_type_def)
  have "f 0 = 0x141" using m by (simp add: f_def)
  then show ?thesis
    using exfat_name_match[OF et fc, of ?l "[97]"] by (simp add: zero_loc_def same_name_def to_upper_case_def)
qed

section \<open>Comparing GUIDs as strings\<close>

text \<open>
  C40: A GPT partition whose type GUID starts with a zero byte is taken for an unused entry and ignored:
  \<^verbatim>\<open>guid_eq\<close> compares with \<^verbatim>\<open>strcmp\<close>, which ends at the zero byte that it shares with the empty GUID.
\<close>
theorem guid_zero_byte_ignored:
  assumes "vload8 s par = Some 0"
  shows "detect_guid d par s = Some (0, s)"
proof -
  have "guid_bytes (known_guid ! 0) ! 0 = 0" "0 < length (guid_bytes (known_guid ! 0))"
    by (simp_all add: known_guid_def guid_bytes_def upt_rec)
  then have "guid_eq (guid_at s par) (known_guid_at 0) = Some True"
    using assms by (simp add: guid_eq_def guid_at_def known_guid_at_def eval_nat_numeral)
  then show ?thesis by (simp add: detect_guid_def detect_guid_from.simps[of 0] N_KNOWN_GUID_def)
qed

theorem guid_zero_byte_ignored_witness:
  "detect_guid 0 0x400010 (ex_page [(0x10, 0), (0x11, 0xA2)]) = Some (0, ex_page [(0x10, 0), (0x11, 0xA2)])"
  by (rule guid_zero_byte_ignored, subst ex_page_vload8)
    (simp_all add: ex_page_def PAGEADDR_def PGMASK_eq mask_eq_exp_minus_1)

end
