(* ===== verification/SysProp.thy ===== *)
theory SysProp
  imports DiskProp Exec
begin

text \<open>
  What the system calls of \<^verbatim>\<open>Syscall\<close> promise: the check of user pointers, the links between a process
  and its children, the descriptors and the memory of a process.
\<close>

section \<open>User pointers\<close>

text \<open>The entry of the page at \<open>va\<close> has all of \<open>flags\<close>.\<close>

definition grants :: "bytes \<Rightarrow> u64 \<Rightarrow> u64 \<Rightarrow> u64 \<Rightarrow> bool" where
  "grants m tbl flags va \<longleftrightarrow> lookup m (sub tbl) (va_indices va) AND flags = flags"

lemma or_P_nonzero: "flags OR PTE_P \<noteq> 0"
proof
  assume "flags OR PTE_P = 0"
  then have "bit (flags OR PTE_P) 0 = bit (0 :: u64) 0" by simp
  then show False by (simp add: PTE_P_def bit_simps)
qed

lemma walk_grants:
  assumes "no_huge (pmem s) (sub tbl) (va_path va)" and "flags \<noteq> 0"
  obtains r p where "walk_pgtbl tbl va False s = Some ((r, Some p), s)"
    "(p = 0 \<or> kload64 s p AND flags \<noteq> flags) = (\<not> grants (pmem s) tbl flags va)"
proof (cases "reach (pmem s) (sub tbl) (va_path va)")
  case None
  have "\<forall>i \<in> set (va_path va). i < 512"
    by (simp add: va_path_def PML4_INDEX_def PDPT_INDEX_def PD_INDEX_def unat_index)
  from walk_rec_readonly[OF is_page_sub this assms(1), of 0 "[0, 0, 0]"] None
  have "walk_pgtbl tbl va False s = Some ((- EFAULT, Some 0), s)"
    by (simp add: walk_pgtbl_rec PAGEKADDR_eq walk_unmapped_def)
  moreover have "\<not> grants (pmem s) tbl flags va"
    using None assms(2) by (simp add: grants_def va_indices_def lookup_reach)
  ultimately show thesis using that by blast
next
  case (Some u)
  have u: "is_page u" "unat (PT_INDEX va) < 512"
    using reach_is_page[OF _ Some] by (simp_all add: PT_INDEX_def unat_index)
  have "kload64 s (P2K (slot (P2K u) (unat (PT_INDEX va)))) = lookup (pmem s) (sub tbl) (va_indices va)"
    using Some by (simp add: kload64_def K2P_slot[OF u] va_indices_def lookup_reach)
  then show thesis using that[OF walk_reach[OF assms(1) Some]] by (simp add: P2K_not_0 grants_def)
qed

lemma check_pages_spec:
  assumes "flags \<noteq> 0"
  shows "(\<And>k. k < n \<Longrightarrow> no_huge (pmem s) (sub tbl) (va_path (addr + of_nat k * PGSIZE))) \<Longrightarrow>
   check_pages tbl flags n addr s = Some ((\<forall>k < n. grants (pmem s) tbl flags (addr + of_nat k * PGSIZE)), s)"
proof (induction n arbitrary: addr)
  case (Suc n)
  from Suc.prems[of 0] have "no_huge (pmem s) (sub tbl) (va_path addr)" by simp
  then obtain r p where w: "walk_pgtbl tbl addr False s = Some ((r, Some p), s)"
    "(p = 0 \<or> kload64 s p AND flags \<noteq> flags) = (\<not> grants (pmem s) tbl flags addr)"
    by (rule walk_grants[OF _ assms])
  have "check_pages tbl flags n (addr + PGSIZE) s =
      Some ((\<forall>k < n. grants (pmem s) tbl flags (addr + PGSIZE + of_nat k * PGSIZE)), s)"
    by (rule Suc.IH) (use Suc.prems[of "Suc k" for k] in \<open>simp add: algebra_simps\<close>)
  then show ?case using w by (auto simp: All_less_Suc2 algebra_simps simp del: no_huge.simps)
qed simp

lemma unat_u64: "n < 2 ^ 64 \<Longrightarrow> unat (of_nat n :: u64) = n"
  by (simp add: unat_of_nat take_bit_nat_eq_self)

lemma unat_less_u64: "unat (x :: u64) < 2 ^ 64"
  using unsigned_less[of x] by simp

lemma unat_PAGEADDR: "unat (PAGEADDR x) = unat x div 4096 * 4096"
proof -
  have "PAGEADDR x = push_bit 12 (drop_bit 12 x)"
    by (rule u64_eqI) (auto simp: PAGEADDR_def PGMASK_eq bit_simps)
  moreover have "unat x div 4096 * 4096 < 2 ^ 64" using unat_less_u64[of x] by simp
  ultimately show ?thesis
    by (simp add: push_bit_eq_mult drop_bit_eq_div unat_word_ariths unat_div)
qed

lemma PAGEADDR_minus: "PAGEADDR x = x - of_nat (unat x mod 4096)"
proof -
  have "x = of_nat (unat x div 4096 * 4096 + unat x mod 4096)" by simp
  then have "x = PAGEADDR x + of_nat (unat x mod 4096)" unfolding unat_PAGEADDR[symmetric] by (simp only: of_nat_add) simp
  then show ?thesis by (simp add: algebra_simps)
qed

text \<open>Page arithmetic from the start of a page, also around the end of the address space.\<close>

lemma PAGEADDR_plus: "PAGEADDR (PAGEADDR a + i) = PAGEADDR a + of_nat (unat i div 4096) * PGSIZE"
proof -
  have "unat (PAGEADDR a + i) mod 4096 = unat i mod 4096"
  proof -
    have "unat (PAGEADDR a + i) = (unat (PAGEADDR a) + unat i) mod 2 ^ 64" by (simp add: unat_word_ariths)
    moreover have "(2 :: nat) ^ 12 dvd 2 ^ 64" by (rule le_imp_power_dvd) simp
    ultimately have "unat (PAGEADDR a + i) mod 2 ^ 12 = (unat (PAGEADDR a) + unat i) mod 2 ^ 12" by (simp only: mod_mod_cancel)
    moreover have "unat (PAGEADDR a) + unat i = unat i + unat a div 4096 * 4096" by (simp only: unat_PAGEADDR add.commute)
    moreover have "(2 :: nat) ^ 12 = 4096" by simp
    ultimately show ?thesis by (simp only: mod_mult_self1)
  qed
  then have "PAGEADDR (PAGEADDR a + i) = PAGEADDR a + PAGEADDR i"
    unfolding PAGEADDR_minus[of "PAGEADDR a + i"] PAGEADDR_minus[of i] by (simp add: algebra_simps)
  moreover have "PAGEADDR i = of_nat (unat (PAGEADDR i))" by simp
  ultimately show ?thesis by (simp add: unat_PAGEADDR PGSIZE_def)
qed

lemma page_span_bytes: "page_span addr siz = unat (of_nat ((unat siz div 4096 + 1) * 4096) :: u64) div 4096"
  unfolding page_span_def PAGEADDR_plus by (simp add: PGSIZE_def algebra_simps)

lemma page_span_wrap: "siz \<ge> - PGSIZE \<Longrightarrow> page_span addr siz = 0"
proof -
  assume "siz \<ge> - PGSIZE"
  then have "2 ^ 64 - 4096 \<le> unat siz" by (simp add: PGSIZE_def word_le_nat_alt)
  then have "unat siz div 4096 = 2 ^ 52 - 1" using unat_less_u64[of siz] by (intro div_nat_eqI) simp_all
  then show ?thesis unfolding page_span_bytes by simp
qed

lemma page_span_eq:
  assumes "siz < - PGSIZE"
  shows "page_span addr siz = unat siz div 4096 + 1"
proof -
  have "unat siz < 2 ^ 64 - 4096" using assms by (simp add: PGSIZE_def word_less_nat_alt)
  then have "unat siz div 4096 < 2 ^ 52 - 1" by (intro less_mult_imp_div_less) simp
  then have "(unat siz div 4096 + 1) * 4096 < 2 ^ 64" by simp
  then show ?thesis unfolding page_span_bytes by (simp only: unat_u64) simp
qed

lemma span_pages:
  assumes "siz < - PGSIZE"
  shows "(\<forall>k < page_span addr siz. Q (PAGEADDR addr + of_nat k * PGSIZE)) \<longleftrightarrow> (\<forall>i \<le> siz. Q (PAGEADDR (PAGEADDR addr + i)))"
proof -
  have "\<exists>i \<le> siz. k = unat i div 4096" if "k < page_span addr siz" for k
  proof (intro exI conjI)
    have le: "k * 4096 \<le> unat siz" using that unfolding page_span_eq[OF assms] by (simp add: less_Suc_eq_le less_eq_div_iff_mult_less_eq)
    then have u: "unat (of_nat (k * 4096) :: u64) = k * 4096" using unat_less_u64[of siz] by (intro unat_u64) simp
    then show "of_nat (k * 4096) \<le> siz" using le by (simp only: word_le_nat_alt)
    show "k = unat (of_nat (k * 4096) :: u64) div 4096" by (simp only: u)
  qed
  moreover have "unat i div 4096 < page_span addr siz" if "i \<le> siz" for i
    using that unfolding page_span_eq[OF assms] by (simp add: word_le_nat_alt div_le_mono less_Suc_eq_le)
  ultimately show ?thesis using PAGEADDR_plus by metis
qed

text \<open>
  C9: What the check of a user buffer decides, for every address and size.  Where no huge page is in
  the way, \<^verbatim>\<open>check_mem\<close> returns and changes nothing.  For a size below \<open>2 ^ 64 - 4096\<close> it accepts exactly when every
  page from that of \<open>addr\<close> to the one \<open>siz\<close> bytes behind the start of that page, going on at address 0
  after the last page, is present with all the flags asked for.  For a size of \<open>2 ^ 64 - 4096\<close> or more the end wraps
  around to the start, and it accepts every address, those of the kernel included, without looking at a page.
\<close>
theorem check_mem_decides:
  assumes "siz < - PGSIZE \<longrightarrow> (\<forall>i \<le> siz. no_huge (pmem s) (sub tbl) (va_path (PAGEADDR (PAGEADDR addr + i))))"
  shows "check_mem tbl addr siz flags s =
    Some (siz \<ge> - PGSIZE \<or> (\<forall>i \<le> siz. grants (pmem s) tbl (flags OR PTE_P) (PAGEADDR (PAGEADDR addr + i))), s)"
proof (cases "siz < - PGSIZE")
  case True
  have "no_huge (pmem s) (sub tbl) (va_path (PAGEADDR addr + of_nat k * PGSIZE))" if "k < page_span addr siz" for k
    using assms True that span_pages[OF True, of addr "\<lambda>va. no_huge (pmem s) (sub tbl) (va_path va)"] by blast
  from check_pages_spec[OF or_P_nonzero this] True
  show ?thesis unfolding check_mem_def span_pages[OF True, symmetric] by (simp add: not_le[symmetric])
next
  case False
  then show ?thesis using page_span_wrap[of siz addr] by (simp add: check_mem_def not_less)
qed

lemma ex_tbl_walk:
  "no_huge ex_tbl (sub 0x207000) (va_path 0x400000)" "lookup ex_tbl (sub 0x207000) (va_indices 0x400000) = 0x206007"
proof -
  have va: "va_indices 0x400000 = [0, 0, 2, 0]" "va_path 0x400000 = [0, 0, 2]" "sub 0x207000 = 0x207000"
    by (simp_all add: va_indices_def va_path_def PML4_INDEX_def PDPT_INDEX_def PD_INDEX_def PT_INDEX_def
        PML4_OFFSET_def PDPT_OFFSET_def PD_OFFSET_def PT_OFFSET_def drop_bit_eq_div sub_def mask_eq_exp_minus_1)
  have "child 0x208007 = Some 0x208000" "child 0x209007 = Some 0x209000" "child 0x20A007 = Some 0x20A000"
    by (simp_all add: child_def PTE_P_def PDPTE_PS_def sub_def mask_eq_exp_minus_1)
  then show "no_huge ex_tbl (sub 0x207000) (va_path 0x400000)"
    unfolding va by (simp add: ex_tbl_ent PDPTE_PS_def)
  show "lookup ex_tbl (sub 0x207000) (va_indices 0x400000) = 0x206007" unfolding va by (rule ex_tbl_lookup)
qed

lemma ex_page_0: "pmem (ex_page []) = ex_tbl"
  by (simp add: ex_page_def)

lemma ex_page_grants: "grants ex_tbl 0x207000 (PTE_U OR PTE_W OR PTE_P) 0x400000" "\<not> grants ex_tbl 0x207000 (8 OR PTE_P) 0x400000"
  by (simp_all add: grants_def ex_tbl_walk PTE_U_def PTE_W_def PTE_P_def)

theorem check_mem_decides_witness:
  "check_mem 0x207000 0x400010 0x20 (PTE_U OR PTE_W) (ex_page []) = Some (True, ex_page []) \<and>
   check_mem 0x207000 0x400010 0x20 8 (ex_page []) = Some (False, ex_page []) \<and>
   check_mem 0x207000 0xFFFF800000200000 (- 1) (PTE_U OR PTE_W) (ex_page []) = Some (True, ex_page [])"
proof -
  have p: "PAGEADDR 0x400010 = 0x400000" by (simp add: PAGEADDR_def PGMASK_eq mask_eq_exp_minus_1)
  have "unat i div 4096 = 0" if "i \<le> 0x20" for i :: u64
    using that by (simp add: word_le_nat_alt)
  then have q: "PAGEADDR (PAGEADDR 0x400010 + i) = 0x400000" if "i \<le> 0x20" for i
    using PAGEADDR_plus[of "0x400010" i] that by (simp add: p)
  have z: "\<exists>i :: u64. i \<le> 0x20" by (rule exI[of _ 0]) simp
  have s: "\<not> - PGSIZE \<le> 0x20" "- PGSIZE \<le> - 1" by (simp add: PGSIZE_def word_le_nat_alt) simp
  have "check_mem 0x207000 0x400010 0x20 flags (ex_page []) = Some (grants ex_tbl 0x207000 (flags OR PTE_P) 0x400000, ex_page [])" for flags
    using check_mem_decides[of "0x20" "ex_page []" "0x207000" "0x400010" flags] ex_tbl_walk(1) q z s(1)
    by (auto simp: ex_page_0 simp del: no_huge.simps)
  moreover have "check_mem 0x207000 0xFFFF800000200000 (- 1) (PTE_U OR PTE_W) (ex_page []) = Some (True, ex_page [])"
    using check_mem_decides[of "- 1" "ex_page []" "0x207000" "0xFFFF800000200000" "PTE_U OR PTE_W"] s(2)
    by (simp add: not_le[symmetric] del: no_huge.simps)
  ultimately show ?thesis using ex_page_grants by (simp add: or.assoc)
qed

text \<open>
  C34: The range that \<^verbatim>\<open>check_mem\<close> looks at is not always the buffer.  It adds the size to the start of
  the first page, not to \<open>addr\<close>: a buffer of less than a page that crosses a page boundary is
  accepted on the strength of its first page, although its last byte lies in the next one.
\<close>
theorem check_mem_misses_last_page:
  assumes "4096 < unat (addr AND PGMASK) + unat siz" and "unat siz < 4096"
    and "unat addr + unat siz + 4096 < 2 ^ 64" and "no_huge (pmem s) (sub tbl) (va_path (PAGEADDR addr))"
  shows "check_mem tbl addr siz flags s = Some (grants (pmem s) tbl (flags OR PTE_P) (PAGEADDR addr), s) \<and>
    PAGEADDR (addr + siz - 1) = PAGEADDR addr + PGSIZE"
proof -
  have a: "unat (PAGEADDR addr) = unat addr div 4096 * 4096" "unat (addr AND PGMASK) = unat addr mod 4096"
    by (simp_all add: unat_PAGEADDR PGMASK_eq take_bit_eq_mask[symmetric] take_bit_eq_mod unat_mod)
  have "siz < - PGSIZE" using assms(2) by (simp add: PGSIZE_def word_less_nat_alt)
  then have "page_span addr siz = 1" using page_span_eq[of siz addr] assms(2) by simp
  with check_pages_spec[OF or_P_nonzero, of 1 s tbl "PAGEADDR addr" flags] assms(4)
  have "check_mem tbl addr siz flags s = Some (grants (pmem s) tbl (flags OR PTE_P) (PAGEADDR addr), s)"
    by (simp add: check_mem_def del: check_pages.simps no_huge.simps)
  moreover have "PAGEADDR (addr + siz - 1) = PAGEADDR addr + PGSIZE"
  proof -
    define k where "k = unat addr mod 4096 + unat siz - 1"
    have o: "4096 \<le> k" "k < 8192" using assms(1,2) mod_less_divisor[of 4096 "unat addr"] unfolding a k_def by linarith+
    have "addr + siz - 1 = PAGEADDR addr + of_nat k"
    proof -
      have "addr = of_nat (unat addr div 4096 * 4096 + unat addr mod 4096)" by simp
      then have c: "addr = PAGEADDR addr + of_nat (unat addr mod 4096)" unfolding a(1)[symmetric] by (simp only: of_nat_add) simp
      have d: "of_nat k = of_nat (unat addr mod 4096) + siz - 1" using assms(1) a(2) by (simp add: of_nat_diff k_def)
      show ?thesis unfolding d by (subst c) (simp only: add.assoc add_diff_eq)
    qed
    moreover have "unat (of_nat k :: u64) = k" using o by (intro unat_u64) simp
    moreover have "k div 4096 = 1" using o by (intro div_nat_eqI) simp_all
    ultimately show ?thesis using PAGEADDR_plus[of addr "of_nat k"] by simp
  qed
  ultimately show ?thesis by blast
qed

theorem check_mem_misses_last_page_witness:
  "check_mem 0x207000 0x400FF0 0x20 (PTE_U OR PTE_W) (ex_page []) = Some (True, ex_page []) \<and> PAGEADDR (0x400FF0 + 0x20 - 1) = 0x401000"
proof -
  have p: "PAGEADDR 0x400FF0 = 0x400000" by (simp add: PAGEADDR_def PGMASK_eq mask_eq_exp_minus_1)
  show ?thesis
    using check_mem_misses_last_page[of "0x400FF0" "0x20" "ex_page []" "0x207000" "PTE_U OR PTE_W"] ex_tbl_walk(1) ex_page_grants(1)
    by (simp add: p ex_page_0 or.assoc PGMASK_eq mask_eq_exp_minus_1 PGSIZE_def del: no_huge.simps)
qed

section \<open>Processes\<close>

text \<open>
  C15: Linking a forked process.  \<^verbatim>\<open>sys_fork\<close> puts a new process, whose sibling pointers are still NULL,
  at the head of the chain of living children of the caller: the chain stays properly linked in both
  directions, keeps the other children in order, and the links of processes outside it do not change.
\<close>
theorem link_child_chain:
  assumes "living_children (procs s) c xs" and "n \<noteq> c" and "n \<notin> set xs"
    and "prev_sibling (procs s n) = None" and "next_sibling (procs s n) = None"
  shows "living_children (procs (link_child c n s)) c (n # xs) \<and> parent (procs (link_child c n s) n) = Some c \<and>
    (\<forall>x. x \<notin> {c, n} \<union> set xs \<longrightarrow> procs (link_child c n s) x = procs s x)"
proof (cases xs)
  case Nil
  then show ?thesis using assms by (auto simp: living_children_def link_child_def)
next
  case (Cons y ys)
  have c: "living_child (procs s c) = Some y" "sib_chain (procs s) (Some y) (next_sibling (procs s y)) ys"
    "y \<notin> set ys" "c \<noteq> y" "c \<notin> set ys" "n \<noteq> y" "n \<notin> set ys" "distinct ys"
    using assms(1,3) Cons by (auto simp: living_children_def)
  let ?P = "procs (link_child c n s)"
  have "sib_chain ?P (Some y) (next_sibling (procs s y)) ys"
    by (rule sib_chain_cong[OF c(2)]) (use c in \<open>auto simp: link_child_def\<close>)
  then show ?thesis using assms(2,4) c Cons by (auto simp: living_children_def link_child_def)
qed

theorem link_child_chain_witness:
  "living_children (procs (link_child 1 4 (with_devices (ex_family False)))) 1 [4, 2, 3]"
proof -
  have "prev_sibling (procs (ex_family False) 4) = None" "next_sibling (procs (ex_family False) 4) = None"
    by (simp_all add: zero_proc_def)
  then show ?thesis
    using link_child_chain[of "with_devices (ex_family False)" 1 "[2, 3]" 4] ex_family_chain[of False]
    by (simp del: ex_family_sel)
qed

lemma sans_links_run:
  "sans_links p = sans_links q \<Longrightarrow> state p = state q \<and> ctx p = ctx q \<and> pgtbl p = pgtbl q \<and> waiting p = waiting q"
  by (intro conjI; erule sans_links_field) (simp_all add: sans_links_def)

lemma run_ready_frame:
  "pmem (snd (run_ready k s)) = pmem s" "page_infos (snd (run_ready k s)) = page_infos s" "k_pageinfo (snd (run_ready k s)) = k_pageinfo s"
  "page_ok (snd (run_ready k s)) = page_ok s" "free_list (snd (run_ready k s)) = free_list s"
  by (simp_all add: run_ready_def run_proc_def upd_proc_def Let_def page_ok_def[abs_def] free_list_def[abs_def] PA2PGINFO_def)

text \<open>The processes that can be run after the exit of \<open>i\<close> with the zombies \<open>zs\<close>: those that were ready before, and the parent.\<close>

definition can_run :: "'a kstate_scheme \<Rightarrow> nat \<Rightarrow> nat \<Rightarrow> nat list \<Rightarrow> nat \<Rightarrow> bool" where
  "can_run s i par zs j \<longleftrightarrow> j < NPROCS \<and> j \<notin> set zs \<union> {i} \<and> (j = par \<or> state (procs s j) = READY)"

text \<open>
  C14: An exit that is waited for hands the processor over.  Let the current process \<open>i\<close> have no open pipes, and let its parent
  wait for it, with no status pointer or with one into a page of its own that needs no copy; \<open>i\<close> may
  have living children \<open>xs\<close> and zombies \<open>zs\<close> without open pipes.  Then \<^verbatim>\<open>sys_exit\<close> does not come back to \<open>i\<close> and does not get stuck: it
  continues the first process \<open>k\<close> after \<open>i\<close> in cyclic order that was ready before the call or is the parent, with exactly the registers
  and the page table saved for \<open>k\<close> before the call, but for the pid of \<open>i\<close> in the parent's rax.  The slots of \<open>i\<close> and of its zombies are
  free, the parent is woken, the status is stored, and the references of the released memory are dropped.
\<close>
theorem exit_hands_over:
  fixes s :: "'a dstate_scheme"
  assumes "curproc s = Some i" and "i < NPROCS" and "par < NPROCS" and "awaited s i par ys ws xs zs" and "status_ok s i par ka"
    and "free_list s ps" and "releasable s (concat (map (space_of s) (zs @ [i])))"
  shows "\<exists>k s' fs. can_run s i par zs k \<and> (\<forall>j. can_run s i par zs j \<longrightarrow> dist i k \<le> dist i j) \<and>
    sys_exit v s = Some (Away (if k = par then (ctx (procs s k))\<lparr>rax := pid (procs s i)\<rparr> else ctx (procs s k), fx_ctxs s k), s') \<and>
    curproc s' = Some k \<and> cr3 s' = pgtbl (procs s k) \<and> state (procs s' k) = RUNNING \<and>
    (\<forall>x \<in> set zs \<union> {i}. procs s' x = zero_proc) \<and>
    ctx (procs s' par) = (ctx (procs s par))\<lparr>rax := pid (procs s i)\<rparr> \<and> \<not> waiting (procs s' par) \<and>
    state (procs s' par) = (if k = par then RUNNING else READY) \<and> living_children (procs s') par (ys @ ws) \<and>
    dropped (told par ka v s) s' (concat (map (space_of s) (zs @ [i]))) fs ps"
proof -
  let ?w = "\<lambda>x. if x = par then woken (pid (procs s i)) (procs s x) else procs s x"
  obtain s1 fs where s1: "kill_proc i v s = Some s1" "curproc s1 = curproc s" "living_children (procs s1) par (ys @ ws)"
    "\<forall>x \<in> set zs \<union> {i}. procs s1 x = zero_proc"
    "\<forall>x. x \<notin> set zs \<union> {i} \<longrightarrow> sans_links (procs s1 x) = sans_links (?w x)"
    "\<forall>x. x \<notin> set zs \<union> {i} \<longrightarrow> fx_ctxs s1 x = fx_ctxs s x"
    "dropped (told par ka v s) s1 (concat (map (space_of s) (zs @ [i]))) fs ps"
    by (rule kill_awaited_ok[OF assms(4-7), of v])
  have pn: "par \<notin> set zs \<union> {i}" using assms(4) by (auto simp: awaited_def living_children_def)
  have w: "state (procs s1 x) = state (?w x)" "ctx (procs s1 x) = ctx (?w x)" "pgtbl (procs s1 x) = pgtbl (?w x)"
    "waiting (procs s1 x) = waiting (?w x)" if "x \<notin> set zs \<union> {i}" for x
    using sans_links_run[OF s1(5)[rule_format, OF that]] by blast+
  have cr: "j < NPROCS \<and> state (procs s1 j) = READY \<longleftrightarrow> can_run s i par zs j" for j
    using s1(4) w(1)[of j] by (cases "j \<in> set zs \<union> {i}") (auto simp: can_run_def zero_proc_def woken_def)
  have c: "curproc s1 = Some i" using s1(2) assms(1) by simp
  have "can_run s i par zs par" using assms(3) pn by (simp add: can_run_def)
  then have "\<not> (\<forall>j < NPROCS. state (procs s1 j) \<noteq> READY)" using cr by blast
  with sched_spec[OF c assms(2)] obtain k where k: "k < NPROCS" "state (procs s1 k) = READY" "sched s1 = Some (run_ready k s1)"
    "\<forall>j < NPROCS. dist i j < dist i k \<longrightarrow> state (procs s1 j) \<noteq> READY"
    by (auto split: option.splits prod.splits)
  have kn: "can_run s i par zs k" "k \<notin> set zs \<union> {i}" using k(1,2) cr[of k] by (auto simp: can_run_def)
  have first: "dist i k \<le> dist i j" if "can_run s i par zs j" for j using k(4) cr[of j] that by (meson not_less)
  define s' where "s' = snd (run_ready k s1)"
  have r: "run_ready k s1 = ((ctx (procs s1 k), fx_ctxs s1 k), s')" "procs s' = (procs s1)(k := (procs s1 k)\<lparr>state := RUNNING\<rparr>)"
    "curproc s' = Some k" "cr3 s' = pgtbl (procs s1 k)"
    by (simp_all add: s'_def run_ready_def run_proc_def upd_proc_def Let_def)
  have e: "sys_exit v s = Some (Away (ctx (procs s1 k), fx_ctxs s1 k), s')"
    using assms(1) s1(1) k(3) r(1) by (simp add: sys_exit_def resched_def)
  have "dropped (told par ka v s) s' (concat (map (space_of s) (zs @ [i]))) fs ps"
    using s1(7) unfolding dropped_def s'_def run_ready_frame .
  moreover have "living_children (procs s') par (ys @ ws)"
  proof -
    have "sib_chain (procs s') None (living_child (procs s1 par)) (ys @ ws)"
      by (rule sib_chain_cong[of "procs s1"]) (use s1(3) in \<open>auto simp: living_children_def r(2)\<close>)
    moreover have "living_child (procs s' par) = living_child (procs s1 par)" by (simp add: r(2))
    ultimately show ?thesis using s1(3) by (simp add: living_children_def)
  qed
  ultimately show ?thesis
    using e kn first r(2-4) w[OF kn(2)] w[OF pn] s1(4) s1(6)[rule_format, OF kn(2)]
    by (intro exI[of _ k] exI[of _ s'] exI[of _ fs]) (auto simp: woken_def)
qed

text \<open>The next process after 2 is 3, not the parent; the status arrives at the frame of the parent's page.\<close>

theorem exit_hands_over_witness:
  "\<exists>s'. sys_exit 7 (with_devices ex_tree) = Some (Away (ctx (ex_procs 3), zero_fx), s') \<and> curproc s' = Some 3 \<and>
     procs s' 2 = zero_proc \<and> procs s' 4 = zero_proc \<and> rax (ctx (procs s' 1)) = 42 \<and> load64 (pmem s') 0x206010 = 7"
proof -
  let ?s = "with_devices ex_tree"
  have tr: "kmem.truncate ?s = kmem.truncate ex_tree" by (simp add: with_devices_def kstate.extend_def kmem.truncate_def)
  note fr = truncate_frame[OF tr]
  have sp: "space_of ?s x = space_of ex_tree x" for x by (simp add: space_of_def fr(6))
  have a: "awaited ?s 2 1 [] [3] [5] [4]" using ex_tree_awaited by (simp add: awaited_def)
  have st: "status_ok ?s 2 1 0xFFFF800000206010" using ex_tree_status by (simp add: status_ok_def)
  have fl: "free_list ?s ex_free" using ex_tree_free by (simp only: fr(5))
  have rl: "releasable ?s (concat (map (space_of ?s) ([4] @ [2])))" using ex_tree_space by (simp add: sp releasable_def fr(2,4))
  have fx: "fx_ctxs ?s = (\<lambda>_. zero_fx)" by (simp add: with_devices_def kstate.extend_def ex_tree_def kmem.extend_def kstate.fields_def)
  have n: "(2 :: nat) < NPROCS" "(1 :: nat) < NPROCS" "(3 :: nat) < NPROCS" by (simp_all add: NPROCS_def)
  from exit_hands_over[OF _ n(1,2) a st fl rl, of 7] obtain k s' fs where k: "can_run ?s 2 1 [4] k" "\<forall>j. can_run ?s 2 1 [4] j \<longrightarrow> dist 2 k \<le> dist 2 j"
    "sys_exit 7 ?s = Some (Away (if k = 1 then (ctx (ex_procs k))\<lparr>rax := pid (ex_procs 2)\<rparr> else ctx (ex_procs k), zero_fx), s')"
    "curproc s' = Some k" "\<forall>x \<in> set [4] \<union> {2}. procs s' x = zero_proc" "ctx (procs s' 1) = (ctx (ex_procs 1))\<lparr>rax := pid (ex_procs 2)\<rparr>"
    "dropped (told 1 0xFFFF800000206010 7 ?s) s' (concat (map (space_of ?s) ([4] @ [2]))) fs ex_free"
    unfolding fx by auto
  have "can_run ?s 2 1 [4] 3" using n(3) by (simp add: can_run_def ex_procs_def)
  then have "dist 2 k \<le> 1" using k(2) by (force simp: dist_def)
  moreover have "k < NPROCS" "k \<noteq> 2" using k(1) by (simp_all add: can_run_def)
  ultimately have k3: "k = 3" by (auto simp: dist_def NPROCS_def split: if_splits)
  have "wait_status (ex_procs 1) \<noteq> 0" by (simp add: ex_procs_def)
  then have "pmem s' = store64 ex_tbl 0x206010 7" using k(7) by (simp add: dropped_def told_def kstore64_def K2P_def MASK_def mask_eq_exp_minus_1)
  then have "load64 (pmem s') 0x206010 = 7" by (simp add: load64_store64_same)
  moreover have "pid (ex_procs 2) = 42" by (simp add: ex_procs_def)
  ultimately show ?thesis using k(3-6) k3 by auto
qed

section \<open>Descriptors\<close>

text \<open>
  C35: Closing a descriptor closes another one.  For a descriptor between 1 and 31 that is in use and
  not a pipe, \<^verbatim>\<open>sys_close\<close> marks the descriptor of twice the number as unused, leaves the one it was
  asked to close in use, and returns with \<^verbatim>\<open>rax\<close> as the caller set it.
\<close>
theorem sys_close_frees_double:
  assumes "curproc s = Some c" and "fd_arg (rdx tf) = Some fd" and "0 < fd" and "fd < 32"
    and "inuse (fdesc (procs s c) fd)" and "file_type (fdesc (procs s c) fd) \<notin> {FT_RPIPE, FT_WPIPE}"
  shows "\<exists>s'. sys_close tf s = Some (Back tf, s') \<and> inuse (fdesc (procs s' c) fd) \<and> \<not> inuse (fdesc (procs s' c) (2 * fd)) \<and>
    (\<forall>k. k \<noteq> 2 * fd \<longrightarrow> fdesc (procs s' c) k = fdesc (procs s c) k)"
  using assms by (auto simp: sys_close_def set_fd_def)

theorem sys_close_frees_double_witness:
  "\<exists>s'. sys_close (zero_context\<lparr>rdx := 1\<rparr>) ((ex_page [])\<lparr>curproc := Some 0, procs := (\<lambda>_. zero_proc\<lparr>fdesc := (\<lambda>_. zero_fdesc\<lparr>inuse := True, file_type := FT_SCREEN\<rparr>)\<rparr>)\<rparr>)
     = Some (Back (zero_context\<lparr>rdx := 1\<rparr>), s') \<and> inuse (fdesc (procs s' 0) 1) \<and> \<not> inuse (fdesc (procs s' 0) 2)"
  using sys_close_frees_double[of "(ex_page [])\<lparr>curproc := Some 0, procs := (\<lambda>_. zero_proc\<lparr>fdesc := (\<lambda>_. zero_fdesc\<lparr>inuse := True, file_type := FT_SCREEN\<rparr>)\<rparr>)\<rparr>" 0 "zero_context\<lparr>rdx := 1\<rparr>" 1]
  by (auto simp: fd_arg_def FT_SCREEN_def FT_RPIPE_def FT_WPIPE_def)

end
