(* ===== verification/IntrProp.thy ===== *)
theory IntrProp
  imports SysProp Intr
begin

text \<open>
  What the interrupt handling of \<^verbatim>\<open>Intr\<close> promises: the descriptor table is well-formed, the timer
  switches between processes without losing their registers, and a write to a shared page gets a
  private copy.
\<close>

section \<open>The descriptor table\<close>

text \<open>The handler address that the processor reads from a gate.\<close>

definition gate_addr :: "IDTGateDesc \<Rightarrow> u64" where
  "gate_addr g = ucast (offset1 g) OR push_bit 16 (ucast (offset2 g)) OR push_bit 32 (ucast (offset3 g))"

text \<open>A present 64-bit interrupt gate into the kernel's code segment on the current stack, open to user programs.\<close>

definition gate_ok :: "IDTGateDesc \<Rightarrow> bool" where
  "gate_ok g \<longleftrightarrow> seg_sel g = ucast KERN_CODE_SEL \<and> g_type g = 14 \<and> g_S g = 0 \<and> g_DPL g = 3 \<and> g_P g = 1 \<and> g_ist g = 0 \<and>
     g_zeros g = 0 \<and> g_reserved g = 0"

lemma gate_addr_gate: "gate_addr (gate a) = a"
proof (rule u64_eqI)
  fix n :: nat
  assume "n < 64"
  then show "bit (gate_addr (gate a)) n = bit a n"
    by (cases "n < 16"; cases "n < 32") (auto simp: gate_addr_def gate_def MASK_eq bit_simps)
qed

lemma gate_ok_gate: "gate_ok (gate a)"
  by (simp add: gate_ok_def gate_def)

lemma intr_entry_vectors:
  "length intr_entry = NIDT" "intr_entry ! 14 = ''_page_fault_entry''" "intr_entry ! 32 = ''_syscall_entry''"
  "intr_entry ! 33 = ''_timer_entry''" "intr_entry ! 36 = ''_apic_keyboard_entry''"
  by (simp_all add: intr_entry_def NIDT_def)

text \<open>
  C36: The descriptor table is well-typed.  \<^verbatim>\<open>init_intr\<close> makes all 256 gates present interrupt gates
  into the kernel that user programs may raise, the three pieces of each offset recompose to the address of its entry
  point, which is that of \<^verbatim>\<open>intr_entry\<close> for the vectors below 72 and \<^verbatim>\<open>_reserved_31_entry\<close> for the 184 others; the
  vectors that \<^verbatim>\<open>trap_handler\<close> treats are those of the page fault, system call, timer and keyboard
  entries, and the register covers exactly the table, which lies aligned behind the kernel's memory.
\<close>
theorem init_intr_well_formed:
  "case init_intr entry_addr s of ((tbl, d), s') \<Rightarrow>
    (\<forall>i < 256. gate_ok (tbl i)) \<and>
    (\<forall>i < NIDT. gate_addr (tbl i) = entry_addr (intr_entry ! i)) \<and>
    (\<forall>i \<in> {NIDT ..< 256}. gate_addr (tbl i) = entry_addr ''_reserved_31_entry'') \<and>
    gate_addr (tbl 14) = entry_addr ''_page_fault_entry'' \<and> gate_addr (tbl 32) = entry_addr ''_syscall_entry'' \<and>
    gate_addr (tbl 33) = entry_addr ''_timer_entry'' \<and> gate_addr (tbl 36) = entry_addr ''_apic_keyboard_entry'' \<and>
    unat (idt_limit d) + 1 = 256 * 16 \<and> idt_addr d AND mask 4 = 0 \<and> idt_addr d + 256 * 16 = end_kmem s'"
proof -
  have "ROUNDUP x 16 AND mask 4 = 0" for x :: u64
  proof -
    have "ROUNDUP x 16 = push_bit 4 (drop_bit 4 (x + 15))"
      by (simp add: ROUNDUP_def push_bit_eq_mult drop_bit_eq_div algebra_simps)
    then show ?thesis by (simp add: word_and_mask_eq_0_iff bit_simps)
  qed
  moreover have "14 < NIDT" "32 < NIDT" "33 < NIDT" "36 < NIDT" by (simp_all add: NIDT_def)
  ultimately show ?thesis
    by (simp add: init_intr_def Let_def gate_ok_gate gate_addr_gate intr_entry_vectors)
qed

theorem init_intr_well_formed_witness:
  "case init_intr (\<lambda>f. if f = ''_page_fault_entry'' then 0xFFFF800000123456 else 0xFFFF800000654320) ex_kmem of ((tbl, d), s') \<Rightarrow>
     gate_addr (tbl 14) = 0xFFFF800000123456 \<and> gate_ok (tbl 255) \<and> gate_addr (tbl 255) = 0xFFFF800000654320"
  using init_intr_well_formed[of "\<lambda>f. if f = ''_page_fault_entry'' then 0xFFFF800000123456 else 0xFFFF800000654320" ex_kmem]
  by (auto simp: NIDT_def split: prod.splits)

section \<open>Preemption\<close>

text \<open>
  C10: Preemption by the timer.  A timer interrupt of the process \<open>c\<close> is acknowledged, saves its frame
  and its live SSE registers, charges it a tick, and continues the first ready process \<open>k\<close> after \<open>c\<close>
  in cyclic order with exactly the registers saved for it and its page table; these are the
  interrupted ones when \<open>k\<close> is \<open>c\<close>.  No other process changes.
\<close>
theorem timer_preempts:
  assumes "curproc s = Some c" and "c < NPROCS"
  shows "\<exists>k s'. trap_handler live cr2 stat data tf 33 err s =
      Some ((if k = c then (tf, live) else (ctx (procs s k), fx_ctxs s k)), s') \<and>
    k < NPROCS \<and> (k \<noteq> c \<longrightarrow> state (procs s k) = READY) \<and>
    (\<forall>j < NPROCS. dist c j < dist c k \<longrightarrow> j \<noteq> c \<and> state (procs s j) \<noteq> READY) \<and>
    curproc s' = Some k \<and> cr3 s' = pgtbl (procs s k) \<and>
    ctx (procs s' c) = tf \<and> fx_ctxs s' = (fx_ctxs s)(c := live) \<and>
    exec_time (procs s' c) = exec_time (procs s c) + 1 \<and>
    (\<forall>j. state (procs s' j) = (if j = k then RUNNING else if j = c then READY else state (procs s j))) \<and>
    (\<forall>j. j \<notin> {c, k} \<longrightarrow> procs s' j = procs s j) \<and> lapic s' LAPICR_EOI = 0"
proof -
  define u where "u = lapic_eoi (upd_proc c (\<lambda>p. p\<lparr>ctx := tf, state := READY, exec_time := exec_time p + 1\<rparr>) (fx_save live c s))"
  have q: "procs u j = (if j = c then (procs s c)\<lparr>ctx := tf, state := READY, exec_time := exec_time (procs s c) + 1\<rparr> else procs s j)" for j
    by (simp add: u_def lapic_eoi_def lapicw_def fx_save_def)
  have c: "curproc u = Some c" "fx_ctxs u = (fx_ctxs s)(c := live)" "lapic u LAPICR_EOI = 0"
    using assms(1) by (simp_all add: u_def lapic_eoi_def lapicw_def fx_save_def)
  have r: "state (procs u j) = (if j = c then READY else state (procs s j))" for j
    by (simp add: q)
  from sched_spec[OF c(1) assms(2)] assms(2) r obtain k where k: "k < NPROCS" "state (procs u k) = READY"
    "sched u = Some (run_ready k u)" "\<forall>j < NPROCS. dist c j < dist c k \<longrightarrow> state (procs u j) \<noteq> READY"
    by (auto split: option.splits prod.splits)
  define s' where "s' = snd (run_ready k u)"
  have p: "procs s' j = (if j = k then (procs u k)\<lparr>state := RUNNING\<rparr> else procs u j)" for j
    by (simp add: s'_def run_ready_def run_proc_def Let_def)
  have f: "fx_ctxs s' = (fx_ctxs s)(c := live)" "lapic s' LAPICR_EOI = 0" "curproc s' = Some k" "cr3 s' = pgtbl (procs u k)"
    using c by (simp_all add: s'_def run_ready_def run_proc_def Let_def upd_proc_def)
  have "run_ready k u = ((ctx (procs s' k), fx_ctxs s' k), s')"
    by (simp add: s'_def run_ready_def run_proc_def Let_def)
  then have "resched u = Some (Away (ctx (procs s' k), fx_ctxs s' k), s')" by (simp add: resched_def k(3))
  moreover have "trap cr2 stat data tf 33 err c (fx_save live c s) = resched u" by (simp add: trap_def u_def)
  ultimately have t: "trap_handler live cr2 stat data tf 33 err s = Some ((ctx (procs s' k), fx_ctxs s' k), s')"
    using assms(1) by (simp add: trap_handler_def Let_def)
  have "j \<noteq> c \<and> state (procs s j) \<noteq> READY" if "j < NPROCS" "dist c j < dist c k" for j
  proof -
    have "state (procs u j) \<noteq> READY" using k(4) that by blast
    then show ?thesis unfolding r by (simp split: if_splits)
  qed
  then have n: "\<forall>j < NPROCS. dist c j < dist c k \<longrightarrow> j \<noteq> c \<and> state (procs s j) \<noteq> READY" by blast
  have m: "k \<noteq> c \<longrightarrow> state (procs s k) = READY" using k(2) unfolding r by metis
  show ?thesis
    by (rule exI[of _ k], rule exI[of _ s'], intro conjI) (use t n m f k(1) in \<open>simp_all only: p q\<close>, simp_all)
qed

theorem timer_preempts_witness:
  "\<exists>k s'. trap_handler zero_fx 0 0 0 zero_context 33 0 (with_devices (ex_family False)) =
     Some ((if k = 2 then (zero_context, zero_fx) else (ctx (procs (ex_family False) k), fx_ctxs (ex_family False) k)), s') \<and>
     curproc s' = Some k \<and> exec_time (procs s' 2) = 1"
proof -
  have "curproc (with_devices (ex_family False)) = Some 2" by (simp add: ex_family_def kmem.extend_def kstate.fields_def)
  moreover have "fx_ctxs (with_devices (ex_family False)) = fx_ctxs (ex_family False)"
    by (simp add: with_devices_def kstate.extend_def)
  moreover have "exec_time (procs (ex_family False) 2) = 0" by (simp add: zero_proc_def)
  ultimately show ?thesis
    using timer_preempts[of "with_devices (ex_family False)" 2 zero_fx 0 0 0 zero_context 0]
    by (auto simp: NPROCS_def simp del: ex_family_sel)
qed

section \<open>Copy on write\<close>

lemma reach_in_pages: "path_ok d n (q @ [i]) \<Longrightarrow> reach m t q = Some u \<Longrightarrow> u \<in> pages m d n t"
proof (induction d arbitrary: n t q)
  case 0
  then have "q = []" by (auto simp: path_ok_def)
  then show ?case using 0 by simp
next
  case (Suc d)
  from Suc.prems(1) obtain j r where q: "q = j # r" "j < n" "path_ok d 512 (r @ [i])" by (rule path_ok_snoc)
  with Suc.prems(2) obtain c where c: "child (ent m t j) = Some c" "reach m c r = Some u" by (auto split: option.splits)
  from Suc.IH[OF q(3) c(2)] pages_child[OF q(2) c(1)] show ?case by blast
qed

lemma agree_reach:
  "agree (pages m d n t) m m' \<Longrightarrow> is_page t \<Longrightarrow> n \<le> 512 \<Longrightarrow> path_ok d n (q @ [i]) \<Longrightarrow>
   reach m' t q = reach m t q \<and> no_huge m' t q = no_huge m t q"
proof (induction d arbitrary: n t q)
  case 0
  then have "q = []" by (auto simp: path_ok_def)
  then show ?case by simp
next
  case (Suc d)
  from Suc.prems(4) obtain j r where q: "q = j # r" "j < n" "path_ok d 512 (r @ [i])" by (rule path_ok_snoc)
  have e: "ent m' t j = ent m t j" using Suc.prems q by (intro agree_ent[of "pages m (Suc d) n t"]) auto
  have "reach m' c r = reach m c r \<and> no_huge m' c r = no_huge m c r" if "child (ent m t j) = Some c" for c
    using Suc.IH[OF _ _ order_refl q(3)] agree_mono[OF Suc.prems(1) pages_child[OF q(2) that]] child_is_page[OF that] by blast
  then show ?case using e q(1) by (simp split: option.splits)
qed

text \<open>What the two stores into two disjoint page tables leave of them, with \<open>m1\<close> the memory after the copy to \<open>f\<close>.\<close>

lemma cow_memory:
  assumes t: "tree_ok m 3 n t1" "tree_ok m 3 n t2" and n: "n \<le> 512" and p: "path_ok 3 n (q @ [i])"
    and d: "pages m 3 n t1 \<inter> pages m 3 n t2 = {}" "f \<notin> pages m 3 n t1 \<union> pages m 3 n t2"
    and u: "reach m t1 q = Some u1" "reach m t2 q = Some u2" and m1: "agree (- {f}) m m1"
    and m2: "m2 = store64 m1 (slot u1 i) v" and m3: "m3 = store64 m2 (slot u2 i) v"
  shows "reach m2 t2 q = Some u2 \<and> no_huge m2 t2 q = no_huge m t2 q" and "agree (- {u1, u2}) m1 m3"
    and "path_ok 3 n r \<Longrightarrow> lookup m3 t1 r = (if r = q @ [i] then v else lookup m t1 r)"
    and "path_ok 3 n r \<Longrightarrow> lookup m3 t2 r = (if r = q @ [i] then v else lookup m t2 r)"
proof -
  note pg = tree_ok_is_page[OF t(1)] tree_ok_is_page[OF t(2)]
  have in_p: "u1 \<in> pages m 3 n t1" "u2 \<in> pages m 3 n t2" using reach_in_pages[OF p] u by blast+
  have i: "i < 512" using p n by (cases q) (auto simp: path_ok_def)
  have s1: "agree (- {u1}) m1 m2" and s2: "agree (- {u2}) m2 m3"
    unfolding m2 m3 using i reach_is_page[OF pg(1) u(1)] reach_is_page[OF pg(2) u(2)] by (simp_all add: agree_store)
  show "agree (- {u1, u2}) m1 m3" using s1 s2 by (auto simp: agree_def)
  have a1: "agree (pages m 3 n t1) m m1" using d(2) by (intro agree_mono[OF m1]) blast
  have "agree (pages m 3 n t2) m m1" "agree (pages m 3 n t2) m1 m2"
    using d in_p by (auto intro: agree_mono[OF m1] agree_mono[OF s1])
  then have a2: "agree (pages m 3 n t2) m m2" by (rule agree_trans)
  show r2: "reach m2 t2 q = Some u2 \<and> no_huge m2 t2 q = no_huge m t2 q" using agree_reach[OF a2 pg(2) n p] u(2) by simp
  have w1: "extends m1 m2 3 n t1 {} \<and> (\<forall>r. path_ok 3 n r \<longrightarrow> lookup m2 t1 r = (if r = q @ [i] then v else lookup m1 t1 r))"
    unfolding m2 using agree_tree_ok[OF a1 pg(1) n] t(1) agree_reach[OF a1 pg(1) n p] u(1) by (intro store_reach[OF _ n p]) simp_all
  then have "pages m2 3 n t1 = pages m 3 n t1" using agree_pages[OF a1 pg(1) n] by (simp add: extends_def)
  then have a3: "agree (pages m2 3 n t1) m2 m3" using d(1) in_p(2) by (intro agree_mono[OF s2]) auto
  show "lookup m3 t1 r = (if r = q @ [i] then v else lookup m t1 r)" if "path_ok 3 n r"
    using agree_lookup[OF a3 pg(1) n that] w1 that agree_lookup[OF a1 pg(1) n that] by simp
  have w2: "\<forall>r. path_ok 3 n r \<longrightarrow> lookup m3 t2 r = (if r = q @ [i] then v else lookup m2 t2 r)"
    unfolding m3 using agree_tree_ok[OF a2 pg(2) n] t(2) r2 store_reach[OF _ n p] by blast
  show "lookup m3 t2 r = (if r = q @ [i] then v else lookup m t2 r)" if "path_ok 3 n r"
    using w2 that agree_lookup[OF a2 pg(2) n that] by simp
qed

lemma K2P_page_byte: "is_page t \<Longrightarrow> k < 2 ^ 12 \<Longrightarrow> K2P (P2K t + k) = t + k"
proof -
  assume t: "is_page t" and k: "k < 2 ^ 12"
  have "k AND mask 47 = k" using less_trans[OF k, of "2 ^ 47"] by (intro less_mask_eq) simp
  moreover have "t AND mask 47 = t" using t by (intro less_mask_eq) (simp add: is_page_def)
  ultimately have "(t OR KERNBASE OR k) AND mask 47 = t OR k" by (simp add: KERNBASE_eq bit.conj_disj_distrib2)
  then show "K2P (P2K t + k) = t + k"
    using aligned_plus_eq_or[OF P2K_aligned[OF t] k] aligned_plus_eq_or[of t 12 k] t k
    by (simp add: K2P_def MASK_eq P2K_def or.assoc is_page_def)
qed

lemma copy_page_ok:
  assumes "is_page d" and "is_page f" and "d \<noteq> f"
  shows "agree (- {d}) (pmem s) (pmem (copy_page (P2K d) (P2K f) s))"
    and "k < 4096 \<Longrightarrow> pmem (copy_page (P2K d) (P2K f) s) (d + of_nat k) = pmem s (f + of_nat k)"
proof -
  define cp where "cp n = fold (\<lambda>i m. m(K2P (P2K d + of_nat i) := m (K2P (P2K f + of_nat i)))) [0..<n] (pmem s)" for n
  have l: "of_nat k < (2 ^ 12 :: u64)" if "k < 4096" for k using that by (simp add: word_less_nat_alt unat_of_nat)
  have pg: "page_of (d + of_nat k) = d" "page_of (f + of_nat k) = f" if "k < 4096" for k
    using assms l[OF that] aligned_plus_base[of d 12 "of_nat k"] aligned_plus_base[of f 12 "of_nat k"] by (simp_all add: is_page_def)
  have ne: "d + of_nat k \<noteq> d + of_nat n" if "k < n" "n < 4096" for k n
  proof
    assume "d + of_nat k = d + of_nat n"
    then have "unat (of_nat k :: u64) = unat (of_nat n :: u64)" by simp
    then show False using that by (simp add: unat_u64)
  qed
  have "n \<le> 4096 \<Longrightarrow> agree (- {d}) (pmem s) (cp n) \<and> (\<forall>k < n. cp n (d + of_nat k) = pmem s (f + of_nat k))" for n
  proof (induction n)
    case (Suc n)
    then have IH: "agree (- {d}) (pmem s) (cp n)" "\<forall>k < n. cp n (d + of_nat k) = pmem s (f + of_nat k)" by auto
    have "cp (Suc n) = (cp n)(d + of_nat n := cp n (f + of_nat n))"
      using Suc.prems l[of n] by (simp add: cp_def K2P_page_byte assms)
    moreover have "cp n (f + of_nat n) = pmem s (f + of_nat n)"
      using IH(1) pg(2)[of n] Suc.prems assms(3) by (simp add: agree_def)
    ultimately show ?case using IH pg(1)[of n] Suc.prems ne[of _ n] by (auto simp: agree_def less_Suc_eq)
  qed (simp add: cp_def agree_def)
  moreover have "pmem (copy_page (P2K d) (P2K f) s) = cp 4096" by (simp add: copy_page_def cp_def del: upt_rec_numeral)
  ultimately show "agree (- {d}) (pmem s) (pmem (copy_page (P2K d) (P2K f) s))"
    and "k < 4096 \<Longrightarrow> pmem (copy_page (P2K d) (P2K f) s) (d + of_nat k) = pmem s (f + of_nat k)" by simp_all
qed

lemma sub_page: "is_page f \<Longrightarrow> sub f = f"
  using aligned_plus_base[of f 12 0] less_mask_eq[of f 47] by (simp add: sub_def is_page_def and.assoc[symmetric])

text \<open>The state after the copy, when the second walk finds its entry in the memory that the first store left.\<close>

lemma copy_on_write_run:
  fixes s :: "'a kstate_scheme" and va f e :: u64
  defines "i \<equiv> unat (PT_INDEX va)" and "v \<equiv> f OR PTE_P OR PTE_U OR PTE_W"
    and "m1 \<equiv> pmem (copy_page (P2K f) (P2K (sub e)) s)" and "pg \<equiv> PA2PGINFO s e"
  assumes t: "sub (pgtbl (procs s c)) = t1" "sub (p_pgtbl (procs s c)) = t2"
    and u: "reach (pmem s) t1 (va_path va) = Some u1" "no_huge (pmem s) t1 (va_path va)" "ent (pmem s) u1 i = e"
    and u2: "reach (store64 m1 (slot u1 i) v) t2 (va_path va) = Some u2" "no_huge (store64 m1 (slot u1 i) v) t2 (va_path va)"
    and fl: "free_list s (p # p' # ps)" "paddr (page_infos s p) = f" and us: "page_used s pg" "ref (page_infos s pg) \<noteq> 1"
  shows "\<exists>s'. copy_on_write c va s = Some s' \<and> free_list s' (p' # ps) \<and> procs s' = procs s \<and> ref (page_infos s' p) = 1 \<and>
    ref (page_infos s' pg) = ref (page_infos s pg) - 1 \<and> pmem s' = store64 (store64 m1 (slot u1 i) v) (slot u2 i) v"
proof -
  let ?a = "\<lambda>u. P2K (slot (P2K u) i)"
  have pu: "is_page u1" "is_page u2" "i < 512"
    using reach_is_page[OF _ u(1)] reach_is_page[OF _ u2(1)] t(1,2)[symmetric] by (simp_all add: i_def PT_INDEX_def unat_index)
  have f: "is_page f" "p \<noteq> 0" using fl page_ok_is_page[of s p] page_ok_nonzero[of s p] by (auto simp: free_list_def)
  define s1 where "s1 = set_ref_next pg (ref_next (page_infos s pg) - 1) s"
  define s2 where "s2 = taken 0 p s1"
  define s3 where "s3 = copy_page (P2K f) (P2K (sub e)) s2"
  define s4 where "s4 = kstore64 (?a u1) v s3"
  define s5 where "s5 = kstore64 (?a u2) v s4"
  have np: "pg \<notin> set (p # p' # ps)" using page_used_not_free[OF fl(1) us(1)] .
  have fl1: "free_list s1 (p # p' # ps)" unfolding s1_def by (rule free_list_set_ref[OF fl(1) np])
  have al: "alloc_page 0 s1 = Some (p, s2)" unfolding s2_def by (rule alloc_page_taken[OF fl1])
  have m: "pmem s1 = pmem s" "pmem s2 = pmem s" by (simp_all add: s2_def s1_def taken_def set_ref_next_def)
  have m3: "pmem s3 = m1" by (simp add: s3_def m1_def copy_page_def m)
  have m4: "pmem s4 = store64 m1 (slot u1 i) v" "pmem s5 = store64 (store64 m1 (slot u1 i) v) (slot u2 i) v"
    using pu m3 by (simp_all add: s4_def s5_def kstore64_def K2P_slot)
  have pr: "procs s4 = procs s" "procs s5 = procs s"
    by (simp_all add: s5_def s4_def s3_def s2_def s1_def kstore64_def copy_page_def taken_def set_ref_next_def)
  have inf: "page_infos s5 = page_infos s2" "page_infos s2 p = (page_infos s p)\<lparr>ref_next := 1\<rparr>"
    "page_infos s2 pg = (page_infos s pg)\<lparr>ref_next := ref_next (page_infos s pg) - 1\<rparr>"
    using np by (simp_all add: s5_def s4_def s3_def s2_def s1_def kstore64_def copy_page_def taken_def set_ref_next_def)
  have "free_list s2 (p' # ps)" unfolding s2_def by (rule free_list_taken[OF fl1])
  then have "free_list s5 (p' # ps)" by (simp add: s5_def s4_def s3_def kstore64_def copy_page_def)
  moreover have "copy_on_write c va s = Some s5"
  proof -
    have w1: "walk_pgtbl (pgtbl (procs s c)) va False s = Some ((0, Some (?a u1)), s)"
      using walk_reach[of s "pgtbl (procs s c)" va u1] u(1,2) by (simp add: t i_def del: no_huge.simps reach.simps)
    have w2: "walk_pgtbl (p_pgtbl (procs s4 c)) va False s4 = Some ((0, Some (?a u2)), s4)"
      using walk_reach[of s4 "p_pgtbl (procs s c)" va u2] u2 by (simp add: t i_def m4 pr del: no_huge.simps reach.simps)
    have l: "kload64 s (?a u1) = e" "kload64 s2 (?a u1) = e"
      using pu u(3) m(2) by (simp_all add: kload64_def K2P_slot)
    have pa: "pi_paddr s2 p = Some f" using f(2) inf(2) fl(2) by (simp add: pi_paddr_def)
    have st: "pte_store (Some (?a u1)) v s3 = Some s4" "pte_store (Some (?a u2)) v s4 = Some s5"
      by (simp_all add: pte_store_def P2K_not_0 s4_def s5_def)
    show ?thesis
      using us(2) al pa st unfolding copy_on_write_def
      by (simp add: w1 w2 l pte_load_def P2K_not_0 Let_def pg_def[symmetric] s1_def[symmetric]
          PAGEKADDR_eq sub_page[OF f(1)] s3_def[symmetric] v_def[symmetric])
  qed
  moreover have "ref (page_infos s5 p) = 1" "ref (page_infos s5 pg) = ref (page_infos s pg) - 1"
    using us(1) by (simp_all add: inf ref_def page_used_def sint_dec)
  ultimately show ?thesis using pr(2) m4(2) by blast
qed

text \<open>
  C8: A write to a shared page gets a private copy.  When the frame behind a page of the process has more
  than one reference, \<^verbatim>\<open>copy_on_write\<close> takes one free page, copies the frame to it byte for byte, and maps the
  copy writable at that address and nowhere else, in both page tables of the process; the frame loses
  one reference, and no byte of it or of any page but the copy and the tables changes, so that the other
  processes that share it see what they saw.
\<close>
theorem copy_on_write_private:
  fixes s :: "'a kstate_scheme"
  assumes t: "sub (pgtbl (procs s c)) = t1" "sub (p_pgtbl (procs s c)) = t2"
    and "tree_ok (pmem s) 3 n t1" and "tree_ok (pmem s) 3 n t2" and "n \<le> 512" and "unat (PML4_INDEX va) < n"
    and "no_huge (pmem s) t1 (va_path va)" and "no_huge (pmem s) t2 (va_path va)"
    and "pages (pmem s) 3 n t1 \<inter> pages (pmem s) 3 n t2 = {}"
    and "lookup (pmem s) t1 (va_indices va) = e" and "e \<noteq> 0" and "lookup (pmem s) t2 (va_indices va) \<noteq> 0"
    and "free_list s (p # p' # ps)" and "paddr (page_infos s p) = f"
    and "f \<notin> pages (pmem s) 3 n t1 \<union> pages (pmem s) 3 n t2" and "sub e \<noteq> f"
    and "page_used s (PA2PGINFO s e)" and "ref (page_infos s (PA2PGINFO s e)) \<noteq> 1"
  shows "\<exists>s'. copy_on_write c va s = Some s' \<and> free_list s' (p' # ps) \<and> procs s' = procs s \<and>
    ref (page_infos s' p) = 1 \<and> ref (page_infos s' (PA2PGINFO s e)) = ref (page_infos s (PA2PGINFO s e)) - 1 \<and>
    (\<forall>r t. path_ok 3 n r \<longrightarrow> t \<in> {t1, t2} \<longrightarrow> lookup (pmem s') t r =
       (if r = va_indices va then f OR PTE_P OR PTE_U OR PTE_W else lookup (pmem s) t r)) \<and>
    (\<forall>k < 4096. pmem s' (f + of_nat k) = pmem s (sub e + of_nat k)) \<and>
    agree (- insert f (pages (pmem s) 3 n t1 \<union> pages (pmem s) 3 n t2)) (pmem s) (pmem s')"
proof -
  let ?i = "unat (PT_INDEX va)" and ?q = "va_path va" and ?v = "f OR PTE_P OR PTE_U OR PTE_W"
  let ?m1 = "pmem (copy_page (P2K f) (P2K (sub e)) s)" and ?P = "pages (pmem s) 3 n t1 \<union> pages (pmem s) 3 n t2"
  have iv: "va_indices va = ?q @ [?i]" by (simp add: va_indices_def)
  obtain u1 u2 where u: "reach (pmem s) t1 ?q = Some u1" "reach (pmem s) t2 ?q = Some u2" and e: "ent (pmem s) u1 ?i = e"
    using assms(10-12) by (auto simp: iv lookup_reach split: option.splits)
  have f: "is_page f" using assms(13,14) page_ok_is_page[of s p] by (auto simp: free_list_def)
  note m1 = copy_page_ok[OF f is_page_sub assms(16)[symmetric], where s = s]
  note pa = path_ok_va[OF assms(6)]
  note cow = cow_memory[OF assms(3,4,5) pa assms(9,15) u m1(1) refl refl, where v = ?v]
  from cow(1) assms(8) copy_on_write_run[OF t u(1) assms(7) e _ _ assms(13,14,17,18), of u2]
  obtain s' where s': "copy_on_write c va s = Some s'" "free_list s' (p' # ps)" "procs s' = procs s" "ref (page_infos s' p) = 1"
    "ref (page_infos s' (PA2PGINFO s e)) = ref (page_infos s (PA2PGINFO s e)) - 1"
    "pmem s' = store64 (store64 ?m1 (slot u1 ?i) ?v) (slot u2 ?i) ?v" by blast
  have up: "u1 \<in> ?P" "u2 \<in> ?P" using reach_in_pages[OF pa] u by blast+
  have ag: "agree (- {u1, u2}) ?m1 (pmem s')" using cow(2) unfolding s'(6) .
  have "pmem s' (f + of_nat k) = pmem s (sub e + of_nat k)" if "k < 4096" for k
  proof -
    have "page_of (f + of_nat k) = f"
      using f that by (intro aligned_plus_base) (simp_all add: is_page_def word_less_nat_alt unat_of_nat)
    moreover have "f \<notin> {u1, u2}" using up assms(15) by blast
    ultimately have "pmem s' (f + of_nat k) = ?m1 (f + of_nat k)" using ag by (simp add: agree_def)
    then show ?thesis using m1(2)[OF that] by simp
  qed
  moreover have "agree (- insert f ?P) (pmem s) (pmem s')" using ag m1(1) up by (auto simp: agree_def)
  moreover have "lookup (pmem s') t r = (if r = va_indices va then ?v else lookup (pmem s) t r)"
    if "path_ok 3 n r" "t \<in> {t1, t2}" for r t
    using that(2) cow(3,4)[OF that(1)] unfolding s'(6) iv by (elim insertE emptyE) (simp_all only: refl)
  ultimately show ?thesis using s'(1-5) by (intro exI[of _ s'] conjI allI impI) assumption+
qed

text \<open>A process whose tables at \<open>0x207000\<close> and \<open>0x307000\<close> map the frame \<open>0x206000\<close>, which has two references.\<close>

definition ex_tbl2 :: bytes where
  "ex_tbl2 = store64 (store64 (store64 (store64 ex_tbl
     (slot 0x307000 0) 0x308007) (slot 0x308000 0) 0x309007) (slot 0x309000 2) 0x30A007)
     (slot 0x30A000 0) 0x206007"

lemma is_page_lits2 [simp]: "is_page 0x307000" "is_page 0x308000" "is_page 0x309000" "is_page 0x30A000"
  by (simp_all add: is_page_def mask_eq_exp_minus_1)

lemma ex_tbl2_ent:
  assumes "i < 512"
  shows "ent ex_tbl2 0x307000 i = (if i = 0 then 0x308007 else 0)"
    and "ent ex_tbl2 0x308000 i = (if i = 0 then 0x309007 else 0)"
    and "ent ex_tbl2 0x309000 i = (if i = 2 then 0x30A007 else 0)"
    and "ent ex_tbl2 0x30A000 i = (if i = 0 then 0x206007 else 0)"
  using assms by (simp_all add: ex_tbl2_def ex_tbl_def mem64.load_store slot_inj load64_zero)

lemma ex_tbl2_child:
  assumes "i < 512"
  shows "child (ent ex_tbl2 0x307000 i) = (if i = 0 then Some 0x308000 else None)"
    and "child (ent ex_tbl2 0x308000 i) = (if i = 0 then Some 0x309000 else None)"
    and "child (ent ex_tbl2 0x309000 i) = (if i = 2 then Some 0x30A000 else None)"
  using assms by (simp_all add: ex_tbl2_ent child_def PTE_P_def PDPTE_PS_def sub_def mask_eq_exp_minus_1)

lemma ex_tbl2_tree:
  "tree_ok ex_tbl2 3 256 0x307000" "pages ex_tbl2 3 256 0x307000 = {0x307000, 0x308000, 0x309000, 0x30A000}"
proof -
  have 1: "tree_ok ex_tbl2 (Suc 0) 512 0x309000" "pages ex_tbl2 (Suc 0) 512 0x309000 = {0x309000, 0x30A000}"
    using single_child[of 512 ex_tbl2 "0x309000" 2 "0x30A000" 0] by (simp_all add: ex_tbl2_child del: pages.simps(2) tree_ok.simps(2))
  have 2: "tree_ok ex_tbl2 (Suc (Suc 0)) 512 0x308000" "pages ex_tbl2 (Suc (Suc 0)) 512 0x308000 = {0x308000, 0x309000, 0x30A000}"
    using single_child[of 512 ex_tbl2 "0x308000" 0 "0x309000" "Suc 0"] by (simp_all add: ex_tbl2_child 1 del: pages.simps(2) tree_ok.simps(2))
  show "tree_ok ex_tbl2 3 256 0x307000" "pages ex_tbl2 3 256 0x307000 = {0x307000, 0x308000, 0x309000, 0x30A000}"
    using single_child[of 256 ex_tbl2 "0x307000" 0 "0x308000" "Suc (Suc 0)"] by (simp_all add: ex_tbl2_child 2 numeral_3_eq_3 del: pages.simps(2) tree_ok.simps(2))
qed

lemma ex_tbl2_walk:
  "no_huge ex_tbl2 0x307000 [0, 0, 2]" "lookup ex_tbl2 0x307000 [0, 0, 2, 0] = 0x206007"
proof -
  have c: "child 0x308007 = Some 0x308000" "child 0x309007 = Some 0x309000" "child 0x30A007 = Some 0x30A000"
    by (simp_all add: child_def PTE_P_def PDPTE_PS_def sub_def mask_eq_exp_minus_1)
  then show "no_huge ex_tbl2 0x307000 [0, 0, 2]" by (simp add: ex_tbl2_ent PDPTE_PS_def)
  show "lookup ex_tbl2 0x307000 [0, 0, 2, 0] = 0x206007" using c by (simp add: ex_tbl2_ent)
qed

lemma ex_tbl2_agree: "agree {0x207000, 0x208000, 0x209000, 0x20A000} ex_tbl ex_tbl2"
proof -
  have "agree {0x207000, 0x208000, 0x209000, 0x20A000} m (store64 m (slot t j) v)"
    if "t \<in> {0x307000, 0x308000, 0x309000, 0x30A000}" "j < 512" for m t j v
    by (rule agree_mono[OF agree_store]) (use that in auto)
  note a = this
  show ?thesis unfolding ex_tbl2_def by (rule agree_trans[OF agree_trans[OF agree_trans[OF a a] a] a]) simp_all
qed

definition ex_shared :: kstate where
  "ex_shared = kmem.extend ((set_ref_next (ex_pi 0x206) 2 ex_kmem)\<lparr>pmem := ex_tbl2\<rparr>)
     (kstate.fields (\<lambda>_. zero_proc\<lparr>pgtbl := 0x207000, p_pgtbl := 0x307000\<rparr>) (\<lambda>_. zero_fx) (Some 1) None 0 (\<lambda>_. zero_pipe) (\<lambda>_. 0) 0 0)"

lemma ex_shared_sel [simp]:
  "pmem ex_shared = ex_tbl2" "pgtbl (procs ex_shared i) = 0x207000" "p_pgtbl (procs ex_shared i) = 0x307000"
  "k_pageinfo ex_shared = 0xFFFF800000100000" "end_kmem ex_shared = 0xFFFF800000200000" "max_addr ex_shared = 0x400000"
  "page_infos ex_shared (ex_pi 0x206) = \<lparr>paddr = 0x206000, ref_next = 2\<rparr>" "paddr (page_infos ex_shared (ex_pi 0x200)) = 0x200000"
  by (simp_all add: ex_shared_def kmem.extend_def kstate.fields_def zero_proc_def set_ref_next_def ex_kmem_def ex_pi_def)

lemma ex_shared_free: "free_list ex_shared ex_free"
proof (rule free_list_kstate)
  have "ex_pi 0x206 \<notin> set ex_free" by (simp add: ex_free_def ex_pi_def)
  then show "free_list ((set_ref_next (ex_pi 0x206) 2 ex_kmem)\<lparr>pmem := ex_tbl2\<rparr>) ex_free"
    by (simp add: free_list_set_ref ex_free_list)
qed (simp add: ex_shared_def kmem.extend_def kmem.truncate_def)

lemma ex_shared_used: "PA2PGINFO ex_shared 0x206007 = ex_pi 0x206" "page_used ex_shared (ex_pi 0x206)"
  by (simp_all add: PA2PGINFO_def page_used_def page_ok_def ref_def) (simp_all add: ex_pi_def K2P_def MASK_def mask_eq_exp_minus_1)

theorem copy_on_write_private_witness:
  "\<exists>s'. copy_on_write 1 0x400010 ex_shared = Some s' \<and> lookup (pmem s') 0x207000 [0, 0, 2, 0] = 0x200007 \<and>
     lookup (pmem s') 0x307000 [0, 0, 2, 0] = 0x200007 \<and> ref (page_infos s' (ex_pi 0x206)) = 1"
proof -
  have va: "va_path 0x400010 = [0, 0, 2]" "va_indices 0x400010 = [0, 0, 2, 0]" "unat (PML4_INDEX 0x400010) < 256"
    by (simp_all add: va_indices_def va_path_def PML4_INDEX_def PDPT_INDEX_def PD_INDEX_def PT_INDEX_def
        PML4_OFFSET_def PDPT_OFFSET_def PD_OFFSET_def PT_OFFSET_def drop_bit_eq_div)
  have sb: "sub 0x207000 = 0x207000" "sub 0x307000 = 0x307000" "sub 0x206007 = 0x206000"
    by (simp_all add: sub_def mask_eq_exp_minus_1)
  have ok: "path_ok 3 256 [0, 0, 2, 0]" by (simp add: path_ok_def)
  have w: "va_path 0x400000 = [0, 0, 2]" by (simp add: va_path_def PML4_INDEX_def PDPT_INDEX_def PD_INDEX_def PML4_OFFSET_def PDPT_OFFSET_def PD_OFFSET_def drop_bit_eq_div)
  note ag = ex_tbl2_agree[folded ex_tbl_tree(2)]
  have t1: "tree_ok ex_tbl2 3 256 0x207000" "pages ex_tbl2 3 256 0x207000 = {0x207000, 0x208000, 0x209000, 0x20A000}"
    "lookup ex_tbl2 0x207000 [0, 0, 2, 0] = 0x206007" "no_huge ex_tbl2 0x207000 [0, 0, 2]"
    using agree_tree_ok[OF ag] agree_pages[OF ag] agree_lookup[OF ag _ _ ok] agree_reach[OF ag, of "[0, 0, 2]" 0] ok
      ex_tbl_tree ex_tbl_lookup ex_tbl_walk(1)[unfolded w sb] by (simp_all del: tree_ok.simps pages.simps lookup.simps no_huge.simps reach.simps)
  have fl: "free_list ex_shared (ex_pi 0x200 # ex_pi 0x201 # tl (tl ex_free))" using ex_shared_free by (simp add: ex_free_def)
  have h: "pages ex_tbl2 3 256 0x207000 \<inter> pages ex_tbl2 3 256 0x307000 = {}"
    "0x200000 \<notin> pages ex_tbl2 3 256 0x207000 \<union> pages ex_tbl2 3 256 0x307000"
    unfolding t1(2) ex_tbl2_tree(2) by simp_all
  have g: "(256 :: nat) \<le> 512" "(0x206007 :: u64) \<noteq> 0" "lookup ex_tbl2 0x307000 [0, 0, 2, 0] \<noteq> 0" "(0x206000 :: u64) \<noteq> 0x200000"
    "ref \<lparr>paddr = 0x206000, ref_next = 2\<rparr> \<noteq> 1"
    unfolding ex_tbl2_walk(2) by (simp_all add: ref_def)
  note c = copy_on_write_private[of ex_shared 1 "0x207000" "0x307000" 256 "0x400010" "0x206007" "ex_pi 0x200" "ex_pi 0x201"
        "tl (tl ex_free)" "0x200000", unfolded ex_shared_sel sb va(1,2) ex_shared_used(1)]
  note c = c[OF refl refl t1(1) ex_tbl2_tree(1) g(1) va(3) t1(4) ex_tbl2_walk(1) h(1) t1(3) g(2,3) fl refl h(2) g(4) ex_shared_used(2) g(5)]
  have f: "(0x200000 OR PTE_P OR PTE_U OR PTE_W :: u64) = 0x200007" by (simp add: PTE_P_def PTE_U_def PTE_W_def)
  have r: "ref \<lparr>paddr = 0x206000, ref_next = 2\<rparr> - 1 = 1" by (simp add: ref_def)
  show ?thesis using c ok unfolding f r by (metis insertI1 insertI2)
qed

end
