(* ===== verification/MemInit.thy ===== *)
theory MemInit
  imports Exec
begin

text \<open>
  Bringing up memory, from \<^verbatim>\<open>kernel/mem.c\<close>: the segment descriptors, the array of page descriptors made
  from the memory map of the boot loader, the kernel's page table, and the free list.  Until
  \<^verbatim>\<open>init_kpgtbl\<close> loads CR3 the kernel runs on tables that map \<^verbatim>\<open>KERNBASE\<close> in the same way, so that its
  accesses go through the direct map from the start.

  \<^verbatim>\<open>MemProp\<close> and \<^verbatim>\<open>KMap\<close> show that the page table maps all of physical memory twice, at 0 and at \<^verbatim>\<open>KERNBASE\<close>, which is
  what every \<^verbatim>\<open>K2P\<close> and \<^verbatim>\<open>P2K\<close> of the kernel relies on, and that the free list holds exactly the
  conventional pages behind the kernel.
\<close>

section \<open>Segments\<close>

record seg_desc =
  limit1 :: u16
  base1 :: u16
  base2 :: u8
  sd_type :: u8
  sd_s :: u8
  sd_dpl :: u8
  sd_p :: u8
  limit2 :: u8
  sd_avl :: u8
  sd_l :: u8
  sd_d_b :: u8
  sd_g :: u8
  base3 :: u8

definition empty_desc :: seg_desc where
  "empty_desc = \<lparr>limit1 = 0, base1 = 0, base2 = 0, sd_type = 0, sd_s = 0, sd_dpl = 0, sd_p = 0, limit2 = 0, sd_avl = 0,
     sd_l = 0, sd_d_b = 0, sd_g = 0, base3 = 0\<rparr>"

text \<open>The null segment, then code and data of the kernel and of user programs.\<close>

definition gdt :: "seg_desc list" where
  "gdt = [empty_desc,
     empty_desc\<lparr>sd_type := 8, sd_l := 1, sd_dpl := 0, sd_s := 1, sd_p := 1\<rparr>,
     empty_desc\<lparr>sd_type := 2, sd_l := 0, sd_dpl := 0, sd_s := 1, sd_p := 1\<rparr>,
     empty_desc\<lparr>sd_type := 8, sd_l := 1, sd_dpl := 3, sd_s := 1, sd_p := 1\<rparr>,
     empty_desc\<lparr>sd_type := 2, sd_l := 0, sd_dpl := 3, sd_s := 1, sd_p := 1\<rparr>,
     empty_desc, empty_desc, empty_desc, empty_desc]"

record gdt_desc =
  gdt_limit :: u16
  gdt_base :: u64

record tss =
  tss_res0 :: u32
  rsp0 :: u64
  rsp1 :: u64
  rsp2 :: u64
  tss_res1 :: u64
  ist :: "u64 list"
  tss_res2 :: u64
  tss_res3 :: u16
  io_base :: u16

text \<open>The fields \<^verbatim>\<open>ist1\<close> to \<^verbatim>\<open>ist7\<close> are a list.\<close>

definition init_tss :: tss where
  "init_tss = \<lparr>tss_res0 = 0, rsp0 = KSTACK, rsp1 = KSTACK, rsp2 = KSTACK, tss_res1 = 0, ist = replicate 7 0, tss_res2 = 0,
     tss_res3 = 0, io_base = 0\<rparr>"

text \<open>The descriptor of the TSS has the fields of a segment descriptor and the high half of the base behind them.\<close>

record tss_desc = seg_desc +
  base4 :: u32
  td_res :: u32

record segs =
  gdtr :: gdt_desc
  tr :: u16
  code_sel :: u16
  data_sel :: u16

text \<open>
  \<^verbatim>\<open>init_gdt\<close> for the addresses of the two static objects: the descriptor written over \<^verbatim>\<open>gdt[6]\<close> and
  \<^verbatim>\<open>gdt[7]\<close>, and what the processor's registers are loaded with.
\<close>

definition init_gdt :: "u64 \<Rightarrow> u64 \<Rightarrow> tss_desc \<times> segs" where
  "init_gdt tss_addr gdt_addr =
     (\<lparr>limit1 = 104, base1 = ucast (tss_addr AND 0xFFFF), base2 = ucast (drop_bit 16 tss_addr AND 0xFF), sd_type = 9,
        sd_s = 0, sd_dpl = 3, sd_p = 1, limit2 = 0, sd_avl = 0, sd_l = 0, sd_d_b = 0, sd_g = 0,
        base3 = ucast (drop_bit 24 tss_addr AND 0xFF), base4 = ucast (drop_bit 32 tss_addr AND 0xFFFFFFFF), td_res = 0\<rparr>,
      \<lparr>gdtr = \<lparr>gdt_limit = 8 * 8 - 1, gdt_base = gdt_addr\<rparr>, tr = 0x33, code_sel = ucast KERN_CODE_SEL, data_sel = 0x10\<rparr>)"

section \<open>Page descriptors\<close>

definition EFI_CONVENTIONAL_MEMORY :: u32 where "EFI_CONVENTIONAL_MEMORY = 7"

record mem_map_desc =
  md_type :: u32
  md_pad :: u32
  phys_start :: u64
  virt_start :: u64
  num_of_pages :: u64
  md_attr :: u64

text \<open>\<open>mm_list i\<close> is the descriptor \<open>i * desc_size\<close> bytes behind \<^verbatim>\<open>list\<close>.\<close>

record mem_map =
  mm_list :: "nat \<Rightarrow> mem_map_desc"
  map_size :: u64
  map_key :: u64
  desc_size :: u64
  desc_ver :: u64

definition n_desc :: "mem_map \<Rightarrow> nat" where
  "n_desc mm = nat (sint (ucast (map_size mm div scast (ucast (desc_size mm) :: u32)) :: u32))"

definition desc_end :: "mem_map_desc \<Rightarrow> u64" where
  "desc_end d = phys_start d + num_of_pages d * PGSIZE"

definition set_paddr :: "u64 \<Rightarrow> u64 \<Rightarrow> 'a kmem_scheme \<Rightarrow> 'a kmem_scheme" where
  "set_paddr p a s = s\<lparr>page_infos := (page_infos s)(p := (page_infos s p)\<lparr>paddr := a\<rparr>)\<rparr>"

text \<open>
  The number of steps of one page from \<open>beg\<close> until \<open>lim\<close> is reached.  When the step that should reach \<open>lim\<close>
  wraps around, the counter starts again below it and the loop does not end.
\<close>

definition page_steps :: "u64 \<Rightarrow> u64 \<Rightarrow> nat option" where
  "page_steps beg lim =
     (let n = (if beg < lim then (unat lim - unat beg + 4095) div 4096 else 0)
      in if unat beg + n * 4096 < 2 ^ 64 then Some n else None)"

definition clear_infos :: "'a kmem_scheme \<Rightarrow> 'a kmem_scheme option" where
  "clear_infos s = do {
     n \<leftarrow> page_steps 0 (max_addr s);
     for_loop [0..<n] (\<lambda>k s. Some (set_ref_next (PA2PGINFO s (of_nat k * PGSIZE)) 0
       (set_paddr (PA2PGINFO s (of_nat k * PGSIZE)) 0 s))) s
   }"

definition add_desc :: "mem_map_desc \<Rightarrow> 'a kmem_scheme \<Rightarrow> 'a kmem_scheme option" where
  "add_desc d s =
     (if md_type d \<noteq> EFI_CONVENTIONAL_MEMORY then Some s
      else do {
        n \<leftarrow> page_steps (phys_start d) (desc_end d);
        for_loop [0..<n] (\<lambda>k s. let a = phys_start d + of_nat k * PGSIZE in Some (set_paddr (PA2PGINFO s a) a s)) s
      })"

definition init_kpageinfo :: "mem_map \<Rightarrow> 'a kmem_scheme \<Rightarrow> 'a kmem_scheme option" where
  "init_kpageinfo mm s =
     (if (ucast (desc_size mm) :: u32) = 0 then None
      else do {
        let s = s\<lparr>k_pageinfo := end_kmem s\<rparr>;
        let s = s\<lparr>max_addr := fold (\<lambda>i a. max a (desc_end (mm_list mm i))) [0..<n_desc mm] 0\<rparr>;
        s \<leftarrow> clear_infos s;
        s \<leftarrow> for_loop [0..<n_desc mm] (\<lambda>i. add_desc (mm_list mm i)) s;
        Some (s\<lparr>end_kmem := PA2PGINFO s (max_addr s)\<rparr>)
      })"

section \<open>The kernel's page table\<close>

definition n_pml4 :: nat where "n_pml4 = 512"
definition n_pdpt_perpage :: nat where "n_pdpt_perpage = 512"
definition n_pdpt :: nat where "n_pdpt = n_pml4 * n_pdpt_perpage"

definition CR0_WP :: u64 where "CR0_WP = 2 ^ 16"
definition CR4_SMAP :: u64 where "CR4_SMAP = 2 ^ 21"
definition CR4_PKE :: u64 where "CR4_PKE = 2 ^ 22"
definition CR4_PKS :: u64 where "CR4_PKS = 2 ^ 24"

definition reg_kpgtbl_1Gpage :: "u64 \<Rightarrow> u64 \<Rightarrow> 'a kmem_scheme \<Rightarrow> 'a kmem_scheme" where
  "reg_kpgtbl_1Gpage vaddr pa s =
     (let pml4i = unat (PML4_INDEX vaddr);
          pdpti = pml4i * n_pdpt_perpage + unat (PDPT_INDEX vaddr)
      in kstore64 (slot (k_pdpt s) pdpti) (pa OR PTE_P OR PDPTE_PS OR PTE_W) s)"

text \<open>The control registers are cleared of what would keep the kernel from writing everywhere.\<close>

definition unprotect :: "u64 \<Rightarrow> u64 \<Rightarrow> u64 \<times> u64" where
  "unprotect cr0 cr4 =
     (let cr0 = (if cr0 AND CR0_WP \<noteq> 0 then cr0 AND NOT CR0_WP else cr0);
          cr4 = (if cr4 AND CR4_SMAP \<noteq> 0 then cr4 AND NOT CR4_SMAP else cr4);
          cr4 = (if cr4 AND (CR4_PKE OR CR4_PKS) \<noteq> 0 then cr4 AND NOT (CR4_PKE OR CR4_PKS) else cr4)
      in (cr0, cr4))"

definition direct_map :: "nat \<Rightarrow> 'a kmem_scheme \<Rightarrow> 'a kmem_scheme option" where
  "direct_map n = for_loop [0..<n] (\<lambda>k s.
     let addr = of_nat k * 0x40000000
     in Some (reg_kpgtbl_1Gpage (KERNBASE OR addr) addr (reg_kpgtbl_1Gpage addr addr s)))"

text \<open>\<^verbatim>\<open>init_kpgtbl\<close>, with \<open>kstack\<close> the address of the static array; the result has the two control registers.  The loop over
  gigabytes starts at 0, so that its counter wraps around exactly when \<^verbatim>\<open>max_addr\<close> lies in the last gigabyte.\<close>

definition init_kpgtbl :: "u64 \<Rightarrow> u64 \<Rightarrow> u64 \<Rightarrow> 'a kmem_scheme \<Rightarrow> ((u64 \<times> u64) \<times> 'a kmem_scheme) option" where
  "init_kpgtbl kstack cr0 cr4 s = do {
     let (cr0, cr4) = unprotect cr0 cr4;
     let s = s\<lparr>k_pgtbl := ROUNDUP (end_kmem s) PGSIZE\<rparr>;
     let s = s\<lparr>k_pdpt := ROUNDUP (slot (k_pgtbl s) n_pml4) PGSIZE\<rparr>;
     let kstack_pd = ROUNDUP (slot (k_pdpt s) n_pdpt) PGSIZE;
     let kstack_pt = slot kstack_pd 512;
     let end_kpgtbl = slot kstack_pt 512;
     let s = s\<lparr>pmem := memset (pmem s) (K2P (k_pgtbl s)) 0 (ucast (end_kpgtbl - k_pgtbl s))\<rparr>;
     s \<leftarrow> for_loop [0..<n_pml4] (\<lambda>i s.
       Some (kstore64 (slot (k_pgtbl s) i) (K2P (slot (k_pdpt s) (n_pdpt_perpage * i)) OR PTE_P OR PTE_W) s)) s;
     s \<leftarrow> (if max_addr s > - 0x40000000 then None else direct_map ((unat (max_addr s) + (2 ^ 30 - 1)) div 2 ^ 30) s);
     let s = kstore64 (slot (k_pdpt s) (n_pdpt - 1)) (K2P kstack_pd OR PTE_P OR PTE_W) s;
     let s = kstore64 (slot kstack_pd 511) (K2P kstack_pt OR PTE_P OR PTE_W) s;
     let s = kstore64 (slot kstack_pt 510) (K2P kstack OR PTE_P OR PTE_W) s;
     let s = s\<lparr>cr3 := K2P (k_pgtbl s)\<rparr>;
     Some ((cr0, cr4), s\<lparr>end_kmem := end_kpgtbl\<rparr>)
   }"

section \<open>The free list\<close>

text \<open>One iteration, with \<open>last_page\<close> the page linked last or NULL; \<^verbatim>\<open>ref\<close> and \<^verbatim>\<open>next\<close> are the same word.\<close>

definition freepages_step :: "nat \<Rightarrow> u64 \<times> 'a kmem_scheme \<Rightarrow> (u64 \<times> 'a kmem_scheme) option" where
  "freepages_step k = (\<lambda>(last_page, s).
     let pginfo = k_pageinfo s + 16 * of_nat k
     in if paddr (page_infos s pginfo) < K2P (end_kmem s)
        then Some (last_page, set_ref_next pginfo 0 (set_ref_next pginfo 1 s))
        else let s = (if last_page \<noteq> 0 then set_ref_next last_page pginfo s else s\<lparr>freepages := pginfo\<rparr>)
             in Some (pginfo, s\<lparr>nfreepages := nfreepages s + 1\<rparr>))"

definition init_freepages :: "'a kmem_scheme \<Rightarrow> 'a kmem_scheme option" where
  "init_freepages s = do {
     let pginfo_end = PA2PGINFO s (max_addr s);
     let n = (if k_pageinfo s < pginfo_end then unat (pginfo_end - k_pageinfo s) div 16 else 0);
     (last_page, s) \<leftarrow> for_loop [0..<n] freepages_step (0, s);
     if last_page = 0 then vstore64 8 0 s else Some (set_ref_next last_page 0 s)
   }"

end
