(* ===== verification/MemProp.thy ===== *)
theory MemProp
  imports MemInit SysProp
begin

text \<open>
  What the bring-up of memory in \<^verbatim>\<open>MemInit\<close> establishes: the free list that the allocator starts with and
  the direct map that the kernel runs on.
\<close>

section \<open>Segments\<close>

text \<open>The four pieces of the base recompose to the address of the TSS, whose descriptor the task register selects.\<close>

lemma init_gdt_tss:
  "case init_gdt a g of (d, r) \<Rightarrow>
     ucast (base1 d) OR push_bit 16 (ucast (base2 d)) OR push_bit 24 (ucast (base3 d)) OR push_bit 32 (ucast (base4 d)) = a \<and>
     sd_p d = 1 \<and> sd_type d = 9 \<and> drop_bit 3 (tr r) = 6 \<and> 8 * 6 + 16 = unat (gdt_limit (gdtr r)) + 1 \<and> code_sel r = 8 * 1 \<and> data_sel r = 8 * 2"
proof -
  have m: "0xFFFF = (mask 16 :: u64)" "0xFF = (mask 8 :: u64)" "0xFFFFFFFF = (mask 32 :: u64)" by (simp_all add: mask_eq_exp_minus_1)
  let ?b = "\<lambda>k n. push_bit k (drop_bit k a AND mask n) :: u64"
  have "(a AND mask 16) OR ?b 16 8 OR ?b 24 8 OR ?b 32 32 = a"
  proof (rule u64_eqI)
    fix n :: nat
    assume "n < 64"
    then show "bit ((a AND mask 16) OR ?b 16 8 OR ?b 24 8 OR ?b 32 32) n = bit a n"
      by (cases "n < 16"; cases "n < 24"; cases "n < 32") (auto simp: bit_simps)
  qed
  moreover have "ucast (ucast (x AND mask 16) :: u16) = x AND mask 16" "ucast (ucast (x AND mask 8) :: u8) = x AND mask 8"
    "ucast (ucast (x AND mask 32) :: u32) = x AND mask 32" for x :: u64
    by (rule u64_eqI; auto simp: bit_simps)+
  ultimately show ?thesis unfolding init_gdt_def m by (simp add: KERN_CODE_SEL_def drop_bit_eq_div)
qed

section \<open>Linking the free pages\<close>

abbreviation pi_at :: "u64 \<Rightarrow> nat \<Rightarrow> u64" where
  "pi_at kp k \<equiv> kp + 16 * of_nat k"

lemma unat_pi_at:
  assumes "unat kp + 16 * n < 2 ^ 64" and "k \<le> n"
  shows "unat (pi_at kp k) = unat kp + 16 * k"
proof -
  have "(16 * of_nat k :: u64) = of_nat (16 * k)" by simp
  moreover have "unat (of_nat (16 * k) :: u64) = 16 * k" using assms by (intro unat_u64) simp
  ultimately show ?thesis using assms by (simp add: unat_word_ariths)
qed

lemma page_number:
  assumes "k < 2 ^ 35"
  shows "unat (of_nat k * PGSIZE) = k * 4096" and "of_nat k * PGSIZE AND mask 12 = 0" and "drop_bit 12 (of_nat k * PGSIZE) = of_nat k"
proof -
  have w: "of_nat k * PGSIZE = of_nat (k * 4096)" by (simp add: PGSIZE_def)
  show u: "unat (of_nat k * PGSIZE) = k * 4096" unfolding w using assms by (intro unat_u64) simp
  have "unat (of_nat k * PGSIZE AND mask 12 :: u64) = 0"
    using u by (simp add: take_bit_eq_mask[symmetric] take_bit_eq_mod unat_mod)
  then show "of_nat k * PGSIZE AND mask 12 = 0" by (simp add: word_unat_eq_iff)
  have "unat (drop_bit 12 (of_nat k * PGSIZE)) = k" using u by (simp add: drop_bit_eq_div unat_div)
  moreover have "unat (of_nat k :: u64) = k" using assms by (intro unat_u64) simp
  ultimately show "drop_bit 12 (of_nat k * PGSIZE) = of_nat k" by (simp add: word_unat_eq_iff)
qed

lemma unat_and_PGMASK: "unat (x AND PGMASK) = unat x mod 4096"
  by (simp add: PGMASK_eq take_bit_eq_mask[symmetric] take_bit_eq_mod unat_mod)

lemma sint_negative:
  assumes "2 ^ 63 \<le> unat (q :: u64)"
  shows "sint q < 0"
proof -
  have "\<not> q < 2 ^ 63" using assms by (simp add: word_less_nat_alt)
  then obtain i where "63 \<le> i" "bit q i" using word_less_exp_iff_bits[of 63 q] by auto
  moreover have "i < 64" using \<open>bit q i\<close> by (auto dest: bit_imp_le_length)
  ultimately have "bit q 63" by (cases "i = 63") auto
  then show ?thesis by (simp add: sint_uint bit_uint_iff)
qed

lemma pi_at_inj:
  assumes "unat kp + 16 * n < 2 ^ 64" and "k \<le> n" and "j \<le> n" and "pi_at kp k = pi_at kp j"
  shows "k = j"
proof -
  have "unat kp + 16 * k = unat kp + 16 * j"
    using unat_pi_at[OF assms(1,2)] unat_pi_at[OF assms(1,3)] unfolding assms(4) by linarith
  then show ?thesis by simp
qed

lemma fl_path_snoc:
  assumes "fl_path h p (xs @ [l])" and "distinct (xs @ [l, q])" and "q \<noteq> 0"
  shows "fl_path (h(l := (h l)\<lparr>ref_next := q\<rparr>, q := (h q)\<lparr>ref_next := 0\<rparr>)) p (xs @ [l, q])"
  using assms by (induction xs arbitrary: p) auto

text \<open>The loop has linked the pages \<open>L\<close>, the last of which has no successor yet.\<close>

definition linked :: "'a kmem_scheme \<Rightarrow> u64 list \<Rightarrow> u64 \<times> 'a kmem_scheme \<Rightarrow> bool" where
  "linked s0 L = (\<lambda>(l, s).
     s = s0\<lparr>page_infos := page_infos s, freepages := freepages s, nfreepages := nfreepages s\<rparr> \<and>
     (\<forall>q. paddr (page_infos s q) = paddr (page_infos s0 q)) \<and>
     nfreepages s = of_nat (length L) \<and> l = (if L = [] then 0 else last L) \<and>
     fl_path ((page_infos s)(l := (page_infos s l)\<lparr>ref_next := 0\<rparr>)) (freepages s) L)"

lemma linked_step:
  assumes L: "linked s0 L (l, s)" and d: "distinct (L @ [pi_at (k_pageinfo s0) k])" and nz: "pi_at (k_pageinfo s0) k \<noteq> 0"
  shows "\<exists>x. freepages_step k (l, s) = Some x \<and>
    linked s0 (if K2P (end_kmem s0) \<le> paddr (page_infos s0 (pi_at (k_pageinfo s0) k)) then L @ [pi_at (k_pageinfo s0) k] else L) x"
proof -
  let ?q = "pi_at (k_pageinfo s0) k"
  from L obtain h f n where s: "s = s0\<lparr>page_infos := h, freepages := f, nfreepages := n\<rparr>" unfolding linked_def by blast
  have h: "\<And>q. paddr (h q) = paddr (page_infos s0 q)" "n = of_nat (length L)" "l = (if L = [] then 0 else last L)"
    "fl_path (h(l := (h l)\<lparr>ref_next := 0\<rparr>)) f L"
    using L by (auto simp: linked_def s)
  have kp: "k_pageinfo s = k_pageinfo s0" "end_kmem s = end_kmem s0" by (simp_all add: s)
  show ?thesis
  proof (cases "K2P (end_kmem s0) \<le> paddr (page_infos s0 ?q)")
    case False
    have "fl_path ((h(?q := (h ?q)\<lparr>ref_next := 0\<rparr>))(l := ((h(?q := (h ?q)\<lparr>ref_next := 0\<rparr>)) l)\<lparr>ref_next := 0\<rparr>)) f L"
    proof (cases "L = []")
      case False
      then have "l \<in> set L" using h(3) by simp
      then have "l \<noteq> ?q" using d by auto
      then show ?thesis using fl_path_frame[of ?q L "h(l := (h l)\<lparr>ref_next := 0\<rparr>)"] h(4) d by (simp add: fun_upd_twist)
    qed (use h in simp)
    then show ?thesis using False h by (auto simp: freepages_step_def Let_def s set_ref_next_def linked_def)
  next
    case True
    then show ?thesis
    proof (cases "L = []")
      case True
      then show ?thesis using \<open>K2P (end_kmem s0) \<le> _\<close> h nz
        by (auto simp: freepages_step_def Let_def s linked_def)
    next
      case False
      then obtain xs where xs: "L = xs @ [l]" using h(3) by (metis append_butlast_last_id)
      have ne: "l \<noteq> 0" using h(4) unfolding xs by (induction xs arbitrary: f) auto
      have "l \<noteq> ?q" using d xs by simp
      then have "fl_path (h(l := (h l)\<lparr>ref_next := ?q\<rparr>, ?q := (h ?q)\<lparr>ref_next := 0\<rparr>)) f (xs @ [l, ?q])"
        using fl_path_snoc[of "h(l := (h l)\<lparr>ref_next := 0\<rparr>)" f xs l ?q] h(4) d nz xs by simp
      then show ?thesis using True ne h(1,2) xs \<open>l \<noteq> ?q\<close>
        by (auto simp: freepages_step_def Let_def s set_ref_next_def linked_def)
    qed
  qed
qed

lemma freepages_loop:
  assumes fresh: "freepages s = 0" "nfreepages s = 0" and kp: "0 < unat (k_pageinfo s)" "unat (k_pageinfo s) + 16 * n < 2 ^ 64"
  shows "\<exists>x. for_loop [0..<n] freepages_step (0, s) = Some x \<and> linked s (map (pi_at (k_pageinfo s))
    (filter (\<lambda>k. K2P (end_kmem s) \<le> paddr (page_infos s (pi_at (k_pageinfo s) k))) [0..<n])) x"
proof (rule for_loop_inv[of 0])
  let ?P = "pi_at (k_pageinfo s)" and ?F = "\<lambda>k. K2P (end_kmem s) \<le> paddr (page_infos s (pi_at (k_pageinfo s) k))"
  show "linked s (map ?P (filter ?F [0..<0])) (0, s)" using fresh by (simp add: linked_def)
  fix j x
  assume j: "0 \<le> j" "j < n" and l: "linked s (map ?P (filter ?F [0..<j])) x"
  obtain l u where x: "x = (l, u)" by (cases x)
  have inj: "inj_on ?P {..j}" using pi_at_inj[OF kp(2)] j(2) by (auto simp: inj_on_def)
  have "distinct (map ?P ([k \<leftarrow> [0..<j]. ?F k] @ [j]))"
    unfolding distinct_map by (intro conjI inj_on_subset[OF inj]) auto
  moreover have "?P j \<noteq> 0" using unat_pi_at[OF kp(2), of j] kp(1) j(2) by auto
  ultimately show "\<exists>x'. freepages_step j x = Some x' \<and> linked s (map ?P (filter ?F [0..<Suc j])) x'"
    using linked_step[OF l[unfolded x], of j] unfolding x by (simp split: if_splits)
qed simp

lemma init_freepages_ok:
  fixes s :: "'a kmem_scheme"
  defines "P \<equiv> pi_at (k_pageinfo s)" and "n \<equiv> unat (max_addr s) div 4096"
  defines "L \<equiv> map P (filter (\<lambda>k. K2P (end_kmem s) \<le> paddr (page_infos s (P k))) [0..<n])"
  assumes max: "max_addr s < 2 ^ 47" and kp: "2 ^ 63 \<le> unat (k_pageinfo s)" "unat (k_pageinfo s) + 2 ^ 39 < 2 ^ 64"
    and fresh: "freepages s = 0" "nfreepages s = 0" and e: "0 < K2P (end_kmem s)"
    and infos: "\<And>k. k < n \<Longrightarrow> paddr (page_infos s (P k)) \<in> {0, of_nat k * PGSIZE}" and ne: "L \<noteq> []"
  shows "\<exists>s'. init_freepages s = Some s' \<and> free_list s' L \<and> pmem s' = pmem s \<and> cr3 s' = cr3 s \<and> end_kmem s' = end_kmem s"
proof -
  have n: "16 * n < 2 ^ 39" using max by (simp add: n_def word_less_nat_alt)
  then have kn: "0 < unat (k_pageinfo s)" "unat (k_pageinfo s) + 16 * n < 2 ^ 64" using kp by simp_all
  from freepages_loop[OF fresh kn] obtain l s1 where
    lp: "for_loop [0..<n] freepages_step (0, s) = Some (l, s1)" "linked s L (l, s1)" unfolding L_def P_def by auto
  have "unat (max_addr s div 4096) = n" by (simp add: unat_div n_def)
  then have "PA2PGINFO s (max_addr s) = P n"
    by (auto simp: PA2PGINFO_def P_def drop_bit_eq_div)
  moreover have "unat (P n) = unat (k_pageinfo s) + 16 * n" unfolding P_def by (rule unat_pi_at[OF kn(2)]) simp
  moreover have "0 < n" using ne by (cases n) (simp_all add: L_def)
  ultimately have cnt: "k_pageinfo s < PA2PGINFO s (max_addr s)" "unat (PA2PGINFO s (max_addr s) - k_pageinfo s) div 16 = n"
    using unat_pi_at[of 0 n n] kn(2) by (simp_all add: word_less_nat_alt P_def)
  note lk = lp(2)[unfolded linked_def case_prod_conv]
  have l: "l = last L" using lk ne by auto
  have mem: "unat (P k) = unat (k_pageinfo s) + 16 * k" if "k < n" for k
    unfolding P_def using that by (intro unat_pi_at[OF kn(2)]) simp
  have "l \<in> set L" using l ne by simp
  then obtain k where "k < n" "l = P k" by (auto simp: L_def)
  then have l0: "l \<noteq> 0" using mem[of k] kn(1) by auto
  define s' where "s' = set_ref_next l 0 s1"
  have "init_freepages s = Some s'" using lp(1) cnt l0 by (simp add: init_freepages_def Let_def s'_def)
  moreover from lk obtain h f m where s1: "s1 = s\<lparr>page_infos := h, freepages := f, nfreepages := m\<rparr>" by blast
  moreover have "free_list s' L"
  proof -
    have h: "\<forall>q. paddr (h q) = paddr (page_infos s q)" "m = of_nat (length L)" "fl_path (h(l := (h l)\<lparr>ref_next := 0\<rparr>)) f L"
      using lk ne unfolding s1 by auto
    have k: "k_pageinfo s' = k_pageinfo s" "end_kmem s' = end_kmem s" "max_addr s' = max_addr s" "nfreepages s' = of_nat (length L)"
      "paddr (page_infos s' q) = paddr (page_infos s q)" for q
      using h(1,2) by (simp_all add: s'_def set_ref_next_def s1)
    have "page_ok s' q" if q: "q \<in> set L" for q
    proof -
      from q obtain j where j: "j < n" "q = P j" "K2P (end_kmem s) \<le> paddr (page_infos s (P j))" by (auto simp: L_def)
      then have pa: "paddr (page_infos s q) = of_nat j * PGSIZE" using infos[OF j(1)] e by auto
      have j35: "j < 2 ^ 35" using j(1) n by simp
      have "of_nat j * PGSIZE < max_addr s"
        using j(1) page_number(1)[OF j35] by (simp add: word_less_nat_alt n_def)
      then show ?thesis
        using j pa k page_number(2,3)[OF j35] sint_negative[of q] mem[OF j(1)] kp(1)
        by (simp add: page_ok_def PA2PGINFO_def P_def)
    qed
    moreover have "fl_path (page_infos s') (freepages s') L" using h(3) by (simp add: s'_def set_ref_next_def s1)
    ultimately show ?thesis using max k by (simp add: free_list_def)
  qed
  ultimately show ?thesis by (simp add: s'_def set_ref_next_def)
qed

section \<open>Page descriptors from the memory map\<close>

text \<open>The descriptors of the first \<open>n\<close> pages give the address of the pages in \<open>C\<close>, and 0 for the others.\<close>

definition infos :: "'a kmem_scheme \<Rightarrow> nat \<Rightarrow> (nat \<Rightarrow> bool) \<Rightarrow> bool" where
  "infos s n C \<longleftrightarrow> (\<forall>k < n. page_infos s (pi_at (k_pageinfo s) k) = \<lparr>paddr = (if C k then of_nat k * PGSIZE else 0), ref_next = 0\<rparr>)"

definition only_infos :: "'a kmem_scheme \<Rightarrow> 'a kmem_scheme \<Rightarrow> bool" where
  "only_infos s s' \<longleftrightarrow> s' = s\<lparr>page_infos := page_infos s'\<rparr>"

lemma only_infos_frame:
  assumes "only_infos s s'"
  shows "k_pageinfo s' = k_pageinfo s" "max_addr s' = max_addr s" "end_kmem s' = end_kmem s" "freepages s' = freepages s"
    "nfreepages s' = nfreepages s" "pmem s' = pmem s"
proof -
  obtain h where "s' = s\<lparr>page_infos := h\<rparr>" using assms by (auto simp: only_infos_def)
  then show "k_pageinfo s' = k_pageinfo s" "max_addr s' = max_addr s" "end_kmem s' = end_kmem s" "freepages s' = freepages s"
    "nfreepages s' = nfreepages s" "pmem s' = pmem s" by simp_all
qed

lemma only_infos_trans: "only_infos s s' \<Longrightarrow> only_infos s' s'' \<Longrightarrow> only_infos s s''"
  unfolding only_infos_def by (metis kmem.surjective kmem.update_convs(5))

lemma only_infos_upd: "only_infos s s' \<Longrightarrow> only_infos s (s'\<lparr>page_infos := h\<rparr>)"
proof -
  assume "only_infos s s'"
  then obtain g where "s' = s\<lparr>page_infos := g\<rparr>" by (auto simp: only_infos_def)
  then show ?thesis by (simp add: only_infos_def)
qed

lemma PA2PGINFO_number: "k < 2 ^ 35 \<Longrightarrow> PA2PGINFO s (of_nat k * PGSIZE) = pi_at (k_pageinfo s) k"
  by (simp add: PA2PGINFO_def page_number)

text \<open>The number of pages below an address, the last one counted when it is incomplete.\<close>

definition n_pages :: "u64 \<Rightarrow> nat" where
  "n_pages a = (unat a + 4095) div 4096"

lemma n_pages_bound: "a < 2 ^ 47 \<Longrightarrow> n_pages a \<le> 2 ^ 35"
  by (simp add: n_pages_def word_less_nat_alt)

lemma page_steps_below:
  assumes "lim < 2 ^ 47"
  shows "page_steps beg lim = Some (if beg < lim then (unat lim - unat beg + 4095) div 4096 else 0)"
proof -
  have lim: "unat lim < 2 ^ 47" using assms by (simp add: word_less_nat_alt)
  show ?thesis
  proof (cases "beg < lim")
    case True
    then have "unat beg + (unat lim - unat beg) = unat lim" by (simp add: word_less_nat_alt)
    moreover have "(unat lim - unat beg + 4095) div 4096 * 4096 \<le> unat lim - unat beg + 4095" by (rule div_times_less_eq_dividend)
    ultimately have "unat beg + (unat lim - unat beg + 4095) div 4096 * 4096 \<le> unat lim + 4095" by linarith
    then have "unat beg + (unat lim - unat beg + 4095) div 4096 * 4096 < 2 ^ 64" using lim by simp
    then show ?thesis using True by (simp add: page_steps_def)
  next
    case False
    have "unat beg < 2 ^ 64" using unsigned_less[of beg, where ?'a = nat] by simp
    then show ?thesis using False by (simp add: page_steps_def)
  qed
qed

lemma clear_infos_ok:
  assumes "max_addr s < 2 ^ 47"
  shows "\<exists>s'. clear_infos s = Some s' \<and> only_infos s s' \<and> infos s' (n_pages (max_addr s)) (\<lambda>_. False)"
proof -
  let ?f = "\<lambda>k s. Some (set_ref_next (PA2PGINFO s (of_nat k * PGSIZE)) 0 (set_paddr (PA2PGINFO s (of_nat k * PGSIZE)) 0 s))"
  have n: "page_steps 0 (max_addr s) = Some (n_pages (max_addr s))"
    using page_steps_below[OF assms, of 0] by (simp add: n_pages_def word_gt_0)
  have "\<exists>s'. for_loop [0..<n_pages (max_addr s)] ?f s = Some s' \<and>
      only_infos s s' \<and> infos s' (n_pages (max_addr s)) (\<lambda>_. False)"
  proof (rule for_loop_inv[of 0 _ "\<lambda>j s'. only_infos s s' \<and> infos s' j (\<lambda>_. False)"])
    fix j u
    assume j: "0 \<le> j" "j < n_pages (max_addr s)" and u: "only_infos s u \<and> infos u j (\<lambda>_. False)"
    have "j < 2 ^ 35" using j(2) n_pages_bound[OF assms] by simp
    then show "\<exists>s'. ?f j u = Some s' \<and> only_infos s s' \<and> infos s' (Suc j) (\<lambda>_. False)"
      using u by (auto simp: PA2PGINFO_number set_ref_next_def set_paddr_def infos_def less_Suc_eq only_infos_upd)
  qed (simp_all add: only_infos_def infos_def)
  then show ?thesis unfolding clear_infos_def n by simp
qed

text \<open>The page \<open>k\<close> is conventional memory according to one of the first \<open>j\<close> descriptors of the map.\<close>

definition in_desc :: "mem_map_desc \<Rightarrow> nat \<Rightarrow> bool" where
  "in_desc d k \<longleftrightarrow> md_type d = EFI_CONVENTIONAL_MEMORY \<and> phys_start d \<le> of_nat k * PGSIZE \<and> of_nat k * PGSIZE < desc_end d"

definition conventional :: "mem_map \<Rightarrow> nat \<Rightarrow> nat \<Rightarrow> bool" where
  "conventional mm j k \<longleftrightarrow> (\<exists>i < j. in_desc (mm_list mm i) k)"

lemma set_paddr_infos:
  assumes "infos s n C" and "b < n" and "unat (k_pageinfo s) + 16 * n < 2 ^ 64" and "n \<le> 2 ^ 35"
  shows "infos (set_paddr (PA2PGINFO s (of_nat b * PGSIZE)) (of_nat b * PGSIZE) s) n (\<lambda>k. C k \<or> k = b)"
proof -
  have "PA2PGINFO s (of_nat b * PGSIZE) = pi_at (k_pageinfo s) b" using assms(2,4) by (intro PA2PGINFO_number) simp
  moreover have "pi_at (k_pageinfo s) k = pi_at (k_pageinfo s) b \<longleftrightarrow> k = b" if "k < n" for k
    using pi_at_inj[OF assms(3), of k b] that assms(2) by auto
  ultimately show ?thesis using assms(1,2) by (auto simp: infos_def set_paddr_def)
qed

lemma add_desc_ok:
  assumes C: "infos s n C" and n: "unat (k_pageinfo s) + 16 * n < 2 ^ 64" "n \<le> 2 ^ 35"
    and d: "md_type d = EFI_CONVENTIONAL_MEMORY \<longrightarrow> phys_start d AND PGMASK = 0" "n_pages (desc_end d) \<le> n" "desc_end d < 2 ^ 47"
  shows "\<exists>s'. add_desc d s = Some s' \<and> only_infos s s' \<and> infos s' n (\<lambda>k. C k \<or> in_desc d k)"
proof (cases "md_type d = EFI_CONVENTIONAL_MEMORY \<and> phys_start d < desc_end d")
  case False
  moreover have "\<not> in_desc d k" for k using False by (auto simp: in_desc_def)
  ultimately show ?thesis using C d(1) by (auto simp: add_desc_def page_steps_below[OF d(3)] only_infos_def)
next
  case True
  define b e where "b = unat (phys_start d) div 4096" and "e = unat (desc_end d) div 4096"
  have al: "unat (phys_start d) mod 4096 = 0" using True d(1) unat_and_PGMASK[of "phys_start d"] by simp
  then have beg1: "unat (phys_start d) = b * 4096" using div_mult_mod_eq[of "unat (phys_start d)" 4096] by (simp add: b_def)
  have "of_nat (unat (phys_start d)) = phys_start d" by simp
  then have beg: "unat (phys_start d) = b * 4096" "phys_start d = of_nat b * PGSIZE"
    using beg1 by (simp_all add: PGSIZE_def)
  have "unat (desc_end d) mod 4096 = 0"
  proof -
    have "unat (desc_end d) = (b * 4096 + (unat (num_of_pages d) * 4096) mod 2 ^ 64) mod 2 ^ 64"
      by (simp add: desc_end_def PGSIZE_def unat_word_ariths beg1)
    then have "unat (desc_end d) mod 4096 = (b * 4096 + (unat (num_of_pages d) * 4096) mod 2 ^ 64) mod 4096"
      by (simp only: mod_mod_cancel) (simp add: mod_mod_cancel)
    also have "\<dots> = ((unat (num_of_pages d) * 4096) mod 2 ^ 64) mod 4096" by simp
    also have "\<dots> = 0" by (simp add: mod_mod_cancel)
    finally show ?thesis .
  qed
  then have lim: "unat (desc_end d) = e * 4096" using div_mult_mod_eq[of "unat (desc_end d)" 4096] by (simp add: e_def)
  have be: "b < e" "e \<le> n" using True d(2) by (simp_all add: word_less_nat_alt beg1 lim n_pages_def)
  have st: "page_steps (phys_start d) (desc_end d) = Some (e - b)"
    using True by (simp add: page_steps_below[OF d(3)] beg1 lim diff_mult_distrib[symmetric])
  let ?f = "\<lambda>k s. let a = phys_start d + of_nat k * PGSIZE in Some (set_paddr (PA2PGINFO s a) a s)"
  have "\<exists>s'. for_loop [0..<e - b] ?f s = Some s' \<and> only_infos s s' \<and> infos s' n (\<lambda>k. C k \<or> b \<le> k \<and> k < b + (e - b))"
  proof (rule for_loop_inv[of 0 _ "\<lambda>j s'. only_infos s s' \<and> infos s' n (\<lambda>k. C k \<or> b \<le> k \<and> k < b + j)"])
    fix j u
    assume j: "0 \<le> j" "j < e - b" and u: "only_infos s u \<and> infos u n (\<lambda>k. C k \<or> b \<le> k \<and> k < b + j)"
    have a: "phys_start d + of_nat j * PGSIZE = of_nat (b + j) * PGSIZE" by (simp add: beg(2) algebra_simps)
    have "infos (set_paddr (PA2PGINFO u (of_nat (b + j) * PGSIZE)) (of_nat (b + j) * PGSIZE) u) n
        (\<lambda>k. (C k \<or> b \<le> k \<and> k < b + j) \<or> k = b + j)"
      using u j be n only_infos_frame(1)[of s u] by (intro set_paddr_infos) auto
    moreover have "(\<lambda>k. (C k \<or> b \<le> k \<and> k < b + j) \<or> k = b + j) = (\<lambda>k. C k \<or> b \<le> k \<and> k < b + Suc j)" by auto
    ultimately show "\<exists>s'. ?f j u = Some s' \<and> only_infos s s' \<and> infos s' n (\<lambda>k. C k \<or> b \<le> k \<and> k < b + Suc j)"
      using u unfolding a Let_def by (auto simp: set_paddr_def only_infos_upd)
  qed (use C in \<open>auto simp: only_infos_def infos_def\<close>)
  moreover have "in_desc d k \<longleftrightarrow> b \<le> k \<and> k < b + (e - b)" if "k < n" for k
    using page_number(1)[of k] that n(2) True be(1) by (auto simp: in_desc_def word_le_nat_alt word_less_nat_alt beg1 lim)
  ultimately show ?thesis using True unfolding add_desc_def st by (auto simp: infos_def)
qed

lemma fold_max:
  fixes f :: "nat \<Rightarrow> u64"
  shows "fold (\<lambda>i a. max a (f i)) [0..<n] a0 \<ge> a0 \<and> (\<forall>i < n. f i \<le> fold (\<lambda>i a. max a (f i)) [0..<n] a0)"
  by (induction n) (auto simp: less_Suc_eq le_max_iff_disj)

lemma n_pages_mono: "a \<le> c \<Longrightarrow> n_pages a \<le> n_pages c"
  by (simp add: n_pages_def word_le_nat_alt div_le_mono)

lemma init_kpageinfo_ok:
  fixes mm :: mem_map and s :: "'a kmem_scheme"
  defines "mx \<equiv> fold (\<lambda>i a. max a (desc_end (mm_list mm i))) [0..<n_desc mm] 0"
  assumes ds: "(ucast (desc_size mm) :: u32) \<noteq> 0" and mx: "mx < 2 ^ 47" and kp: "unat (end_kmem s) + 2 ^ 39 < 2 ^ 64"
    and al: "\<forall>i < n_desc mm. md_type (mm_list mm i) = EFI_CONVENTIONAL_MEMORY \<longrightarrow> phys_start (mm_list mm i) AND PGMASK = 0"
  shows "\<exists>s'. init_kpageinfo mm s = Some s' \<and> k_pageinfo s' = end_kmem s \<and> max_addr s' = mx \<and>
    end_kmem s' = end_kmem s + 16 * drop_bit 12 mx \<and> freepages s' = freepages s \<and> nfreepages s' = nfreepages s \<and> infos s' (n_pages mx) (conventional mm (n_desc mm))"
proof -
  let ?s = "s\<lparr>k_pageinfo := end_kmem s, max_addr := mx\<rparr>"
  have n: "n_pages mx \<le> 2 ^ 35" "unat (end_kmem s) + 16 * n_pages mx < 2 ^ 64" using n_pages_bound[OF mx] kp by simp_all
  from clear_infos_ok[of ?s] mx obtain s1 where s1: "clear_infos ?s = Some s1" "only_infos ?s s1" "infos s1 (n_pages mx) (\<lambda>_. False)"
    by auto
  have "\<exists>s'. for_loop [0..<n_desc mm] (\<lambda>i. add_desc (mm_list mm i)) s1 = Some s' \<and>
      only_infos s1 s' \<and> infos s' (n_pages mx) (conventional mm (n_desc mm))"
  proof (rule for_loop_inv[of 0 _ "\<lambda>j s'. only_infos s1 s' \<and> infos s' (n_pages mx) (conventional mm j)"])
    fix j u
    assume j: "0 \<le> j" "j < n_desc mm" and u: "only_infos s1 u \<and> infos u (n_pages mx) (conventional mm j)"
    have le: "desc_end (mm_list mm j) \<le> mx" using fold_max[of 0 "\<lambda>i. desc_end (mm_list mm i)" "n_desc mm"] j(2) by (simp add: mx_def)
    have "\<exists>s'. add_desc (mm_list mm j) u = Some s' \<and> only_infos u s' \<and> infos s' (n_pages mx) (\<lambda>k. conventional mm j k \<or> in_desc (mm_list mm j) k)"
      using u n al j(2) n_pages_mono[OF le] le mx only_infos_frame(1)[of s1 u] only_infos_frame(1)[OF s1(2)]
      by (intro add_desc_ok) auto
    moreover have "(\<lambda>k. conventional mm j k \<or> in_desc (mm_list mm j) k) = conventional mm (Suc j)"
      by (auto simp: fun_eq_iff conventional_def less_Suc_eq)
    ultimately show "\<exists>s'. add_desc (mm_list mm j) u = Some s' \<and> only_infos s1 s' \<and> infos s' (n_pages mx) (conventional mm (Suc j))"
      using u only_infos_trans by metis
  qed (use s1(3) in \<open>auto simp: only_infos_def conventional_def[abs_def]\<close>)
  then obtain s2 where s2: "for_loop [0..<n_desc mm] (\<lambda>i. add_desc (mm_list mm i)) s1 = Some s2" "only_infos s1 s2"
    "infos s2 (n_pages mx) (conventional mm (n_desc mm))" by blast
  have "init_kpageinfo mm s = Some (s2\<lparr>end_kmem := PA2PGINFO s2 (max_addr s2)\<rparr>)"
    using ds s1(1) s2(1) by (simp add: init_kpageinfo_def Let_def mx_def)
  then show ?thesis
    using only_infos_frame[OF only_infos_trans[OF s1(2) s2(2)]] s2(3) by (simp add: infos_def PA2PGINFO_def)
qed

end
