(* ===== verification/KMap.thy ===== *)
theory KMap
  imports MemProp
begin

text \<open>
  The kernel's page table.  \<^verbatim>\<open>init_kpgtbl\<close> lays out 515 pages behind the kernel: the top level, one
  page of the second level for each of its entries, and two tables for the stack.  They are seen
  here as one array of 64-bit cells.
\<close>

section \<open>Addresses of the tables\<close>

lemma unat_K2P: "unat (K2P x) = unat x mod 2 ^ 47"
  by (simp add: K2P_def MASK_eq take_bit_eq_mask[symmetric] take_bit_eq_mod unat_mod)

lemma K2P_add:
  assumes "unat (K2P x) + unat y < 2 ^ 47"
  shows "K2P (x + y) = K2P x + y"
proof -
  have "unat (K2P (x + y)) = (unat x + unat y) mod 2 ^ 47"
    by (simp add: unat_K2P unat_word_ariths mod_mod_cancel)
  also have "\<dots> = (unat (K2P x) + unat y) mod 2 ^ 47" by (simp add: unat_K2P mod_simps)
  also have "\<dots> = unat (K2P x + y)" using assms by (simp add: unat_word_ariths)
  finally show ?thesis by (simp add: word_unat_eq_iff)
qed

lemma ROUNDUP_page:
  assumes "unat x + 4095 < 2 ^ 64"
  shows "unat (ROUNDUP x PGSIZE) = (unat x + 4095) div 4096 * 4096"
proof -
  have "unat (x + 4095) = unat x + 4095" using assms by (simp add: unat_word_ariths)
  then have "unat (4095 + x) = unat x + 4095" by (subst add.commute)
  moreover define q where "q = (x + PGSIZE - 1) div PGSIZE"
  ultimately have u: "unat q = (unat x + 4095) div 4096" by (simp add: PGSIZE_def unat_div)
  have "(unat x + 4095) div 4096 * 4096 < 2 ^ 64" by (rule order_le_less_trans[OF div_times_less_eq_dividend assms])
  then have "unat (q * PGSIZE) = (unat x + 4095) div 4096 * 4096" by (simp add: unat_word_ariths u PGSIZE_def)
  then show ?thesis by (simp add: ROUNDUP_def q_def)
qed

lemma slot_slot: "slot (slot t i) j = slot t (i + j)"
  by (simp add: slot_def algebra_simps)

lemma unat_slot:
  assumes "unat t + 8 * n < 2 ^ 64" and "i \<le> n"
  shows "unat (slot t i) = unat t + 8 * i"
proof -
  have "(8 * of_nat i :: u64) = of_nat (8 * i)" by simp
  moreover have "unat (of_nat (8 * i) :: u64) = 8 * i" using assms by (intro unat_u64) simp
  ultimately show ?thesis using assms by (simp add: slot_def unat_word_ariths)
qed

lemma ROUNDUP_slot:
  assumes "unat t mod 4096 = 0" and "unat t + 4096 * k + 4095 < 2 ^ 64"
  shows "ROUNDUP (slot t (512 * k)) PGSIZE = slot t (512 * k)"
proof -
  have u: "unat (slot t (512 * k)) = unat t + 4096 * k" using unat_slot[of t "512 * k" "512 * k"] assms(2) by simp
  from assms(1) obtain a where a: "unat t = 4096 * a" by (auto simp flip: dvd_eq_mod_eq_0)
  have "(4096 * a + 4096 * k + 4095) div 4096 = a + k" by (rule div_nat_eqI) auto
  then have "unat (ROUNDUP (slot t (512 * k)) PGSIZE) = unat t + 4096 * k"
    using assms(2) by (subst ROUNDUP_page) (simp_all add: u a)
  then show ?thesis by (simp add: word_unat_eq_iff u)
qed

section \<open>The tables as an array\<close>

definition n_cells :: nat where "n_cells = 515 * 512"

text \<open>A place for the tables: a virtual address \<open>t\<close> of a page with 515 pages behind it in physical memory.\<close>

definition room :: "u64 \<Rightarrow> bool" where
  "room t \<longleftrightarrow> unat t mod 4096 = 0 \<and> unat (K2P t) + 8 * n_cells < 2 ^ 47 \<and> unat t + 8 * n_cells + 4095 < 2 ^ 64"

abbreviation arr :: "bytes \<Rightarrow> u64 \<Rightarrow> nat \<Rightarrow> u64" where
  "arr m t j \<equiv> load64 m (slot (K2P t) j)"

lemma K2P_cell: "room t \<Longrightarrow> j \<le> n_cells \<Longrightarrow> K2P (slot t j) = slot (K2P t) j"
proof -
  assume a: "room t" "j \<le> n_cells"
  have w: "(8 * of_nat j :: u64) = of_nat (8 * j)" by simp
  have "unat (of_nat (8 * j) :: u64) = 8 * j" using a by (intro unat_u64) (simp add: n_cells_def)
  then show "K2P (slot t j) = slot (K2P t) j" using a unfolding slot_def w by (intro K2P_add) (simp add: room_def)
qed

lemma unat_cell: "room t \<Longrightarrow> j \<le> n_cells \<Longrightarrow> unat (slot (K2P t) j) = unat (K2P t) + 8 * j"
  by (rule unat_slot[of _ n_cells]) (simp_all add: room_def)

lemma cell_inj: "room t \<Longrightarrow> i < n_cells \<Longrightarrow> j < n_cells \<Longrightarrow> slot (K2P t) i = slot (K2P t) j \<longleftrightarrow> i = j"
proof
  assume a: "room t" "i < n_cells" "j < n_cells" and e: "slot (K2P t) i = slot (K2P t) j"
  have "unat (K2P t) + 8 * i = unat (K2P t) + 8 * j"
    using unat_cell[OF a(1), of i] unat_cell[OF a(1), of j] a(2,3) unfolding e by linarith
  then show "i = j" by simp
qed simp

lemma K2P_mod: "unat (K2P t) mod 4096 = unat t mod 4096"
  by (simp add: unat_K2P mod_mod_cancel)

lemma aligned_cell: "room t \<Longrightarrow> j < n_cells \<Longrightarrow> aligned8 (slot (K2P t) j)"
proof -
  assume a: "room t" "j < n_cells"
  then obtain c where c: "unat (K2P t) = 4096 * c" using K2P_mod[of t] by (auto simp: room_def simp flip: dvd_eq_mod_eq_0)
  have "(7 :: u64) = mask 3" by (simp add: mask_eq_exp_minus_1)
  then have "unat (slot (K2P t) j AND 7) = unat (slot (K2P t) j) mod 8"
    by (simp only: take_bit_eq_mask[symmetric] take_bit_eq_mod unat_mod) simp
  also have "\<dots> = (8 * (512 * c + j)) mod 8" using unat_cell[OF a(1), of j] a(2) c by simp
  also have "\<dots> = 0" by (rule mod_mult_self1_is_0)
  finally show "aligned8 (slot (K2P t) j)" by (simp add: aligned8_def word_unat_eq_iff)
qed

lemma arr_store:
  assumes "room t" and "i < n_cells" and "j < n_cells"
  shows "arr (pmem (kstore64 (slot t i) v s)) t j = (if i = j then v else arr (pmem s) t j)"
  using assms by (simp add: kstore64_def K2P_cell mem64.load_store aligned_cell cell_inj)

text \<open>The index of an address in the second level taken as one array of gigabyte entries.\<close>

definition giga :: "u64 \<Rightarrow> nat" where
  "giga va = unat (PML4_INDEX va) * 512 + unat (PDPT_INDEX va)"

lemma unat_and_511: "unat (x AND 511 :: u64) = unat x mod 512"
proof -
  have "(511 :: u64) = mask 9" by (simp add: mask_eq_exp_minus_1)
  then show ?thesis by (simp only: take_bit_eq_mask[symmetric] take_bit_eq_mod unat_mod) simp
qed

lemma giga_eq: "giga va = unat va div 2 ^ 30 mod 2 ^ 18"
proof -
  let ?y = "unat va div 2 ^ 30"
  have "giga va = ?y div 512 mod 512 * 512 + ?y mod 512"
    by (simp add: giga_def PML4_INDEX_def PDPT_INDEX_def PML4_OFFSET_def PDPT_OFFSET_def unat_and_511 drop_bit_eq_div unat_div
        div_mult2_eq[symmetric])
  also have "\<dots> = ?y mod (512 * 512)" using mod_mult2_eq[of ?y 512 512] by linarith
  finally show ?thesis by simp
qed

lemma giga_less: "giga va < 2 ^ 18"
  unfolding giga_eq by (rule mod_less_divisor) simp

lemma giga_low: "k < 2 ^ 17 \<Longrightarrow> giga (of_nat k * 0x40000000) = k"
proof -
  assume k: "k < 2 ^ 17"
  have "(of_nat k * 0x40000000 :: u64) = of_nat (k * 2 ^ 30)" by simp
  then have "unat (of_nat k * 0x40000000 :: u64) = k * 2 ^ 30" using k by (simp only:) (rule unat_u64, simp)
  then have "giga (of_nat k * 0x40000000) = k mod 2 ^ 18" unfolding giga_eq by simp
  then show "giga (of_nat k * 0x40000000) = k" using k by simp
qed

lemma giga_high: "a < 2 ^ 47 \<Longrightarrow> giga (KERNBASE OR a) = 2 ^ 17 + giga a"
proof -
  assume a: "a < 2 ^ 47"
  have k: "KERNBASE AND mask 47 = 0" by (simp add: KERNBASE_def mask_eq_exp_minus_1)
  have "KERNBASE OR a = KERNBASE + a" using aligned_plus_eq_or[OF k a] by simp
  moreover have "unat (KERNBASE + a) = (2 ^ 34 - 2 ^ 17) * 2 ^ 30 + unat a"
    using a by (simp add: KERNBASE_def unat_word_ariths word_less_nat_alt)
  ultimately have u: "unat (KERNBASE OR a) = (2 ^ 34 - 2 ^ 17) * 2 ^ 30 + unat a" by simp
  have y: "unat a div 2 ^ 30 < 2 ^ 17" using a by (simp add: word_less_nat_alt less_mult_imp_div_less)
  have "giga (KERNBASE OR a) = ((2 ^ 34 - 2 ^ 17) + unat a div 2 ^ 30) mod 2 ^ 18"
    unfolding giga_eq u by (subst div_mult_self3) simp_all
  also have "(2 ^ 34 - 2 ^ 17) + unat a div 2 ^ 30 = 65535 * 2 ^ 18 + (2 ^ 17 + unat a div 2 ^ 30)" by simp
  also have "\<dots> mod 2 ^ 18 = (2 ^ 17 + unat a div 2 ^ 30) mod 2 ^ 18" by (rule mod_mult_self3)
  also have "\<dots> = 2 ^ 17 + unat a div 2 ^ 30" using y by (intro mod_less) simp
  also have "unat a div 2 ^ 30 = giga a" unfolding giga_eq using y by simp
  finally show "giga (KERNBASE OR a) = 2 ^ 17 + giga a" .
qed

section \<open>Filling the tables\<close>

definition only_pmem :: "'a kmem_scheme \<Rightarrow> 'a kmem_scheme \<Rightarrow> bool" where
  "only_pmem s s' \<longleftrightarrow> s' = s\<lparr>pmem := pmem s'\<rparr>"

lemma only_pmemE:
  assumes "only_pmem s s'"
  obtains m where "s' = s\<lparr>pmem := m\<rparr>"
  using assms that unfolding only_pmem_def by blast

lemma only_pmem_refl: "only_pmem s s"
  by (simp add: only_pmem_def)

lemma only_pmem_store: "only_pmem s s' \<Longrightarrow> only_pmem s (kstore64 p v s')"
  by (erule only_pmemE) (simp add: only_pmem_def kstore64_def)

lemma only_pmem_frame:
  assumes "only_pmem s s'"
  shows "k_pgtbl s' = k_pgtbl s" "k_pdpt s' = k_pdpt s" "max_addr s' = max_addr s"
  using assms by (auto elim!: only_pmemE)

lemma pml4_loop:
  assumes t: "room t" and k: "k_pgtbl s = t" "k_pdpt s = slot t 512"
  shows "\<exists>s'. for_loop [0..<n_pml4] (\<lambda>i s.
       Some (kstore64 (slot (k_pgtbl s) i) (K2P (slot (k_pdpt s) (n_pdpt_perpage * i)) OR PTE_P OR PTE_W) s)) s = Some s' \<and>
    only_pmem s s' \<and> (\<forall>j < n_cells. arr (pmem s') t j =
      (if j < n_pml4 then slot (K2P t) (512 + 512 * j) OR PTE_P OR PTE_W else arr (pmem s) t j))"
proof (rule for_loop_inv[of 0 _ "\<lambda>i s'. only_pmem s s' \<and> (\<forall>j < n_cells. arr (pmem s') t j =
      (if j < i then slot (K2P t) (512 + 512 * j) OR PTE_P OR PTE_W else arr (pmem s) t j))"])
  fix i u
  assume i: "0 \<le> i" "i < n_pml4" and u: "only_pmem s u \<and> (\<forall>j < n_cells. arr (pmem u) t j =
      (if j < i then slot (K2P t) (512 + 512 * j) OR PTE_P OR PTE_W else arr (pmem s) t j))"
  have ic: "i < n_cells" "512 + 512 * i \<le> n_cells" using i(2) by (simp_all add: n_cells_def n_pml4_def)
  have v: "K2P (slot (k_pdpt u) (n_pdpt_perpage * i)) = slot (K2P t) (512 + 512 * i)"
    using only_pmem_frame[of s u] u k K2P_cell[OF t ic(2)] by (simp add: slot_slot n_pdpt_perpage_def)
  let ?u = "kstore64 (slot (k_pgtbl u) i) (K2P (slot (k_pdpt u) (n_pdpt_perpage * i)) OR PTE_P OR PTE_W) u"
  have "\<forall>j < n_cells. arr (pmem ?u) t j = (if j < Suc i then slot (K2P t) (512 + 512 * j) OR PTE_P OR PTE_W else arr (pmem s) t j)"
    using u only_pmem_frame[of s u] k arr_store[OF t ic(1), of _ _ u] unfolding v by (auto simp: less_Suc_eq)
  then show "\<exists>s'. Some ?u = Some s' \<and> only_pmem s s' \<and> (\<forall>j < n_cells. arr (pmem s') t j =
      (if j < Suc i then slot (K2P t) (512 + 512 * j) OR PTE_P OR PTE_W else arr (pmem s) t j))"
    using u only_pmem_store by blast
qed (simp_all add: only_pmem_refl)

definition giga_entry :: "nat \<Rightarrow> u64" where
  "giga_entry k = of_nat k * 0x40000000 OR PTE_P OR PDPTE_PS OR PTE_W"

lemma reg_kpgtbl_arr:
  assumes t: "room t" and k: "k_pdpt s = slot t 512" and j: "j < n_cells"
  shows "arr (pmem (reg_kpgtbl_1Gpage va pa s)) t j = (if j = 512 + giga va then pa OR PTE_P OR PDPTE_PS OR PTE_W else arr (pmem s) t j)"
proof -
  have g: "512 + giga va < n_cells" using giga_less[of va] by (simp add: n_cells_def)
  show ?thesis
    using arr_store[OF t g j, of _ s] k
    by (simp add: reg_kpgtbl_1Gpage_def Let_def giga_def[symmetric] slot_slot n_pdpt_perpage_def)
qed

lemma reg_only_pmem: "only_pmem s s' \<Longrightarrow> only_pmem s (reg_kpgtbl_1Gpage va pa s')"
  by (simp add: reg_kpgtbl_1Gpage_def Let_def only_pmem_store)

lemma direct_map_ok:
  assumes t: "room t" and k: "k_pdpt s = slot t 512" and n: "n \<le> 2 ^ 17"
  shows "\<exists>s'. direct_map n s = Some s' \<and> only_pmem s s' \<and>
    (\<forall>j < 512. arr (pmem s') t j = arr (pmem s) t j) \<and>
    (\<forall>i < n. arr (pmem s') t (512 + i) = giga_entry i \<and> arr (pmem s') t (512 + (2 ^ 17 + i)) = giga_entry i)"
  unfolding direct_map_def
proof (rule for_loop_inv[of 0 _ "\<lambda>n s'. only_pmem s s' \<and> (\<forall>j < 512. arr (pmem s') t j = arr (pmem s) t j) \<and>
    (\<forall>i < n. arr (pmem s') t (512 + i) = giga_entry i \<and> arr (pmem s') t (512 + (2 ^ 17 + i)) = giga_entry i)"])
  let ?P = "\<lambda>n s'. only_pmem s s' \<and> (\<forall>j < 512. arr (pmem s') t j = arr (pmem s) t j) \<and>
    (\<forall>i < n. arr (pmem s') t (512 + i) = giga_entry i \<and> arr (pmem s') t (512 + (2 ^ 17 + i)) = giga_entry i)"
  fix i u
  assume i: "0 \<le> i" "i < n" and u: "?P i u"
  have i17: "i < 2 ^ 17" using i n by simp
  let ?a = "of_nat i * 0x40000000 :: u64"
  have a47: "?a < 2 ^ 47"
  proof -
    have "?a = of_nat (i * 2 ^ 30)" by simp
    moreover have "unat (of_nat (i * 2 ^ 30) :: u64) = i * 2 ^ 30" using i17 by (intro unat_u64) simp
    ultimately show ?thesis using i17 by (simp add: word_less_nat_alt)
  qed
  let ?u = "reg_kpgtbl_1Gpage (KERNBASE OR ?a) ?a (reg_kpgtbl_1Gpage ?a ?a u)"
  have ku: "k_pdpt u = slot t 512" "k_pdpt (reg_kpgtbl_1Gpage ?a ?a u) = slot t 512"
    using only_pmem_frame(2)[of s u] only_pmem_frame(2)[OF reg_only_pmem, of s u] u k by auto
  have st: "arr (pmem ?u) t j = (if j = 512 + (2 ^ 17 + i) \<or> j = 512 + i then giga_entry i else arr (pmem u) t j)"
    if "j < n_cells" for j
    using reg_kpgtbl_arr[OF t ku(1) that, of ?a ?a] reg_kpgtbl_arr[OF t ku(2) that, of "KERNBASE OR ?a" ?a]
    unfolding giga_high[OF a47] giga_low[OF i17] giga_entry_def by presburger
  have "arr (pmem ?u) t (512 + j) = giga_entry j \<and> arr (pmem ?u) t (512 + (2 ^ 17 + j)) = giga_entry j" if "j < Suc i" for j
  proof -
    have "512 + j < n_cells" "512 + (2 ^ 17 + j) < n_cells" using that i17 by (simp_all add: n_cells_def)
    note s = st[OF this(1)] st[OF this(2)]
    show ?thesis
    proof (cases "j = i")
      case False
      then have "j < i" "512 + j \<noteq> 512 + (2 ^ 17 + i)" "512 + (2 ^ 17 + j) \<noteq> 512 + i" using that i17 by auto
      then show ?thesis using s u False by simp
    qed (use s in simp)
  qed
  moreover have "arr (pmem ?u) t j = arr (pmem s) t j" if "j < 512" for j
    using st[of j] u that by (simp add: n_cells_def)
  ultimately have "?P (Suc i) ?u" using u by (auto intro: reg_only_pmem)
  then show "\<exists>s'. (let addr = of_nat i * 0x40000000 in Some (reg_kpgtbl_1Gpage (KERNBASE OR addr) addr (reg_kpgtbl_1Gpage addr addr u))) = Some s' \<and> ?P (Suc i) s'"
    unfolding Let_def by blast
qed (simp_all add: only_pmem_refl)

definition n_giga :: "u64 \<Rightarrow> nat" where
  "n_giga a = (unat a + (2 ^ 30 - 1)) div 2 ^ 30"

text \<open>What the tables at \<open>t\<close> hold: both maps of the first \<open>n\<close> gigabytes and the path to the stack page.\<close>

definition mapped :: "bytes \<Rightarrow> u64 \<Rightarrow> nat \<Rightarrow> u64 \<Rightarrow> bool" where
  "mapped m t n kstack \<longleftrightarrow>
     (\<forall>j < 512. arr m t j = slot (K2P t) (512 + 512 * j) OR PTE_P OR PTE_W) \<and>
     (\<forall>i < n. arr m t (512 + i) = giga_entry i \<and> arr m t (512 + (2 ^ 17 + i)) = giga_entry i) \<and>
     arr m t (512 + (2 ^ 18 - 1)) = slot (K2P t) (512 * 513) OR PTE_P OR PTE_W \<and>
     arr m t (512 * 513 + 511) = slot (K2P t) (512 * 514) OR PTE_P OR PTE_W \<and>
     arr m t (512 * 514 + 510) = K2P kstack OR PTE_P OR PTE_W"

lemma stack_stores:
  assumes t: "room t" and n: "n < 2 ^ 17" and m: "s' = kstore64 (slot t (512 * 514 + 510)) z
      (kstore64 (slot t (512 * 513 + 511)) y (kstore64 (slot t (512 + (2 ^ 18 - 1))) x s))"
    and j: "j < n_cells"
  shows "arr (pmem s') t j = (if j = 512 * 514 + 510 then z else if j = 512 * 513 + 511 then y
      else if j = 512 + (2 ^ 18 - 1) then x else arr (pmem s) t j)"
proof -
  have c: "512 * 514 + 510 < n_cells" "512 * 513 + 511 < n_cells" "512 + (2 ^ 18 - 1) < n_cells" by (simp_all add: n_cells_def)
  show ?thesis
    unfolding m arr_store[OF t c(1) j] arr_store[OF t c(2) j] arr_store[OF t c(3) j] by presburger
qed

lemma init_kpgtbl_ok:
  fixes s :: "'a kmem_scheme"
  defines "t \<equiv> ROUNDUP (end_kmem s) PGSIZE"
  assumes t: "room t" and mx: "max_addr s \<le> 2 ^ 47 - 2 ^ 30"
  shows "\<exists>s'. init_kpgtbl kstack cr0 cr4 s = Some (unprotect cr0 cr4, s') \<and>
    s' = s\<lparr>pmem := pmem s', k_pgtbl := t, k_pdpt := slot t 512, cr3 := K2P t, end_kmem := slot t n_cells\<rparr> \<and>
    mapped (pmem s') t (n_giga (max_addr s)) kstack"
proof -
  have al: "unat t mod 4096 = 0" "unat t + 4096 * 515 + 4095 < 2 ^ 64" using t by (simp_all add: room_def n_cells_def)
  have pd: "ROUNDUP (slot t n_pml4) PGSIZE = slot t 512"
    using ROUNDUP_slot[OF al(1), of 1] al(2) by (simp add: n_pml4_def)
  have sp: "ROUNDUP (slot (slot t 512) n_pdpt) PGSIZE = slot t (512 * 513)"
    using ROUNDUP_slot[OF al(1), of 513] al(2) by (simp add: slot_slot n_pdpt_def n_pml4_def n_pdpt_perpage_def)
  have n: "n_giga (max_addr s) < 2 ^ 17" "\<not> max_addr s > - 0x40000000"
    using mx by (auto simp: n_giga_def word_le_nat_alt word_less_nat_alt)
  define s1 where "s1 = s\<lparr>k_pgtbl := t, k_pdpt := slot t 512,
    pmem := memset (pmem s) (K2P t) 0 (ucast (slot (slot (slot t (512 * 513)) 512) 512 - t))\<rparr>"
  from pml4_loop[OF t, of s1] obtain s2 where s2: "for_loop [0..<n_pml4] (\<lambda>i s. Some (kstore64 (slot (k_pgtbl s) i)
      (K2P (slot (k_pdpt s) (n_pdpt_perpage * i)) OR PTE_P OR PTE_W) s)) s1 = Some s2" "only_pmem s1 s2"
    "\<forall>j < n_cells. arr (pmem s2) t j = (if j < n_pml4 then slot (K2P t) (512 + 512 * j) OR PTE_P OR PTE_W else arr (pmem s1) t j)"
    by (auto simp: s1_def)
  from direct_map_ok[OF t, of s2 "n_giga (max_addr s)"] n(1) only_pmem_frame[OF s2(2)] obtain s3 where
    s3: "direct_map (n_giga (max_addr s)) s2 = Some s3" "only_pmem s2 s3" "\<forall>j < 512. arr (pmem s3) t j = arr (pmem s2) t j"
    "\<forall>i < n_giga (max_addr s). arr (pmem s3) t (512 + i) = giga_entry i \<and> arr (pmem s3) t (512 + (2 ^ 17 + i)) = giga_entry i"
    by (auto simp: s1_def)
  from s2(2) s3(2) obtain m3 where m3: "s3 = s1\<lparr>pmem := m3\<rparr>" by (auto elim!: only_pmemE)
  have k3: "k_pdpt s3 = slot t 512" "k_pgtbl s3 = t" "k_pgtbl s1 = t" "k_pdpt s1 = slot t 512" "max_addr s2 = max_addr s"
    using only_pmem_frame[OF s2(2)] by (simp_all add: m3 s1_def)
  have c: "K2P (slot t (512 * 513)) = slot (K2P t) (512 * 513)" "K2P (slot t (512 * 514)) = slot (K2P t) (512 * 514)"
    by (rule K2P_cell[OF t], simp add: n_cells_def)+
  define s4 where "s4 = kstore64 (slot t (512 * 514 + 510)) (K2P kstack OR PTE_P OR PTE_W)
      (kstore64 (slot t (512 * 513 + 511)) (slot (K2P t) (512 * 514) OR PTE_P OR PTE_W)
        (kstore64 (slot t (512 + (2 ^ 18 - 1))) (slot (K2P t) (512 * 513) OR PTE_P OR PTE_W) s3))"
  note st = stack_stores[OF t n(1) s4_def]
  have lo: "arr (pmem s4) t j = arr (pmem s3) t j" if "j < 512 + (2 ^ 18 - 1)" for j
    using st[of j] that by (simp add: n_cells_def)
  have "arr (pmem s4) t j = slot (K2P t) (512 + 512 * j) OR PTE_P OR PTE_W" if "j < 512" for j
    using lo[of j] s2(3) s3(3) that by (simp add: n_cells_def n_pml4_def)
  moreover have "arr (pmem s4) t (512 + i) = giga_entry i \<and> arr (pmem s4) t (512 + (2 ^ 17 + i)) = giga_entry i"
    if "i < n_giga (max_addr s)" for i
  proof -
    have "512 + i < 512 + (2 ^ 18 - 1)" "512 + (2 ^ 17 + i) < 512 + (2 ^ 18 - 1)" using that n(1) by simp_all
    then show ?thesis using s3(4) that lo by metis
  qed
  ultimately have "mapped (pmem s4) t (n_giga (max_addr s)) kstack"
    using st[of "512 * 514 + 510"] st[of "512 * 513 + 511"] st[of "512 + (2 ^ 18 - 1)"] by (simp add: mapped_def n_cells_def)
  moreover have "init_kpgtbl kstack cr0 cr4 s = Some (unprotect cr0 cr4, s4\<lparr>cr3 := K2P t, end_kmem := slot t n_cells\<rparr>)"
  proof -
    have e: "slot (slot t 262656) 512 = slot t 263168" "slot (slot t 263168) 512 = slot t n_cells"
      "slot (slot t 512) (n_pdpt - Suc 0) = slot t 262655" "slot (slot t 262656) 511 = slot t 263167"
      "slot (slot t 263168) 510 = slot t 263678"
      by (simp_all add: slot_slot n_pdpt_def n_pml4_def n_pdpt_perpage_def n_cells_def)
    have ks: "k_pgtbl (kstore64 p v u) = k_pgtbl u" for p v and u :: "'a kmem_scheme" by (simp add: kstore64_def)
    show ?thesis
      unfolding init_kpgtbl_def Let_def t_def[symmetric] kmem.simps
      using s2(1) s3(1) n(2) k3(1,2,5) c by (simp add: pd sp e ks s1_def s4_def n_giga_def split: prod.splits)
  qed
  moreover have "s4\<lparr>cr3 := K2P t, end_kmem := slot t n_cells\<rparr> = s\<lparr>pmem := pmem s4, k_pgtbl := t, k_pdpt := slot t 512, cr3 := K2P t, end_kmem := slot t n_cells\<rparr>"
    by (simp add: s4_def kstore64_def m3 s1_def)
  ultimately show ?thesis by (intro exI[of _ "s4\<lparr>cr3 := K2P t, end_kmem := slot t n_cells\<rparr>"]) simp
qed

section \<open>Translation through the tables\<close>

lemma is_page_unat: "is_page x \<longleftrightarrow> unat x mod 4096 = 0 \<and> unat x < 2 ^ 47"
proof -
  have "unat (x AND mask 12) = unat x mod 4096" using unat_and_PGMASK[of x] by (simp add: PGMASK_eq)
  then show ?thesis by (simp add: is_page_def word_less_nat_alt word_unat_eq_iff)
qed

lemma is_page_table: "room t \<Longrightarrow> 512 * k < n_cells \<Longrightarrow> is_page (slot (K2P t) (512 * k))"
proof -
  assume a: "room t" "512 * k < n_cells"
  have "unat (slot (K2P t) (512 * k)) = unat (K2P t) + 4096 * k" using unat_cell[OF a(1), of "512 * k"] a(2) by simp
  then show ?thesis using a K2P_mod[of t] unfolding is_page_unat by (simp add: room_def)
qed

lemma page_entry:
  assumes "is_page p"
  shows "p AND PHYS_MASK = p" "(p OR PTE_P OR PTE_W) AND PHYS_MASK = p" "(p OR PTE_P OR PTE_W) AND PTE_P \<noteq> 0" "(p OR PTE_P OR PTE_W) AND PDPTE_PS = 0"
proof -
  have lo: "\<not> bit p i" if "i < 12" for i using assms that by (auto simp: is_page_def word_and_mask_eq_0_iff)
  have hi: "\<not> bit p i" if "47 \<le> i" for i using assms that word_less_exp_iff_bits[of 47 p] by (auto simp: is_page_def)
  have m: "PHYS_MASK = mask 52 AND NOT (mask 12)" by (simp add: PHYS_MASK_def mask_eq_exp_minus_1)
  have f: "PTE_P OR PTE_W = (mask 2 :: u64)" by (simp add: PTE_P_def PTE_W_def mask_eq_exp_minus_1)
  have mid: "12 \<le> i \<and> i < 47" if "bit p i" for i using lo hi that by (meson not_le)
  show "p AND PHYS_MASK = p" unfolding m by (rule u64_eqI) (use mid in \<open>fastforce simp: bit_simps\<close>)
  show "(p OR PTE_P OR PTE_W) AND PHYS_MASK = p" unfolding m f by (rule u64_eqI) (use mid in \<open>fastforce simp: bit_simps\<close>)
  show "(p OR PTE_P OR PTE_W) AND PTE_P \<noteq> 0" "(p OR PTE_P OR PTE_W) AND PDPTE_PS = 0"
    using lo[of 7] unfolding f PTE_P_iff PDPTE_PS_iff by (simp_all add: bit_simps)
qed

lemma giga_entry_bits:
  assumes "k < 2 ^ 17"
  shows "giga_entry k AND PTE_P \<noteq> 0" "giga_entry k AND PDPTE_PS \<noteq> 0"
    "giga_entry k AND PHYS_MASK AND NOT (mask 30) = of_nat k * 0x40000000"
proof -
  let ?A = "of_nat k * 0x40000000 :: u64"
  have A: "?A = push_bit 30 (of_nat k)" by (simp add: push_bit_eq_mult)
  have "of_nat k < (2 ^ 17 :: u64)" using assms unat_u64[of k] by (simp add: word_less_nat_alt)
  then have hi: "\<not> bit (of_nat k :: u64) i" if "17 \<le> i" for i using that word_less_exp_iff_bits[of 17 "of_nat k"] by auto
  have mid: "30 \<le> i \<and> i < 47" if "bit ?A i" for i
  proof -
    have "30 \<le> i" "bit (of_nat k :: u64) (i - 30)" using that unfolding A by (auto simp: bit_push_bit_iff)
    then show ?thesis using hi[of "i - 30"] by linarith
  qed
  have m: "PHYS_MASK AND NOT (mask 30) = mask 52 AND NOT (mask 30)"
    by (simp add: PHYS_MASK_def mask_eq_exp_minus_1)
  have f: "PTE_P OR PDPTE_PS OR PTE_W = (0x83 :: u64)" by (simp add: PTE_P_def PTE_W_def PDPTE_PS_def)
  have fl: "(0x83 :: u64) AND NOT (mask 30) = 0" "bit (0x83 :: u64) 0" "bit (0x83 :: u64) 7"
    by (simp_all add: mask_eq_exp_minus_1)
  show "giga_entry k AND PTE_P \<noteq> 0" "giga_entry k AND PDPTE_PS \<noteq> 0"
    unfolding giga_entry_def f PTE_P_iff PDPTE_PS_iff using fl(2,3) by (simp_all add: bit_or_iff)
  have "?A AND mask 52 AND NOT (mask 30) = ?A" by (rule u64_eqI) (use mid in \<open>fastforce simp: bit_simps\<close>)
  moreover have "(0x83 :: u64) AND mask 52 AND NOT (mask 30) = 0" by (simp add: mask_eq_exp_minus_1)
  ultimately show "giga_entry k AND PHYS_MASK AND NOT (mask 30) = ?A"
    unfolding giga_entry_def f m by (simp add: bit.conj_disj_distrib2)
qed

lemma mmu_entry_cell:
  assumes t: "room t" and p: "p AND PHYS_MASK = slot (K2P t) b" and i: "b + unat i < n_cells" and e: "arr m t (b + unat i) = e" "e AND PTE_P \<noteq> 0"
  shows "mmu_entry m p i = Some e"
proof -
  have "slot (K2P t) b + 8 * i = slot (K2P t) (b + unat i)" by (simp add: slot_def algebra_simps)
  then show ?thesis using assms by (simp add: mmu_entry_def Let_def)
qed

lemma mapped_top:
  assumes t: "room t" and m: "mapped m t n kstack"
  shows "mmu_entry m (K2P t) (PML4_INDEX va) = Some (slot (K2P t) (512 + 512 * unat (PML4_INDEX va)) OR PTE_P OR PTE_W)"
    and "(slot (K2P t) (512 + 512 * unat (PML4_INDEX va)) OR PTE_P OR PTE_W) AND PHYS_MASK = slot (K2P t) (512 + 512 * unat (PML4_INDEX va))"
proof -
  let ?i = "unat (PML4_INDEX va)"
  have i: "?i < 512" by (simp add: PML4_INDEX_def unat_index)
  have pg: "is_page (slot (K2P t) (512 * (1 + ?i)))" by (rule is_page_table[OF t]) (use i in \<open>simp add: n_cells_def\<close>)
  note pe = page_entry[OF pg, unfolded distrib_left mult_1_right]
  show "(slot (K2P t) (512 + 512 * ?i) OR PTE_P OR PTE_W) AND PHYS_MASK = slot (K2P t) (512 + 512 * ?i)" by (rule pe(2))
  have "is_page (slot (K2P t) (512 * 0))" by (rule is_page_table[OF t]) (simp add: n_cells_def)
  then have "K2P t AND PHYS_MASK = slot (K2P t) 0" using page_entry(1)[of "slot (K2P t) 0"] by (simp add: slot_def)
  then show "mmu_entry m (K2P t) (PML4_INDEX va) = Some (slot (K2P t) (512 + 512 * ?i) OR PTE_P OR PTE_W)"
    by (rule mmu_entry_cell[OF t]) (use i m pe(3) in \<open>auto simp: mapped_def n_cells_def\<close>)
qed

lemma mapped_giga:
  assumes t: "room t" and m: "mapped m t n kstack" and n: "k < n" "n \<le> 2 ^ 17" and va: "canonical va" "giga va \<in> {k, 2 ^ 17 + k}"
  shows "translate m (K2P t) va = Some (of_nat k * 0x40000000 OR (va AND mask 30))"
proof -
  note top = mapped_top[OF t m, of va]
  have k: "k < 2 ^ 17" using n by simp
  have a: "arr m t (512 + giga va) = giga_entry k" using m n(1) va(2) by (auto simp: mapped_def)
  have "mmu_entry m (slot (K2P t) (512 + 512 * unat (PML4_INDEX va)) OR PTE_P OR PTE_W) (PDPT_INDEX va) = Some (giga_entry k)"
  proof (rule mmu_entry_cell[OF t top(2)])
    have e: "512 + 512 * unat (PML4_INDEX va) + unat (PDPT_INDEX va) = 512 + giga va" by (simp add: giga_def)
    show "512 + 512 * unat (PML4_INDEX va) + unat (PDPT_INDEX va) < n_cells"
      unfolding e using giga_less[of va] by (simp add: n_cells_def)
    show "arr m t (512 + 512 * unat (PML4_INDEX va) + unat (PDPT_INDEX va)) = giga_entry k" unfolding e by (rule a)
  qed (rule giga_entry_bits(1)[OF k])
  then show ?thesis using va(1) top(1) giga_entry_bits(2,3)[OF k] by (simp add: translate_def)
qed

lemma giga_split: "of_nat (unat a div 2 ^ 30) * 0x40000000 OR (a AND mask 30) = (a :: u64)"
proof -
  have "(of_nat (unat a div 2 ^ 30) :: u64) = drop_bit 30 a"
  proof -
    have "unat (drop_bit 30 a) = unat a div 2 ^ 30" by (simp add: drop_bit_eq_div unat_div)
    moreover have "of_nat (unat (drop_bit 30 a)) = drop_bit 30 a" by simp
    ultimately show ?thesis by metis
  qed
  then have "of_nat (unat a div 2 ^ 30) * 0x40000000 = push_bit 30 (drop_bit 30 a)" by (simp add: push_bit_eq_mult)
  then show ?thesis by (simp only:) (rule u64_eqI, auto simp: bit_simps)
qed

lemma direct_map_translate:
  assumes t: "room t" and m: "mapped m t (n_giga mx) kstack" and mx: "mx \<le> 2 ^ 47 - 2 ^ 30" and a: "a < mx"
  shows "translate m (K2P t) a = Some a \<and> translate m (K2P t) (P2K a) = Some a"
proof -
  let ?k = "unat a div 2 ^ 30"
  have a47: "a < 2 ^ 47" using a mx by (simp add: word_less_nat_alt word_le_nat_alt)
  have k1: "?k < n_giga mx"
  proof -
    have "unat a + 2 ^ 30 \<le> unat mx + (2 ^ 30 - 1)" using a by (simp add: word_less_nat_alt)
    then have "(unat a + 2 ^ 30) div 2 ^ 30 \<le> n_giga mx" unfolding n_giga_def by (rule div_le_mono)
    then show ?thesis by simp
  qed
  have k2: "n_giga mx \<le> 2 ^ 17" using mx by (simp add: n_giga_def word_le_nat_alt)
  note k = k1 k2
  have g: "giga a = ?k" unfolding giga_eq using k by (intro mod_less) simp
  have "\<forall>i. 47 \<le> i \<longrightarrow> \<not> bit a i" using a47 word_less_exp_iff_bits[of 47 a] by simp
  then have "i < 47" if "bit a i" for i using that by (meson not_le)
  then have "a AND KERNBASE = 0" unfolding KERNBASE_eq by (intro u64_eqI) (auto simp: bit_simps)
  moreover have "P2K a AND KERNBASE = KERNBASE" unfolding P2K_def KERNBASE_eq by (rule u64_eqI) (auto simp: bit_simps)
  ultimately have c: "canonical a" "canonical (P2K a)" by (simp_all add: canonical_def)
  have "P2K a AND mask 30 = a AND mask 30" by (rule u64_eqI) (auto simp: P2K_def KERNBASE_eq bit_simps)
  moreover have "giga (P2K a) = 2 ^ 17 + ?k" using giga_high[OF a47] g by (simp add: P2K_def or.commute)
  ultimately show ?thesis
    using mapped_giga[OF t m k c(1)] mapped_giga[OF t m k c(2)] g giga_split[of a] by simp
qed

lemma stack_translate:
  assumes t: "room t" and m: "mapped m t n kstack" and ks: "is_page (K2P kstack)" and k: "k < 4096"
  shows "translate m (K2P t) (KSTACK - PGSIZE + of_nat k) = Some (K2P kstack + of_nat k)"
proof -
  let ?va = "KSTACK - PGSIZE + of_nat k"
  have l: "of_nat k < (2 ^ 12 :: u64)" using k by (simp add: word_less_nat_alt unat_of_nat)
  have al: "KSTACK - PGSIZE AND mask 12 = 0" by (simp add: KSTACK_def PGSIZE_def mask_eq_exp_minus_1)
  have pg: "PAGEADDR ?va = KSTACK - PGSIZE" using aligned_plus_base[OF al l] by (simp add: PAGEADDR_def PGMASK_eq)
  have off: "?va AND mask 12 = of_nat k" using aligned_plus_offset[OF al l] by simp
  have pi: "drop_bit i ?va = drop_bit i (KSTACK - PGSIZE)" if "12 \<le> i" for i using index_page[OF that, of ?va] unfolding pg by simp
  have ix: "PML4_INDEX ?va = 511" "PDPT_INDEX ?va = 511" "PD_INDEX ?va = 511" "PT_INDEX ?va = 510"
    unfolding PML4_INDEX_def PDPT_INDEX_def PD_INDEX_def PT_INDEX_def PML4_OFFSET_def PDPT_OFFSET_def PD_OFFSET_def PT_OFFSET_def
    by (simp_all only: pi) (simp_all add: KSTACK_def PGSIZE_def drop_bit_eq_div)
  have o: "?va = (KSTACK - PGSIZE) OR of_nat k" by (rule aligned_plus_eq_or[OF al l]) simp
  have "(KSTACK - PGSIZE) AND KERNBASE = KERNBASE" by (simp add: KSTACK_def PGSIZE_def KERNBASE_def)
  then have "bit KERNBASE i \<Longrightarrow> bit (KSTACK - PGSIZE) i" for i by (metis bit_and_iff)
  then have "?va AND KERNBASE = KERNBASE" unfolding o by (intro u64_eqI) (auto simp: bit_and_iff bit_or_iff)
  then have c: "canonical ?va" by (simp add: canonical_def)
  have g: "is_page (slot (K2P t) (512 * 513))" "is_page (slot (K2P t) (512 * 514))"
    by (rule is_page_table[OF t], simp add: n_cells_def)+
  have e4: "mmu_entry m (K2P t) (PML4_INDEX ?va) = Some (slot (K2P t) (512 * 512) OR PTE_P OR PTE_W)"
    using mapped_top(1)[OF t m, of ?va] by (simp add: ix)
  have e3: "mmu_entry m (slot (K2P t) (512 * 512) OR PTE_P OR PTE_W) (PDPT_INDEX ?va) = Some (slot (K2P t) (512 * 513) OR PTE_P OR PTE_W)"
    by (rule mmu_entry_cell[OF t, of _ "512 * 512"])
      (use mapped_top(2)[OF t m, of ?va] m page_entry(3)[OF g(1)] in \<open>simp_all add: ix mapped_def n_cells_def\<close>)
  have e2: "mmu_entry m (slot (K2P t) (512 * 513) OR PTE_P OR PTE_W) (PD_INDEX ?va) = Some (slot (K2P t) (512 * 514) OR PTE_P OR PTE_W)"
    by (rule mmu_entry_cell[OF t page_entry(2)[OF g(1)]]) (use m page_entry(3)[OF g(2)] in \<open>simp_all add: ix mapped_def n_cells_def\<close>)
  have e1: "mmu_entry m (slot (K2P t) (512 * 514) OR PTE_P OR PTE_W) (PT_INDEX ?va) = Some (K2P kstack OR PTE_P OR PTE_W)"
    by (rule mmu_entry_cell[OF t page_entry(2)[OF g(2)]]) (use m page_entry(3)[OF ks] in \<open>simp_all add: ix mapped_def n_cells_def\<close>)
  have "K2P kstack OR of_nat k = K2P kstack + of_nat k" using ks l aligned_plus_eq_or[of "K2P kstack" 12 "of_nat k"] by (simp add: is_page_def)
  then show ?thesis
    using c e4 e3 e2 e1 page_entry(4)[OF g(1)] page_entry(4)[OF g(2)] page_entry(2)[OF ks] off by (simp add: translate_def)
qed

section \<open>The property\<close>

lemma unprotect_bits: "\<not> bit (fst (unprotect cr0 cr4)) 16 \<and> \<not> bit (snd (unprotect cr0 cr4)) 21"
  unfolding unprotect_def Let_def CR0_WP_def CR4_SMAP_def
  using and_exp_eq_0_iff_not_bit[of cr0 16] and_exp_eq_0_iff_not_bit[of cr4 21]
  by (simp add: bit_and_iff bit_not_iff bit_exp_iff)

text \<open>
  C7: The kernel's page table is the direct map.  \<^verbatim>\<open>init_kpgtbl\<close> returns with CR3 at tables laid out behind the
  kernel, through which the processor translates every physical address below \<^verbatim>\<open>max_addr\<close> to itself, and its
  image under \<^verbatim>\<open>P2K\<close> to it, as well as the page of \<^verbatim>\<open>KSTACKTOP\<close> to the static stack; write protection and
  SMAP are off, and no page descriptor changes.
\<close>
theorem init_kpgtbl_direct_map:
  assumes "room (ROUNDUP (end_kmem s) PGSIZE)" and "max_addr s \<le> 2 ^ 47 - 2 ^ 30" and "is_page (K2P kstack)"
  shows "\<exists>c0 c4 s'. init_kpgtbl kstack cr0 cr4 s = Some ((c0, c4), s') \<and> \<not> bit c0 16 \<and> \<not> bit c4 21 \<and>
    (\<forall>a < max_addr s. translate (pmem s') (cr3 s') a = Some a \<and> translate (pmem s') (cr3 s') (P2K a) = Some a) \<and>
    (\<forall>k < 4096. translate (pmem s') (cr3 s') (KSTACK - PGSIZE + of_nat k) = Some (K2P kstack + of_nat k)) \<and>
    page_infos s' = page_infos s \<and> max_addr s' = max_addr s"
proof -
  let ?t = "ROUNDUP (end_kmem s) PGSIZE"
  from init_kpgtbl_ok[OF assms(1,2), of kstack cr0 cr4] obtain s' where s': "init_kpgtbl kstack cr0 cr4 s = Some (unprotect cr0 cr4, s')"
    "s' = s\<lparr>pmem := pmem s', k_pgtbl := ?t, k_pdpt := slot ?t 512, cr3 := K2P ?t, end_kmem := slot ?t n_cells\<rparr>"
    "mapped (pmem s') ?t (n_giga (max_addr s)) kstack" by blast
  obtain c0 c4 where c: "unprotect cr0 cr4 = (c0, c4)" by fastforce
  have "\<not> bit c0 16 \<and> \<not> bit c4 21" using unprotect_bits[of cr0 cr4] c by simp
  moreover obtain m where m: "s' = s\<lparr>pmem := m, k_pgtbl := ?t, k_pdpt := slot ?t 512, cr3 := K2P ?t, end_kmem := slot ?t n_cells\<rparr>"
    using s'(2) by blast
  have "cr3 s' = K2P ?t" "page_infos s' = page_infos s" "max_addr s' = max_addr s" by (simp_all add: m)
  ultimately show ?thesis
    using s'(1) c direct_map_translate[OF assms(1) s'(3) assms(2)] stack_translate[OF assms(1) s'(3) assms(3)] by auto
qed

theorem init_kpgtbl_direct_map_witness:
  "\<exists>c s'. init_kpgtbl 0xFFFF800000105000 0x80010033 0x3406E0 ex_kmem = Some (c, s') \<and>
     translate (pmem s') (cr3 s') 0xFFFF800000003210 = Some 0x3210"
proof -
  have r: "ROUNDUP (end_kmem ex_kmem) PGSIZE = 0xFFFF800000200000" by (simp add: ex_kmem_def ROUNDUP_def PGSIZE_def)
  have "room 0xFFFF800000200000" "is_page (K2P 0xFFFF800000105000)"
    by (simp_all add: room_def n_cells_def K2P_def MASK_def is_page_def mask_eq_exp_minus_1)
  moreover have "max_addr ex_kmem = 0x400000" by (simp add: ex_kmem_def)
  moreover have p: "P2K 0x3210 = 0xFFFF800000003210" by (simp add: P2K_def KERNBASE_def)
  ultimately obtain c0 c4 s' where s': "init_kpgtbl 0xFFFF800000105000 0x80010033 0x3406E0 ex_kmem = Some ((c0, c4), s')"
    "\<forall>a < 0x400000. translate (pmem s') (cr3 s') a = Some a \<and> translate (pmem s') (cr3 s') (P2K a) = Some a"
    using init_kpgtbl_direct_map[of ex_kmem "0xFFFF800000105000" "0x80010033" "0x3406E0"] unfolding r by auto
  have "(0x3210 :: u64) < 0x400000" by simp
  then show ?thesis using s' p by metis
qed

end
