(* ===== verification/Boot.thy ===== *)
theory Boot
  imports KMap IntrProp
begin

text \<open>
  The part of \<^verbatim>\<open>init\<close> of \<^verbatim>\<open>kernel/init.c\<close> that sets up memory, in the order of the code, and what it leaves for
  the rest of the kernel.  The calls in between that set up the screen, the memory types and the
  segments do not touch this state.
\<close>

section \<open>Initialisation\<close>

definition init_memory ::
    "mem_map \<Rightarrow> u64 \<Rightarrow> u64 \<Rightarrow> u64 \<Rightarrow> u64 \<Rightarrow> (string \<Rightarrow> u64) \<Rightarrow> 'a kstate_scheme \<Rightarrow>
     (((u64 \<times> u64) \<times> ((nat \<Rightarrow> IDTGateDesc) \<times> IDTDesc)) \<times> 'a kstate_scheme) option" where
  "init_memory mm end_kernel_img kstack cr0 cr4 entry_addr s = do {
     let s = s\<lparr>end_kmem := end_kernel_img\<rparr>;
     s \<leftarrow> init_kpageinfo mm s;
     (cr, s) \<leftarrow> init_kpgtbl kstack cr0 cr4 s;
     let s = init_pcb s;
     let (idt, s) = init_intr entry_addr s;
     s \<leftarrow> init_freepages s;
     Some ((cr, idt), s)
   }"

section \<open>The state after it\<close>

text \<open>The end of the kernel's memory when the process table and the interrupt table were added at \<open>e\<close>.\<close>

definition tables_end :: "u64 \<Rightarrow> u64" where
  "tables_end e =
     (let p = ROUNDUP e SIZEOF_PROC + of_nat NPROCS * SIZEOF_PROC;
          f = ROUNDUP p PGSIZE + of_nat NPROCS * SIZEOF_FX
      in ROUNDUP f 16 + 256 * 16)"

lemma init_pcb_intr:
  fixes s :: "'a kstate_scheme"
  obtains P F where "snd (init_intr ea (init_pcb s)) = s\<lparr>procs := P, fx_ctxs := F, end_kmem := tables_end (end_kmem s)\<rparr>"
  by (simp add: init_intr_def init_pcb_def tables_end_def Let_def)

text \<open>The addresses that follow from the memory map: \<open>top_addr\<close> is \<^verbatim>\<open>max_addr\<close>, \<open>tables_at\<close> is \<^verbatim>\<open>k_pgtbl\<close>.\<close>

definition top_addr :: "mem_map \<Rightarrow> u64" where
  "top_addr mm = fold (\<lambda>i a. max a (desc_end (mm_list mm i))) [0..<n_desc mm] 0"

definition tables_at :: "mem_map \<Rightarrow> u64 \<Rightarrow> u64" where
  "tables_at mm e = ROUNDUP (e + 16 * drop_bit 12 (top_addr mm)) PGSIZE"

definition kernel_end :: "mem_map \<Rightarrow> u64 \<Rightarrow> u64" where
  "kernel_end mm e = tables_end (slot (tables_at mm e) n_cells)"

text \<open>The numbers of the pages that are conventional memory behind the kernel.\<close>

definition usable :: "mem_map \<Rightarrow> u64 \<Rightarrow> nat \<Rightarrow> bool" where
  "usable mm e k \<longleftrightarrow> conventional mm (n_desc mm) k \<and> K2P (kernel_end mm e) \<le> of_nat k * PGSIZE"

text \<open>
  C6: Memory after initialisation.  For a memory map with aligned conventional ranges below \<open>2 ^ 47 - 2 ^ 30\<close>
  and room for the kernel's tables, the set-up returns; the free list then holds exactly the pages of
  conventional memory behind everything the kernel has claimed, each once and in ascending order, with
  matching descriptors and count, and the page table in use maps all of physical memory at 0 and at \<^verbatim>\<open>KERNBASE\<close>.
\<close>
theorem init_memory_establishes:
  fixes s :: "'a kstate_scheme"
  assumes "(ucast (desc_size mm) :: u32) \<noteq> 0" and mx: "top_addr mm \<le> 2 ^ 47 - 2 ^ 30"
    and e: "2 ^ 63 \<le> unat e" "unat e + 2 ^ 39 < 2 ^ 64" and rm: "room (tables_at mm e)"
    and al: "\<forall>i < n_desc mm. md_type (mm_list mm i) = EFI_CONVENTIONAL_MEMORY \<longrightarrow> phys_start (mm_list mm i) AND PGMASK = 0"
    and fresh: "freepages s = 0" "nfreepages s = 0" and pos: "0 < K2P (kernel_end mm e)"
    and us: "\<exists>k < unat (top_addr mm) div 4096. usable mm e k"
  shows "\<exists>r s'. init_memory mm e kstack cr0 cr4 ea s = Some (r, s') \<and> end_kmem s' = kernel_end mm e \<and>
    free_list s' (map (\<lambda>k. e + 16 * of_nat k) (filter (usable mm e) [0..<unat (top_addr mm) div 4096])) \<and>
    (\<forall>a < top_addr mm. translate (pmem s') (cr3 s') a = Some a \<and> translate (pmem s') (cr3 s') (P2K a) = Some a)"
proof -
  have mx47: "top_addr mm < 2 ^ 47" using mx by (simp add: word_le_nat_alt word_less_nat_alt)
  let ?s0 = "s\<lparr>end_kmem := e\<rparr>"
  from init_kpageinfo_ok[of mm ?s0] assms(1) mx47 e(2) al obtain s1 where s1: "init_kpageinfo mm ?s0 = Some s1"
    "k_pageinfo s1 = e" "max_addr s1 = top_addr mm" "freepages s1 = 0" "nfreepages s1 = 0"
    "infos s1 (n_pages (top_addr mm)) (conventional mm (n_desc mm))" "end_kmem s1 = e + 16 * drop_bit 12 (top_addr mm)"
    using fresh unfolding top_addr_def by auto
  have t: "ROUNDUP (end_kmem s1) PGSIZE = tables_at mm e" using s1(7) by (simp add: tables_at_def)
  from init_kpgtbl_ok[of s1 kstack cr0 cr4] rm mx obtain s2 where s2: "init_kpgtbl kstack cr0 cr4 s1 = Some (unprotect cr0 cr4, s2)"
    "s2 = s1\<lparr>pmem := pmem s2, k_pgtbl := tables_at mm e, k_pdpt := slot (tables_at mm e) 512, cr3 := K2P (tables_at mm e), end_kmem := slot (tables_at mm e) n_cells\<rparr>"
    "mapped (pmem s2) (tables_at mm e) (n_giga (top_addr mm)) kstack" unfolding t s1(3) by blast
  from s2(2) obtain m where m: "s2 = s1\<lparr>pmem := m, k_pgtbl := tables_at mm e, k_pdpt := slot (tables_at mm e) 512,
    cr3 := K2P (tables_at mm e), end_kmem := slot (tables_at mm e) n_cells\<rparr>" by blast
  obtain P F where "snd (init_intr ea (init_pcb s2)) = s2\<lparr>procs := P, fx_ctxs := F, end_kmem := tables_end (end_kmem s2)\<rparr>"
    by (rule init_pcb_intr)
  then obtain idt s3 where s3: "init_intr ea (init_pcb s2) = (idt, s3)" "s3 = s2\<lparr>procs := P, fx_ctxs := F, end_kmem := tables_end (end_kmem s2)\<rparr>"
    by (metis prod.collapse)
  have k: "k_pageinfo s3 = e" "max_addr s3 = top_addr mm" "end_kmem s3 = kernel_end mm e" "freepages s3 = 0" "nfreepages s3 = 0"
    "page_infos s3 = page_infos s1" "pmem s3 = pmem s2" "cr3 s3 = K2P (tables_at mm e)"
    using s1(2-5) by (simp_all add: s3(2) m kernel_end_def)
  let ?n = "unat (top_addr mm) div 4096" and ?pa = "\<lambda>k. paddr (page_infos s1 (e + 16 * of_nat k))"
  have pa: "?pa k = (if conventional mm (n_desc mm) k then of_nat k * PGSIZE else 0)" if "k < ?n" for k
  proof -
    have "k < n_pages (top_addr mm)" using that by (simp add: n_pages_def)
    then show ?thesis using s1(2,6) by (simp add: infos_def)
  qed
  then have fl: "filter (\<lambda>k. K2P (kernel_end mm e) \<le> ?pa k) [0..<?n] = filter (usable mm e) [0..<?n]"
    using pos by (intro filter_cong) (auto simp: usable_def)
  have ne: "map (\<lambda>k. e + 16 * of_nat k) (filter (usable mm e) [0..<?n]) \<noteq> []" using us by (auto simp: filter_empty_conv)
  have mem: "?pa k \<in> {0, of_nat k * PGSIZE}" if "k < ?n" for k using pa[OF that] by simp
  have "\<exists>s'. init_freepages s3 = Some s' \<and> free_list s' (map (\<lambda>k. e + 16 * of_nat k) (filter (usable mm e) [0..<?n])) \<and>
      pmem s' = pmem s3 \<and> cr3 s' = cr3 s3 \<and> end_kmem s' = end_kmem s3"
    using init_freepages_ok[of s3, unfolded k(1,2,3,6) fl, OF mx47 e k(4,5) pos mem ne] unfolding k(3) .
  then obtain s' where s': "init_freepages s3 = Some s'" "free_list s' (map (\<lambda>k. e + 16 * of_nat k) (filter (usable mm e) [0..<?n]))"
    "pmem s' = pmem s2" "cr3 s' = K2P (tables_at mm e)" "end_kmem s' = kernel_end mm e" unfolding k by blast
  have "init_memory mm e kstack cr0 cr4 ea s = Some ((unprotect cr0 cr4, idt), s')"
    using s1(1) s2(1) s3(1) s'(1) by (simp add: init_memory_def Let_def)
  then show ?thesis using s' direct_map_translate[OF rm s2(3) mx] by auto
qed

text \<open>256 megabytes of conventional memory with the kernel's image up to 2 megabytes.\<close>

definition ex_map :: mem_map where
  "ex_map = \<lparr>mm_list = (\<lambda>_. \<lparr>md_type = 7, md_pad = 0, phys_start = 0, virt_start = 0, num_of_pages = 0x10000, md_attr = 0\<rparr>),
     map_size = 48, map_key = 0, desc_size = 48, desc_ver = 1\<rparr>"

lemma ex_map_addrs:
  "n_desc ex_map = 1" "top_addr ex_map = 0x10000000" "tables_at ex_map 0xFFFF800000200000 = 0xFFFF800000300000"
proof -
  show n: "n_desc ex_map = 1" by (simp add: n_desc_def ex_map_def)
  show t: "top_addr ex_map = 0x10000000" by (simp add: top_addr_def n) (simp add: ex_map_def desc_end_def PGSIZE_def)
  show "tables_at ex_map 0xFFFF800000200000 = 0xFFFF800000300000"
    by (simp add: tables_at_def t ROUNDUP_def PGSIZE_def drop_bit_eq_div)
qed

lemma ex_map_end: "kernel_end ex_map 0xFFFF800000200000 = 0xFFFF800001899000"
  by (simp add: kernel_end_def tables_end_def Let_def ex_map_addrs slot_def n_cells_def ROUNDUP_def SIZEOF_PROC_def NPROCS_def PGSIZE_def SIZEOF_FX_def)

theorem init_memory_establishes_witness:
  "\<exists>r s'. init_memory ex_map 0xFFFF800000200000 0xFFFF800000105000 0x80010033 0x3406E0 (\<lambda>_. 0) (ex_kbd\<lparr>freepages := 0, nfreepages := 0\<rparr>) = Some (r, s') \<and>
     translate (pmem s') (cr3 s') 0xFFFF800000003210 = Some 0x3210"
proof -
  let ?s = "ex_kbd\<lparr>freepages := 0, nfreepages := 0\<rparr>" and ?e = "0xFFFF800000200000 :: u64"
  have mm: "(ucast (desc_size ex_map) :: u32) \<noteq> 0" "phys_start (mm_list ex_map i) = 0" for i by (simp_all add: ex_map_def)
  have r: "room (tables_at ex_map ?e)" by (simp add: ex_map_addrs room_def n_cells_def K2P_def MASK_def)
  have top: "top_addr ex_map \<le> 2 ^ 47 - 2 ^ 30" "2 ^ 63 \<le> unat ?e" "unat ?e + 2 ^ 39 < 2 ^ 64" by (simp_all add: ex_map_addrs)
  have "usable ex_map ?e 0xFFFF"
    by (simp add: usable_def conventional_def in_desc_def ex_map_addrs ex_map_end)
      (simp add: ex_map_def EFI_CONVENTIONAL_MEMORY_def desc_end_def PGSIZE_def K2P_def MASK_def)
  then have us: "\<exists>k < unat (top_addr ex_map) div 4096. usable ex_map ?e k" by (intro exI[of _ "0xFFFF"]) (simp add: ex_map_addrs)
  have pos: "0 < K2P (kernel_end ex_map ?e)" by (simp add: ex_map_end K2P_def MASK_def)
  have "freepages ?s = 0" "nfreepages ?s = 0" by simp_all
  from init_memory_establishes[OF mm(1) top r _ this pos us, of "0xFFFF800000105000" "0x80010033" "0x3406E0" "\<lambda>_. 0"] mm(2)
  obtain q s' where s': "init_memory ex_map ?e 0xFFFF800000105000 0x80010033 0x3406E0 (\<lambda>_. 0) ?s = Some (q, s')"
    "\<forall>a < top_addr ex_map. translate (pmem s') (cr3 s') a = Some a \<and> translate (pmem s') (cr3 s') (P2K a) = Some a" by auto
  have "(0x3210 :: u64) < top_addr ex_map" "P2K 0x3210 = 0xFFFF800000003210" by (simp_all add: ex_map_addrs P2K_def KERNBASE_def)
  then show ?thesis using s' by metis
qed

end
