(* ===== verification/Spec2Isabelle.thy ===== *)
theory Spec2Isabelle
  imports UkPrelude Str Errno Mem PgTree Pgtbl PgClear PgFree Proc UMem UBuf Ring Sched ProcLife Pipe Fmt FmtDbl Kbd Console Dev Sata Exfat Part Syscall Exec Intr DiskProp SysProp IntrProp MemInit MemProp KMap Boot
begin

text \<open>
  A verification development for ukern, a small monolithic kernel for x86-64.

  \<^bold>\<open>The program.\<close>  The kernel of \<^verbatim>\<open>kernel/\<close> and \<^verbatim>\<open>lib/\<close> manages physical pages by reference count, gives each
  process two page tables (\<^verbatim>\<open>pgtbl\<close>, which the processor uses, and \<^verbatim>\<open>p_pgtbl\<close>, with the permissions the
  process has apart from copy-on-write), schedules processes round robin, and offers files on an exFAT
  partition of a SATA disk, pipes, a keyboard and a text screen through system calls.  An interrupt
  enters at \<^verbatim>\<open>trap_handler\<close>, which calls \<^verbatim>\<open>syscall\<close>, the page fault handler, or \<^verbatim>\<open>sched\<close>.

  \<^bold>\<open>Reading the models.\<close>  A kernel function becomes a function on an explicit state that returns
  in the \<^typ>\<open>'a option\<close> monad.  \<^term>\<open>None\<close> means that the call never returns or that C does not define
  what it does: \<^verbatim>\<open>panic\<close> and \<^verbatim>\<open>assert\<close> of \<^verbatim>\<open>kernel/printk.h\<close> end in \<^verbatim>\<open>while (1)\<close>, and so does a fault taken
  inside the kernel; an index outside an array is treated alike.  Error codes are ordinary results.
  Machine integers are words of their C width.

  \<^bold>\<open>State.\<close>  Three extensible records: \<open>kmem\<close> (physical memory, CR3, page descriptors, the free list),
  \<open>kstate\<close> (the process table, saved SSE registers, the current process, pipes, the keyboard buffer) and
  \<open>dstate\<close> (console, disks, file system, controller registers).  A function is stated for the smallest
  record it needs and applies to its extensions.  Page tables and user buffers live in the byte
  memory; page descriptors, pipes and the interrupt table are typed heaps beside it, and processes are indexed by their slot.
  Kernel addresses reach memory through the direct map (\<open>K2P\<close>), user addresses through the tables at CR3.

  \<^bold>\<open>Theories.\<close>
  \<^item> \<^verbatim>\<open>UkPrelude\<close>: words, byte memory, 64-bit cells (locale \<open>cell_memory\<close>, interpreted as \<open>mem64\<close>), C for-loops in the option monad.
  \<^item> \<^verbatim>\<open>Ring\<close>: the locale \<open>fifo\<close>: an array with a start index and a length is a queue.  It is interpreted on the buffer of a pipe in \<^verbatim>\<open>Pipe\<close> and on the keyboard buffer in \<^verbatim>\<open>Kbd\<close>.
  \<^item> \<^verbatim>\<open>Str\<close>, \<^verbatim>\<open>Errno\<close>: \<^verbatim>\<open>lib/string.c\<close> over a byte memory and the error numbers of \<^verbatim>\<open>lib/errno.h\<close>.
  \<^item> \<^verbatim>\<open>Mem\<close>: the address macros and the page allocator of \<^verbatim>\<open>kernel/mem.c\<close>: descriptors are a typed heap, the free list is a chain through them.  The locale \<open>page_allocator\<close> is its contract.  Along every run of allocations and releases no page is handed out twice or lost.
  \<^item> \<^verbatim>\<open>PgTree\<close>, \<^verbatim>\<open>Pgtbl\<close>: page tables as trees of pages in the byte memory, and \<^verbatim>\<open>walk_pgtbl\<close>, \<^verbatim>\<open>map_mmio\<close>, \<^verbatim>\<open>copy_pgtbl\<close>, \<^verbatim>\<open>free_pgtbl\<close>, \<^verbatim>\<open>pgtbl_clearflags\<close>.  A walk refines a lookup along four indices; a store through its result changes one mapping.
  \<^item> \<^verbatim>\<open>PgClear\<close>, \<^verbatim>\<open>PgFree\<close>: what clearing flags and freeing a tree do: exactly the present user entries lose the flags; every mapping and every table gives back one reference.
  \<^item> \<^verbatim>\<open>Proc\<close>: the data of \<^verbatim>\<open>kernel/proc.h\<close>, process allocation, image loading, \<^verbatim>\<open>U2K\<close> and \<^verbatim>\<open>run_proc\<close>.
  \<^item> \<^verbatim>\<open>UMem\<close>, \<^verbatim>\<open>UBuf\<close>: frame lemmas and what a translation of a user address depends on.
  \<^item> \<^verbatim>\<open>Sched\<close>: \<^verbatim>\<open>kernel/sched.c\<close>: round robin order, and no starvation within \<^verbatim>\<open>NPROCS\<close> calls.
  \<^item> \<^verbatim>\<open>ProcLife\<close>: the end of a process: \<^verbatim>\<open>clear_proc\<close>, \<^verbatim>\<open>exit_as_parent\<close>, \<^verbatim>\<open>exit_as_child\<close>, \<^verbatim>\<open>kill_proc\<close>; both loops over the children end, and what happens to the chains of children, to a waiting parent and to the pages.
  \<^item> \<^verbatim>\<open>Pipe\<close>: \<^verbatim>\<open>kernel/fs/pipe.c\<close>: the two mutually recursive copies move a queue of bytes between two address spaces.
  \<^item> \<^verbatim>\<open>Fmt\<close>: \<^verbatim>\<open>lib/printfmt.c\<close> and \<^verbatim>\<open>lib/printf.c\<close>: digits read back as the number, the buffer of \<^verbatim>\<open>printf\<close> and its bound.  Doubles are their 64 bits with IEEE arithmetic; \<^verbatim>\<open>FmtDbl\<close> relates what \<^verbatim>\<open>%f\<close> prints to the real number.
  \<^item> \<^verbatim>\<open>Kbd\<close>, \<^verbatim>\<open>Console\<close>: \<^verbatim>\<open>kernel/kbd.c\<close>, \<^verbatim>\<open>kernel/console.c\<close> and \<^verbatim>\<open>kernel/printk.c\<close>: the shift state, the keyboard queue, and the screen as a text terminal painted pixel by pixel.
  \<^item> \<^verbatim>\<open>Dev\<close>, \<^verbatim>\<open>Sata\<close>, \<^verbatim>\<open>Part\<close>, \<^verbatim>\<open>Exfat\<close>: the state of the devices, the AHCI commands of \<^verbatim>\<open>kernel/pcie/sata.c\<close>, \<^verbatim>\<open>kernel/fs/disk.c\<close> and the file system of \<^verbatim>\<open>kernel/fs/exfat.c\<close> and \<^verbatim>\<open>kernel/fs/fs.c\<close>; \<^verbatim>\<open>DiskProp\<close> has their properties.
  \<^item> \<^verbatim>\<open>Syscall\<close>, \<^verbatim>\<open>Exec\<close>: every system call of \<^verbatim>\<open>kernel/syscall.c\<close>, the dispatcher and \<^verbatim>\<open>create_proc\<close>; \<^verbatim>\<open>SysProp\<close> has their properties: the check of user pointers, forked and exiting processes, descriptors.
  \<^item> \<^verbatim>\<open>Intr\<close>: \<^verbatim>\<open>kernel/intr.c\<close>: descriptor table, page faults with copy-on-write, timer and keyboard interrupts; \<^verbatim>\<open>IntrProp\<close> shows that the table is well-formed, that preemption keeps registers, and that a write to a shared page gets a private copy.
  \<^item> \<^verbatim>\<open>MemInit\<close>, \<^verbatim>\<open>MemProp\<close>, \<^verbatim>\<open>KMap\<close>, \<^verbatim>\<open>Boot\<close>: the set-up of memory in \<^verbatim>\<open>kernel/mem.c\<close> and its order in \<^verbatim>\<open>kernel/init.c\<close>: from a
    memory map of the boot loader it establishes the free list and the direct map that the other theories assume.

  \<^bold>\<open>Loops and fuel.\<close>  Loops with a bound in the code are structural recursions or have a measure; the page
  walks recurse over the four index levels.  Chases of pointers that may be cyclic are
  \<^verbatim>\<open>partial_function (option)\<close>: that the loops over children and over C strings return on proper chains
  is proved, while the directory loops of \<^verbatim>\<open>Exfat\<close> follow cluster chains of the disk, which may be
  cyclic, and nothing is claimed of when they return.  No model uses fuel.

  \<^bold>\<open>Parameters.\<close>  The AHCI controller is a field of the state, a function from a command to the memory
  and the registers it leaves, if it answers; the live SSE registers, CR2 and the bytes of the keyboard controller are
  arguments of \<^verbatim>\<open>trap_handler\<close>, the addresses of the assembly entry points an argument of \<^verbatim>\<open>init_intr\<close>.
  The memory map of the boot loader, the end of the kernel's image, the address of \<^verbatim>\<open>kstack\<close> and the initial CR0 and CR4
  are arguments of \<^verbatim>\<open>init_memory\<close>, the addresses of \<^verbatim>\<open>tss\<close> and \<^verbatim>\<open>gdt\<close> arguments of \<^verbatim>\<open>init_gdt\<close>; its inline assembly
  \<^verbatim>\<open>load_segs\<close> is given by the selectors it loads.

  \<^bold>\<open>Not modelled.\<close>  Assembly (\<^verbatim>\<open>boot/boot.S\<close>, \<^verbatim>\<open>kernel/entry.S\<close>, \<^verbatim>\<open>kernel/intr_entry.S\<close>), the wrappers of single
  instructions in \<^verbatim>\<open>include/x86.h\<close>, and the one-time set-up of interrupt controllers and memory types
  (\<^verbatim>\<open>lapic.c\<close>, \<^verbatim>\<open>ioapic.c\<close>, \<^verbatim>\<open>mtrr.c\<close>, \<^verbatim>\<open>pic.c\<close>), which are fixed sequences of register writes.  ACPI and PCI Express
  enumeration and the xHCI and NVMe probes read tables of the firmware and of devices.  The user
  programs, their system call stubs, the boot loader and the library gnu-efi are outside the kernel.
\<close>

end
